(* ===== verification/Prelude.thy ===== *)
theory Prelude
  imports Main "HOL-Library.Word" "HOL-Library.Multiset" "HOL-Library.Monad_Syntax"
begin

text \<open>
  Shared vocabulary of the TermChat development: the types every component uses (bytes,
  file descriptors, the outcome of a system call), the named collections its proofs draw
  on, and the generic facts about lists and options that are not specific to one component.

  Conventions. A C++ operation that may trip an \<open>assert\<close> or touch memory out of
  range returns \<open>option\<close>: \<open>None\<close> is "the program aborts or is undefined here". A C++
  \<open>char\<close> is an Isabelle \<open>char\<close> (eight bits), a byte string a \<open>char list\<close>. A system
  call is an argument of the operation that makes it: the outcome the kernel gave.
\<close>

section \<open>Types\<close>

type_synonym bytes = "char list"
type_synonym fd = int
type_synonym u32 = "32 word"
type_synonym u64 = "64 word"

text \<open>What a system call returned: the value, or \<open>-1\<close> with \<open>errno\<close> set.\<close>

datatype 'a sysret = Fail int | Ok 'a

definition EAGAIN :: int where
  "EAGAIN = 11"

section \<open>Named collections\<close>

named_theorems inv_intros \<open>rules that establish or preserve a component's invariant\<close>
named_theorems abs_simps \<open>equations that push an abstraction function through an operation\<close>
named_theorems op_defs \<open>defining equations of the operations of a component\<close>

section \<open>Overwriting a run of a list\<close>

text \<open>\<open>write_at xs k ys\<close> is \<open>memcpy(xs + k, ys, |ys|)\<close> inside the bounds of \<open>xs\<close>.\<close>

definition write_at :: "'a list \<Rightarrow> nat \<Rightarrow> 'a list \<Rightarrow> 'a list" where
  "write_at xs k ys = take k xs @ ys @ drop (k + length ys) xs"

lemma length_write_at [simp]:
  "k + length ys \<le> length xs \<Longrightarrow> length (write_at xs k ys) = length xs"
  by (simp add: write_at_def)

lemma take_drop_write_at:
  assumes "r \<le> k" and "k + length ys \<le> length xs"
  shows "take (k + length ys - r) (drop r (write_at xs k ys)) = take (k - r) (drop r xs) @ ys"
  using assms by (simp add: write_at_def drop_take)

section \<open>Exchanging two elements\<close>

definition swap_at :: "'a list \<Rightarrow> nat \<Rightarrow> nat \<Rightarrow> 'a list" where
  "swap_at xs i j = xs[i := xs ! j, j := xs ! i]"

lemma length_swap_at [simp]: "length (swap_at xs i j) = length xs"
  by (simp add: swap_at_def)

lemma nth_swap_at:
  "i < length xs \<Longrightarrow> j < length xs \<Longrightarrow> k < length xs \<Longrightarrow>
   swap_at xs i j ! k = xs ! (if k = i then j else if k = j then i else k)"
  by (auto simp: swap_at_def nth_list_update)

lemma mset_swap_at [simp]:
  "i < length xs \<Longrightarrow> j < length xs \<Longrightarrow> mset (swap_at xs i j) = mset xs"
  unfolding swap_at_def by (rule mset_swap)

lemma set_swap_at [simp]:
  "i < length xs \<Longrightarrow> j < length xs \<Longrightarrow> set (swap_at xs i j) = set xs"
  by (metis mset_swap_at set_mset_mset)

section \<open>Options\<close>

lemma bind_SomeE [elim!]:
  assumes "Option.bind x f = Some y"
  obtains z where "x = Some z" and "f z = Some y"
  using assms by (auto simp: Option.bind_eq_Some_conv)

section \<open>Decimal numerals\<close>

text \<open>\<open>std::to_string\<close> on an unsigned integer.\<close>

fun to_string :: "nat \<Rightarrow> string" where
  "to_string n =
     (if n < 10 then [char_of (48 + n)] else to_string (n div 10) @ [char_of (48 + n mod 10)])"

declare to_string.simps [simp del]

definition is_digit :: "char \<Rightarrow> bool" where
  "is_digit c \<longleftrightarrow> 48 \<le> (of_char c :: nat) \<and> (of_char c :: nat) \<le> 57"

lemma is_digit_char_of [simp]: "d < 10 \<Longrightarrow> is_digit (char_of (48 + d :: nat))"
  by (simp add: is_digit_def)

lemma to_string_digits: "c \<in> set (to_string n) \<Longrightarrow> is_digit c"
proof (induction n rule: to_string.induct)
  case (1 n)
  then show ?case
    by (cases "n < 10") (auto simp: to_string.simps [of n])
qed

lemma to_string_nonempty [simp]: "to_string n \<noteq> []"
  by (simp add: to_string.simps [of n])

lemma char_of_digit_inj:
  assumes "char_of (48 + a) = (char_of (48 + b) :: char)" and "a < 10" and "b < (10::nat)"
  shows "a = b"
proof -
  have "(of_char (char_of (48 + a) :: char) :: nat) = of_char (char_of (48 + b) :: char)"
    using assms(1) by simp
  with assms(2,3) show ?thesis by simp
qed

lemma to_string_inj: "to_string m = to_string n \<Longrightarrow> m = n"
proof (induction m arbitrary: n rule: to_string.induct)
  case (1 m)
  show ?case
  proof (cases "m < 10")
    case True
    with "1.prems" show ?thesis
      by (cases "n < 10")
        (auto simp: to_string.simps [of m] to_string.simps [of n] dest: char_of_digit_inj
          dest!: sym [of "[]"])
  next
    case False
    with "1.prems" have n: "\<not> n < 10"
      by (auto simp: to_string.simps [of m] to_string.simps [of n])
    with False "1.prems" have "to_string (m div 10) = to_string (n div 10)"
      and c: "char_of (48 + m mod 10) = (char_of (48 + n mod 10) :: char)"
      by (simp_all add: to_string.simps [of m] to_string.simps [of n])
    then have "m div 10 = n div 10"
      using "1.IH" False by blast
    moreover have "m mod 10 = n mod 10"
      using char_of_digit_inj [OF c] by simp
    ultimately show ?thesis
      by (metis div_mult_mod_eq)
  qed
qed

section \<open>Reading decimal numerals\<close>

text \<open>The part of a string that \<open>strtoull\<close> and \<open>strtoul\<close> convert in base 10: after blanks,
  whether there is a minus sign, and the digits up to the first other character.\<close>

definition is_blank :: "char \<Rightarrow> bool" where
  "is_blank c \<longleftrightarrow> c = CHR '' '' \<or> 9 \<le> (of_char c :: nat) \<and> (of_char c :: nat) \<le> 13"

definition scan_number :: "string \<Rightarrow> bool \<times> string" where
  "scan_number s =
     (let s1 = dropWhile is_blank s in
      (case s1 of [] \<Rightarrow> False | c # _ \<Rightarrow> c = CHR ''-'',
       takeWhile is_digit (case s1 of [] \<Rightarrow> [] | c # r \<Rightarrow> if c = CHR ''-'' \<or> c = CHR ''+'' then r else s1)))"

definition digits_value :: "string \<Rightarrow> nat" where
  "digits_value ds = foldl (\<lambda>n c. n * 10 + (of_char c - 48)) 0 ds"

lemma digits_value_snoc: "digits_value (ds @ [c]) = digits_value ds * 10 + (of_char c - 48)"
  by (simp add: digits_value_def)

lemma digits_value_to_string [simp]: "digits_value (to_string n) = n"
proof (induction n rule: to_string.induct)
  case (1 n)
  show ?case
  proof (cases "n < 10")
    case True
    then show ?thesis by (simp add: to_string.simps [of n] digits_value_def)
  next
    case False
    with "1.IH" show ?thesis by (simp add: to_string.simps [of n] digits_value_snoc)
  qed
qed

lemma digit_no_blank: "is_digit c \<Longrightarrow> \<not> is_blank c" "is_digit c \<Longrightarrow> c \<noteq> CHR ''-'' \<and> c \<noteq> CHR ''+''"
  by (auto simp: is_digit_def is_blank_def)

lemma scan_number_to_string:
  assumes b: "list_all is_blank b" and r: "case rest of [] \<Rightarrow> True | c # _ \<Rightarrow> \<not> is_digit c"
  shows "scan_number (b @ to_string n @ rest) = (False, to_string n)"
proof -
  let ?d = "to_string n"
  obtain c cs where d: "?d = c # cs" "is_digit c"
    by (metis to_string_digits to_string_nonempty list.set_intros(1) neq_Nil_conv)
  have drop: "dropWhile is_blank (b @ ?d @ rest) = ?d @ rest"
    using b d digit_no_blank(1) by (auto simp: list_all_iff dropWhile_append)
  have "takeWhile is_digit (?d @ rest) = ?d"
    using r to_string_digits [of _ n] by (cases rest) (auto simp: takeWhile_append)
  moreover have "(case ?d @ rest of [] \<Rightarrow> False | c # _ \<Rightarrow> c = CHR ''-'') = False"
    "(case ?d @ rest of [] \<Rightarrow> [] | c # r \<Rightarrow> if c = CHR ''-'' \<or> c = CHR ''+'' then r else ?d @ rest) = ?d @ rest"
    using digit_no_blank(2) [OF d(2)] by (simp_all add: d(1))
  ultimately show ?thesis by (simp only: scan_number_def Let_def drop)
qed

text \<open>\<open>std::stoull\<close> in base 10; what follows the number is ignored.\<close>

datatype stoull_error = invalid_argument | out_of_range

definition stoull :: "string \<Rightarrow> stoull_error + u64" where
  "stoull s =
     (let (minus, ds) = scan_number s; v = digits_value ds
      in if ds = [] then Inl invalid_argument
         else if v \<ge> 2 ^ 64 then Inl out_of_range
         else Inr (if minus then - word_of_nat v else word_of_nat v))"

lemma stoull_to_string:
  assumes "list_all is_blank b" and "case rest of [] \<Rightarrow> True | c # _ \<Rightarrow> \<not> is_digit c"
  shows "stoull (b @ to_string (unat u) @ rest) = Inr u"
proof -
  have "unat u < 2 ^ 64" using unsigned_less [of u, where 'a = nat] by simp
  then show ?thesis unfolding stoull_def scan_number_to_string [OF assms] by (simp add: not_le)
qed

end
