(* ===== verification/Buffer_Model.thy ===== *)
theory Buffer_Model
  imports Prelude
begin

text \<open>
  The byte buffer of \<open>server/src/buffer\<close>: a growable vector with a read and a write
  position. Its readable bytes form a FIFO byte queue; the interface its clients rely on
  is the locale \<open>byte_queue\<close>, interpreted on these definitions below.

  Pointers into the buffer are offsets into \<open>store\<close>. Sizes are \<open>nat\<close>: they are bounded
  by the size of a \<open>std::vector\<close>, far from the wrap-around of \<open>size_t\<close>, and every
  subtraction is taken under the invariant \<open>buf_ok\<close>. A failed assertion is \<open>None\<close>; in a
  build without assertions the positions would run past each other there. The argument of
  \<open>append\<close> is the bytes themselves, so that its assertion on a null pointer has no counterpart.
\<close>

section \<open>State and operations\<close>

record buffer =
  store :: bytes
  readPos :: nat
  writePos :: nat

definition INIT_BUFFER_SIZE :: nat where
  "INIT_BUFFER_SIZE = 1024"

definition Buffer_new :: "nat \<Rightarrow> buffer" where
  "Buffer_new init_buffer_size =
     \<lparr>store = replicate init_buffer_size (CHR 0x00), readPos = 0, writePos = 0\<rparr>"

definition readable_bytes :: "buffer \<Rightarrow> nat" where
  "readable_bytes b = writePos b - readPos b"

definition writable_bytes :: "buffer \<Rightarrow> nat" where
  "writable_bytes b = length (store b) - writePos b"

definition prependable_bytes :: "buffer \<Rightarrow> nat" where
  "prependable_bytes b = readPos b"

text \<open>\<open>peek()\<close> and \<open>begin_write()\<close> as offsets, and the \<open>n\<close> bytes found at an offset.\<close>

definition peek :: "buffer \<Rightarrow> nat" where
  "peek b = readPos b"

definition begin_write :: "buffer \<Rightarrow> nat" where
  "begin_write b = writePos b"

definition bytes_at :: "buffer \<Rightarrow> nat \<Rightarrow> nat \<Rightarrow> bytes" where
  "bytes_at b p n = take n (drop p (store b))"

definition has_written :: "nat \<Rightarrow> buffer \<Rightarrow> buffer" where
  "has_written len b = b\<lparr>writePos := writePos b + len\<rparr>"

text \<open>\<open>std::vector::resize\<close>: new elements are zero.\<close>

definition vec_resize :: "nat \<Rightarrow> bytes \<Rightarrow> bytes" where
  "vec_resize n xs = take n xs @ replicate (n - length xs) (CHR 0x00)"

definition make_space :: "nat \<Rightarrow> buffer \<Rightarrow> buffer" where
  "make_space len b =
     (if writable_bytes b + prependable_bytes b < len
      then b\<lparr>store := vec_resize (writePos b + len + 1) (store b)\<rparr>
      else let readable = readable_bytes b in
        b\<lparr>store := write_at (store b) 0 (bytes_at b (readPos b) readable),
          readPos := 0, writePos := readable\<rparr>)"

definition ensure_writable :: "nat \<Rightarrow> buffer \<Rightarrow> buffer option" where
  "ensure_writable len b =
     (let b' = (if writable_bytes b < len then make_space len b else b)
      in if len \<le> writable_bytes b' then Some b' else None)"

definition retrieve :: "nat \<Rightarrow> buffer \<Rightarrow> buffer option" where
  "retrieve len b =
     (if len \<le> readable_bytes b then Some (b\<lparr>readPos := readPos b + len\<rparr>) else None)"

definition retrieve_until :: "nat \<Rightarrow> buffer \<Rightarrow> buffer option" where
  "retrieve_until end_ptr b =
     (if peek b \<le> end_ptr then retrieve (end_ptr - peek b) b else None)"

definition retrieve_all :: "buffer \<Rightarrow> buffer" where
  "retrieve_all b = b\<lparr>readPos := 0, writePos := 0\<rparr>"

definition retrieve_all_to_str :: "buffer \<Rightarrow> bytes \<times> buffer" where
  "retrieve_all_to_str b = (bytes_at b (peek b) (readable_bytes b), retrieve_all b)"

definition buf_append :: "bytes \<Rightarrow> buffer \<Rightarrow> buffer option" where
  "buf_append str b = do {
     b1 \<leftarrow> ensure_writable (length str) b;
     Some (has_written (length str) (b1\<lparr>store := write_at (store b1) (begin_write b1) str\<rparr>))
   }"

definition append_buffer :: "buffer \<Rightarrow> buffer \<Rightarrow> buffer option" where
  "append_buffer buff b = buf_append (bytes_at buff (peek buff) (readable_bytes buff)) b"

definition STACK_BUFF_SIZE :: nat where
  "STACK_BUFF_SIZE = 65535"

text \<open>
  \<open>read_fd\<close> takes the outcome of \<open>readv(fd, iov, 2)\<close>: an \<open>errno\<close>, or the bytes the
  kernel delivered, at most as many as the two vectors hold. The result is the returned
  length, the \<open>errno\<close> stored through \<open>saveErrno\<close> (if any) and the buffer.
\<close>

definition readv_room :: "buffer \<Rightarrow> nat" where
  "readv_room b = writable_bytes b + STACK_BUFF_SIZE"

definition read_fd :: "bytes sysret \<Rightarrow> buffer \<Rightarrow> (int \<times> int option \<times> buffer) option" where
  "read_fd r b =
     (let writable = writable_bytes b in
      case r of
        Fail e \<Rightarrow> Some (-1, Some e, b)
      | Ok bs \<Rightarrow>
         (let b0 = b\<lparr>store := write_at (store b) (writePos b) (take writable bs)\<rparr> in
          if length bs \<le> writable
          then Some (int (length bs), None, b0\<lparr>writePos := writePos b0 + length bs\<rparr>)
          else do {
            b1 \<leftarrow> buf_append (drop writable bs) (b0\<lparr>writePos := length (store b0)\<rparr>);
            Some (int (length bs), None, b1)
          }))"

text \<open>
  \<open>write_fd\<close> takes the outcome of \<open>write(fd, peek(), readSize)\<close>: an \<open>errno\<close>, or the
  number of bytes the kernel took.
\<close>

definition write_fd :: "nat sysret \<Rightarrow> buffer \<Rightarrow> int \<times> int option \<times> buffer" where
  "write_fd r b =
     (case r of
        Fail e \<Rightarrow> (-1, Some e, b)
      | Ok n \<Rightarrow> (int n, None, b\<lparr>readPos := readPos b + n\<rparr>))"

text \<open>\<open>ToIovec\<close>: base offset and length of the readable bytes.\<close>

definition ToIovec :: "buffer \<Rightarrow> nat \<times> nat" where
  "ToIovec b = (peek b, readable_bytes b)"

section \<open>Invariant and abstraction\<close>

definition buf_ok :: "buffer \<Rightarrow> bool" where
  "buf_ok b \<longleftrightarrow> readPos b \<le> writePos b \<and> writePos b \<le> length (store b)"

definition contents :: "buffer \<Rightarrow> bytes" where
  "contents b = take (writePos b - readPos b) (drop (readPos b) (store b))"

lemmas buffer_defs [op_defs] = readable_bytes_def writable_bytes_def prependable_bytes_def
  peek_def begin_write_def bytes_at_def has_written_def

lemma buf_ok_new [simp, inv_intros]: "buf_ok (Buffer_new n)"
  by (simp add: buf_ok_def Buffer_new_def)

lemma contents_new [simp, abs_simps]: "contents (Buffer_new n) = []"
  by (simp add: contents_def Buffer_new_def)

lemma readable_bytes_contents: "buf_ok b \<Longrightarrow> readable_bytes b = length (contents b)"
  by (auto simp: buf_ok_def contents_def readable_bytes_def)

lemma bytes_at_peek: "bytes_at b (peek b) (readable_bytes b) = contents b"
  by (simp add: buffer_defs contents_def)

lemma bytes_at_peek_take: "n \<le> readable_bytes b \<Longrightarrow> bytes_at b (peek b) n = take n (contents b)"
  by (simp add: buffer_defs contents_def min_def)

lemma bytes_at_peek_offset:
  "k + n \<le> readable_bytes b \<Longrightarrow> bytes_at b (peek b + k) n = take n (drop k (contents b))"
  by (simp add: buffer_defs contents_def drop_take min_def add.commute)

section \<open>What each operation does to the contents\<close>

lemma make_space_ok:
  assumes "buf_ok b"
  shows "buf_ok (make_space len b)" and "contents (make_space len b) = contents b"
    and "writable_bytes b < len \<Longrightarrow> len \<le> writable_bytes (make_space len b)"
  using assms
  by (auto simp: make_space_def Let_def buf_ok_def contents_def buffer_defs vec_resize_def
      write_at_def)

lemma ensure_writable_Some:
  assumes "buf_ok b"
  obtains b' where "ensure_writable len b = Some b'" and "buf_ok b'"
    and "contents b' = contents b" and "len \<le> writable_bytes b'"
  using assms make_space_ok [OF assms, of len]
  by (cases "writable_bytes b < len") (auto simp: ensure_writable_def Let_def)

lemma buf_append_Some:
  assumes "buf_ok b"
  obtains b' where "buf_append str b = Some b'" and "buf_ok b'"
    and "contents b' = contents b @ str"
proof -
  obtain b1 where b1: "ensure_writable (length str) b = Some b1" "buf_ok b1"
    "contents b1 = contents b" "length str \<le> writable_bytes b1"
    using ensure_writable_Some [OF assms] by blast
  let ?b' = "has_written (length str) (b1\<lparr>store := write_at (store b1) (begin_write b1) str\<rparr>)"
  have room: "writePos b1 + length str \<le> length (store b1)"
    using b1(2,4) by (auto simp: buf_ok_def writable_bytes_def)
  then have "buf_ok ?b'" and "contents ?b' = contents b1 @ str"
    using b1(2) take_drop_write_at [of "readPos b1" "writePos b1" str "store b1"]
    by (simp_all add: buf_ok_def contents_def buffer_defs)
  with b1 that show thesis
    by (simp add: buf_append_def)
qed

lemma retrieve_ok:
  assumes "buf_ok b" and "retrieve n b = Some b'"
  shows "buf_ok b'" and "contents b' = drop n (contents b)"
  using assms
  by (auto simp: retrieve_def buf_ok_def contents_def readable_bytes_def drop_take
      add.commute split: if_splits)

lemma retrieve_None: "buf_ok b \<Longrightarrow> retrieve n b = None \<longleftrightarrow> length (contents b) < n"
  by (auto simp: retrieve_def readable_bytes_contents)

lemma retrieve_until_peek:
  "retrieve_until (peek b + n) b = retrieve n b"
  by (simp add: retrieve_until_def)

lemma retrieve_all_ok:
  "buf_ok (retrieve_all b)" "contents (retrieve_all b) = []"
  by (simp_all add: buf_ok_def contents_def retrieve_all_def)

lemma retrieve_all_to_str_ok:
  "fst (retrieve_all_to_str b) = contents b"
  "snd (retrieve_all_to_str b) = retrieve_all b"
  by (simp_all add: retrieve_all_to_str_def bytes_at_peek)

lemma append_buffer_eq: "append_buffer c b = buf_append (contents c) b"
  by (simp add: append_buffer_def bytes_at_peek)

lemma read_fd_Some:
  assumes "buf_ok b"
  obtains b' where "read_fd (Ok bs) b = Some (int (length bs), None, b')" and "buf_ok b'"
    and "contents b' = contents b @ bs"
proof (cases "length bs \<le> writable_bytes b")
  case True
  let ?b' = "b\<lparr>store := write_at (store b) (writePos b) bs, writePos := writePos b + length bs\<rparr>"
  have "writePos b + length bs \<le> length (store b)"
    using True assms by (auto simp: buf_ok_def writable_bytes_def)
  then have "buf_ok ?b'" and "contents ?b' = contents b @ bs"
    using assms take_drop_write_at [of "readPos b" "writePos b" bs "store b"]
    by (simp_all add: buf_ok_def contents_def)
  with True that show thesis
    by (simp add: read_fd_def Let_def)
next
  case False
  let ?w = "writable_bytes b"
  let ?b0 = "b\<lparr>store := write_at (store b) (writePos b) (take ?w bs)\<rparr>"
  let ?b1 = "?b0\<lparr>writePos := length (store ?b0)\<rparr>"
  have full: "writePos b + length (take ?w bs) = length (store b)"
    using False assms by (auto simp: buf_ok_def writable_bytes_def)
  then have ok1: "buf_ok ?b1" and c1: "contents ?b1 = contents b @ take ?w bs"
    using assms take_drop_write_at [of "readPos b" "writePos b" "take ?w bs" "store b"]
    by (simp_all add: buf_ok_def contents_def writable_bytes_def)
  obtain b' where "buf_append (drop ?w bs) ?b1 = Some b'" "buf_ok b'"
    "contents b' = contents ?b1 @ drop ?w bs"
    using buf_append_Some [OF ok1] by blast
  with False c1 that show thesis
    by (simp add: read_fd_def Let_def)
qed

lemma read_fd_Fail: "read_fd (Fail e) b = Some (-1, Some e, b)"
  by (simp add: read_fd_def)

lemma write_fd_ok:
  assumes "buf_ok b" and "n \<le> readable_bytes b"
  shows "write_fd (Ok n) b = (int n, None, snd (snd (write_fd (Ok n) b)))"
    and "buf_ok (snd (snd (write_fd (Ok n) b)))"
    and "contents (snd (snd (write_fd (Ok n) b))) = drop n (contents b)"
  using assms
  by (auto simp: write_fd_def buf_ok_def contents_def readable_bytes_def drop_take add.commute)

section \<open>The interface: a FIFO byte queue\<close>

text \<open>
  What a client of the buffer may rely on: there is an invariant and a byte string that the
  three operations the protocol code uses act on from its two ends.
\<close>

locale byte_queue =
  fixes ok :: "'q \<Rightarrow> bool"
    and bytes_of :: "'q \<Rightarrow> bytes"
    and put :: "bytes \<Rightarrow> 'q \<Rightarrow> 'q option"
    and consume :: "nat \<Rightarrow> 'q \<Rightarrow> 'q option"
    and reset :: "'q \<Rightarrow> 'q"
  assumes put_total: "ok q \<Longrightarrow> \<exists>q'. put s q = Some q' \<and> ok q' \<and> bytes_of q' = bytes_of q @ s"
    and consume_total: "ok q \<Longrightarrow> n \<le> length (bytes_of q) \<Longrightarrow>
      \<exists>q'. consume n q = Some q' \<and> ok q' \<and> bytes_of q' = drop n (bytes_of q)"
    and consume_fails: "ok q \<Longrightarrow> length (bytes_of q) < n \<Longrightarrow> consume n q = None"
    and reset_ok: "ok (reset q)"
    and reset_empty: "bytes_of (reset q) = []"
begin

fun put_all :: "bytes list \<Rightarrow> 'q \<Rightarrow> 'q option" where
  "put_all [] q = Some q"
| "put_all (s # ss) q = do { q1 \<leftarrow> put s q; put_all ss q1 }"

lemma put_SomeD:
  "ok q \<Longrightarrow> put s q = Some q' \<Longrightarrow> ok q' \<and> bytes_of q' = bytes_of q @ s"
  using put_total [of q s] by auto

lemma consume_SomeD:
  "ok q \<Longrightarrow> consume n q = Some q' \<Longrightarrow>
   n \<le> length (bytes_of q) \<and> ok q' \<and> bytes_of q' = drop n (bytes_of q)"
  using consume_total [of q n] consume_fails [of q n] by (cases "n \<le> length (bytes_of q)") auto

lemma put_all_total:
  "ok q \<Longrightarrow> \<exists>q'. put_all ss q = Some q' \<and> ok q' \<and> bytes_of q' = bytes_of q @ concat ss"
proof (induction ss arbitrary: q)
  case Nil
  then show ?case by simp
next
  case (Cons s ss)
  obtain q1 where "put s q = Some q1" "ok q1" "bytes_of q1 = bytes_of q @ s"
    using put_total [OF Cons.prems] by blast
  with Cons.IH [of q1] show ?case by auto
qed

lemma put_then_consume:
  assumes "ok q" and "bytes_of q = []"
  shows "\<exists>q1 q2. put (s @ t) q = Some q1 \<and> consume (length s) q1 = Some q2 \<and> bytes_of q2 = t"
proof -
  obtain q1 where q1: "put (s @ t) q = Some q1" "ok q1" "bytes_of q1 = s @ t"
    using put_total [OF assms(1)] assms(2) by auto
  then show ?thesis
    using consume_total [of q1 "length s"] by auto
qed

end

interpretation buf: byte_queue buf_ok contents buf_append retrieve retrieve_all
proof unfold_locales
  fix q :: buffer and s n
  assume ok: "buf_ok q"
  show "\<exists>q'. buf_append s q = Some q' \<and> buf_ok q' \<and> contents q' = contents q @ s"
    using buf_append_Some [OF ok] by blast
  show "n \<le> length (contents q) \<Longrightarrow>
    \<exists>q'. retrieve n q = Some q' \<and> buf_ok q' \<and> contents q' = drop n (contents q)"
    using retrieve_None [OF ok, of n] retrieve_ok [OF ok, of n]
    by (cases "retrieve n q") auto
  show "length (contents q) < n \<Longrightarrow> retrieve n q = None"
    by (simp add: retrieve_None [OF ok])
next
  fix q :: buffer
  show "buf_ok (retrieve_all q)" and "contents (retrieve_all q) = []"
    by (rule retrieve_all_ok)+
qed

lemmas buf_put_ok = buf.put_SomeD
lemmas buf_consume_ok = buf.consume_SomeD

section \<open>Any sequence of operations is a run of the abstract queue\<close>

text \<open>
  The public operations as a datatype, one run on the buffer and one on a plain byte
  string. Both stop (\<open>None\<close>) where an assertion of the code fails, or where the kernel is
  said to have taken more bytes than it was given.
\<close>

datatype buf_op =
    OpAppend bytes
  | OpAppendBuffer buffer
  | OpRetrieve nat
  | OpRetrieveUntil nat
  | OpRetrieveAll
  | OpReadFd "bytes sysret"
  | OpWriteFd "nat sysret"

fun buf_step :: "buf_op \<Rightarrow> buffer \<Rightarrow> buffer option" where
  "buf_step (OpAppend s) b = buf_append s b"
| "buf_step (OpAppendBuffer c) b = append_buffer c b"
| "buf_step (OpRetrieve n) b = retrieve n b"
| "buf_step (OpRetrieveUntil n) b = retrieve_until (peek b + n) b"
| "buf_step OpRetrieveAll b = Some (retrieve_all b)"
| "buf_step (OpReadFd r) b = map_option (\<lambda>(_, _, b'). b') (read_fd r b)"
| "buf_step (OpWriteFd r) b =
     (case r of Fail _ \<Rightarrow> Some (snd (snd (write_fd r b)))
      | Ok n \<Rightarrow> if n \<le> readable_bytes b then Some (snd (snd (write_fd r b))) else None)"

fun buf_run :: "buf_op list \<Rightarrow> buffer \<Rightarrow> buffer option" where
  "buf_run [] b = Some b"
| "buf_run (p # ps) b = do { b1 \<leftarrow> buf_step p b; buf_run ps b1 }"

fun fifo_step :: "buf_op \<Rightarrow> bytes \<Rightarrow> bytes option" where
  "fifo_step (OpAppend s) q = Some (q @ s)"
| "fifo_step (OpAppendBuffer c) q = Some (q @ contents c)"
| "fifo_step (OpRetrieve n) q = (if n \<le> length q then Some (drop n q) else None)"
| "fifo_step (OpRetrieveUntil n) q = (if n \<le> length q then Some (drop n q) else None)"
| "fifo_step OpRetrieveAll q = Some []"
| "fifo_step (OpReadFd r) q = (case r of Fail _ \<Rightarrow> Some q | Ok s \<Rightarrow> Some (q @ s))"
| "fifo_step (OpWriteFd r) q =
     (case r of Fail _ \<Rightarrow> Some q | Ok n \<Rightarrow> if n \<le> length q then Some (drop n q) else None)"

fun fifo_run :: "buf_op list \<Rightarrow> bytes \<Rightarrow> bytes option" where
  "fifo_run [] q = Some q"
| "fifo_run (p # ps) q = do { q1 \<leftarrow> fifo_step p q; fifo_run ps q1 }"

lemma retrieve_simulates:
  assumes "buf_ok b"
  shows "map_option contents (retrieve n b) =
      (if n \<le> length (contents b) then Some (drop n (contents b)) else None)"
    and "pred_option buf_ok (retrieve n b)"
  using buf.consume_total [OF assms, of n] buf.consume_fails [OF assms, of n]
  by (cases "n \<le> length (contents b)"; auto)+

lemma buf_append_simulates:
  assumes "buf_ok b"
  shows "map_option contents (buf_append s b) = Some (contents b @ s)"
    and "pred_option buf_ok (buf_append s b)"
  by (rule buf_append_Some [OF assms, of s], simp)+

lemma buf_step_simulates:
  assumes "buf_ok b"
  shows "map_option contents (buf_step p b) = fifo_step p (contents b) \<and>
    pred_option buf_ok (buf_step p b)"
proof (cases p)
  case (OpReadFd r)
  show ?thesis
  proof (cases r)
    case (Ok s)
    show ?thesis
      by (rule read_fd_Some [OF assms, of s]) (simp add: OpReadFd Ok)
  qed (simp add: OpReadFd read_fd_Fail assms)
next
  case (OpWriteFd r)
  then show ?thesis
    using assms write_fd_ok [OF assms] readable_bytes_contents [OF assms]
    by (cases r) (auto simp: write_fd_def)
qed (simp_all add: assms buf_append_simulates retrieve_simulates append_buffer_eq
    retrieve_until_peek retrieve_all_ok)

lemma buf_run_simulates:
  "buf_ok b \<Longrightarrow> map_option contents (buf_run ps b) = fifo_run ps (contents b)"
proof (induction ps arbitrary: b)
  case Nil
  then show ?case by simp
next
  case (Cons p ps)
  show ?case
    using buf_step_simulates [OF Cons.prems, of p] Cons.IH
    by (cases "buf_step p b") (auto dest: sym)
qed

text \<open>Property C11. Starting from a fresh buffer of any size, every sequence of appends,
  retrieves, socket reads and socket writes leaves exactly the bytes that a plain FIFO byte
  string would hold, and an assertion of the buffer code fails exactly when the sequence
  retrieves more than is there: growing, compacting and the spill into the stack buffer of
  \<open>read_fd\<close> never lose, duplicate or reorder a byte.\<close>

theorem buffer_refines_fifo:
  "map_option contents (buf_run ps (Buffer_new n)) = fifo_run ps []"
  using buf_run_simulates [of "Buffer_new n" ps] by simp

lemma length_store_make_space:
  "buf_ok b \<Longrightarrow> writable_bytes b < len \<Longrightarrow> length (store (make_space len b)) =
   (if writable_bytes b + prependable_bytes b < len then writePos b + len + 1
    else length (store b))"
  by (simp add: make_space_def Let_def vec_resize_def buffer_defs buf_ok_def)

lemma length_store_buf_append:
  assumes "buf_ok b" and "buf_append s b = Some b'"
  shows "length (store b') =
    (if writable_bytes b + prependable_bytes b < length s then writePos b + length s + 1
     else length (store b))"
proof -
  obtain b1 where b1: "ensure_writable (length s) b = Some b1" "buf_ok b1"
    "length s \<le> writable_bytes b1"
    using ensure_writable_Some [OF assms(1)] by blast
  then have "length (store b') = length (store b1)"
    using assms(2) by (auto simp: buf_append_def buffer_defs buf_ok_def)
  moreover have "b1 = (if writable_bytes b < length s then make_space (length s) b else b)"
    using b1(1) by (simp add: ensure_writable_def Let_def split: if_splits)
  ultimately show ?thesis
    using length_store_make_space [OF assms(1)] by simp
qed

text \<open>Appending always succeeds on a well-formed buffer, keeps it well-formed,
  and makes the vector no longer than its old size or the written end plus one spare byte:
  space freed by earlier reads is reused before the vector grows.\<close>

lemma buf_append_space:
  assumes "buf_ok b"
  shows "\<exists>b'. buf_append s b = Some b' \<and> buf_ok b' \<and> contents b' = contents b @ s \<and>
    length (store b') \<le> max (length (store b)) (writePos b + length s + 1) \<and>
    (length (contents b @ s) \<le> length (store b) \<longrightarrow> length (store b') = length (store b))"
proof -
  obtain b' where b': "buf_append s b = Some b'" "buf_ok b'" "contents b' = contents b @ s"
    using buf_append_Some [OF assms] by blast
  moreover have "writable_bytes b + prependable_bytes b + length (contents b) = length (store b)"
    using assms readable_bytes_contents [OF assms, symmetric]
    by (auto simp: buffer_defs buf_ok_def)
  ultimately show ?thesis
    using length_store_buf_append [OF assms b'(1)] by simp
qed

theorem buf_append_space_witness:
  "\<exists>b'. buf_append ''hello'' (Buffer_new 4) = Some b' \<and> contents b' = ''hello'' \<and>
    length (store b') \<le> 6"
proof -
  have "length (store (Buffer_new 4)) = 4" "writePos (Buffer_new 4) = 0"
    by (simp_all add: Buffer_new_def)
  then show ?thesis
    using buf_append_space [OF buf_ok_new, of "''hello''" 4] by auto
qed

end
