(* ===== verification/Protocol.thy ===== *)
theory Protocol
  imports Prelude
begin

text \<open>
  The messages of \<open>proto/*.proto\<close> as the C++ code sees them: one record per message, the
  oneof of \<open>Envelope\<close> as a datatype. A field that is not set has its proto3 default.
  Enumerations are open in proto3, so a command outside the list is \<open>CMD_OTHER\<close> and the
  enumerations that come from a client are integers.
\<close>

datatype CommandType =
    CMD_UNKNOWN
  | CMD_REGISTER_REQ | CMD_REGISTER_RES | CMD_LOGIN_REQ | CMD_LOGIN_RES
  | CMD_ADD_FRIEND_REQ | CMD_ADD_FRIEND_RES | CMD_FRIEND_REQ_PUSH
  | CMD_HANDLE_FRIEND_REQ | CMD_HANDLE_FRIEND_RES | CMD_FRIEND_STATUS_PUSH
  | CMD_GET_FRIEND_LIST_REQ | CMD_GET_FRIEND_LIST_RES
  | CMD_P2P_MSG_REQ | CMD_P2P_MSG_PUSH | CMD_MSG_ACK | CMD_SYNC_MSGS_REQ | CMD_SYNC_MSGS_RES
  | CMD_HEARTBEAT
  | CMD_OTHER int

datatype UserStatus = USER_STATUS_UNSPECIFIED | USER_STATUS_OFFLINE | USER_STATUS_ONLINE

definition ACTION_REJECT :: int where
  "ACTION_REJECT = 0"

definition ACTION_ACCEPT :: int where
  "ACTION_ACCEPT = 1"

record User =
  usr_user_id :: u64
  usr_username :: string
  usr_status :: UserStatus

definition User_default :: User where
  "User_default = \<lparr>usr_user_id = 0, usr_username = [], usr_status = USER_STATUS_UNSPECIFIED\<rparr>"

record RegisterReq =
  rq_username :: string
  rq_password :: string

record RegisterResp =
  rr_success :: bool
  rr_error_msg :: string
  rr_user_id :: u64

record LoginReq =
  lq_username :: string
  lq_password :: string

record LoginResp =
  lr_success :: bool
  lr_error_msg :: string
  lr_user_info :: "User option"
  lr_token :: string

record AddFriendReq =
  aq_receiver_id :: u64
  aq_verify_msg :: string

record AddFriendResp =
  ar_success :: bool
  ar_error_msg :: string

record FriendReqPush =
  fp_req_id :: u64
  fp_sender_id :: u64
  fp_sender_name :: string
  fp_verify_msg :: string
  fp_timestamp :: int

record HandleFriendReq =
  hq_req_id :: u64
  hq_sender_id :: u64
  hq_action :: int

record HandleFriendResp =
  hr_success :: bool
  hr_error_msg :: string
  hr_sender_id :: u64

record FriendStatusPush =
  sp_receiver_id :: u64
  sp_receiver_name :: string
  sp_action :: int

record GetFriendListResp =
  gr_success :: bool
  gr_error_msg :: string
  gr_friend_list :: "User list"

record P2PMessage =
  msg_id :: u64
  sender_id :: u64
  receiver_id :: u64
  content_type :: int
  content :: bytes
  timestamp :: int

record MessageAck =
  ack_msg_id :: u64
  ack_ref_seq :: u64
  ack_success :: bool
  ack_error_msg :: string

record SyncMessagesReq =
  sq_user_id :: u64

record SyncMessagesResp =
  sr_success :: bool
  sr_error_msg :: string
  sr_messages :: "P2PMessage list"

datatype payload =
    NoPayload
  | register_req RegisterReq | register_res RegisterResp
  | login_req LoginReq | login_res LoginResp
  | add_friend_req AddFriendReq | add_friend_res AddFriendResp
  | friend_req_push FriendReqPush
  | handle_friend_req HandleFriendReq | handle_friend_res HandleFriendResp
  | friend_status_push FriendStatusPush
  | get_friend_list_req | get_friend_list_res GetFriendListResp
  | p2p_msg_req P2PMessage | p2p_msg_push P2PMessage
  | msg_ack MessageAck
  | sync_msgs_req SyncMessagesReq | sync_msgs_res SyncMessagesResp

record Envelope =
  env_seq :: u64
  env_cmd :: CommandType
  env_timestamp :: int
  env_payload :: payload

definition Envelope_default :: Envelope where
  "Envelope_default = \<lparr>env_seq = 0, env_cmd = CMD_UNKNOWN, env_timestamp = 0, env_payload = NoPayload\<rparr>"

definition RegisterResp_default :: RegisterResp where
  "RegisterResp_default = \<lparr>rr_success = False, rr_error_msg = [], rr_user_id = 0\<rparr>"

definition LoginResp_default :: LoginResp where
  "LoginResp_default = \<lparr>lr_success = False, lr_error_msg = [], lr_user_info = None, lr_token = []\<rparr>"

definition AddFriendResp_default :: AddFriendResp where
  "AddFriendResp_default = \<lparr>ar_success = False, ar_error_msg = []\<rparr>"

definition HandleFriendResp_default :: HandleFriendResp where
  "HandleFriendResp_default = \<lparr>hr_success = False, hr_error_msg = [], hr_sender_id = 0\<rparr>"

definition GetFriendListResp_default :: GetFriendListResp where
  "GetFriendListResp_default = \<lparr>gr_success = False, gr_error_msg = [], gr_friend_list = []\<rparr>"

definition MessageAck_default :: MessageAck where
  "MessageAck_default = \<lparr>ack_msg_id = 0, ack_ref_seq = 0, ack_success = False, ack_error_msg = []\<rparr>"

definition SyncMessagesResp_default :: SyncMessagesResp where
  "SyncMessagesResp_default = \<lparr>sr_success = False, sr_error_msg = [], sr_messages = []\<rparr>"

lemmas message_defaults = User_default_def Envelope_default_def RegisterResp_default_def
  LoginResp_default_def AddFriendResp_default_def HandleFriendResp_default_def
  GetFriendListResp_default_def MessageAck_default_def SyncMessagesResp_default_def

end
