(* ===== verification/Sql_Dao.thy ===== *)
theory Sql_Dao
  imports Protocol
begin

text \<open>
  The MySQL access layer: \<open>BaseDao\<close>, \<open>UserDao\<close> and \<open>FriendDao\<close> of \<open>server/src/dao\<close>.

  Model. The server sends the statements of the type \<open>sql\<close>. The MySQL server and its client
  library are the argument \<open>m\<close> (whether the pool hands out a connection, and what running a
  statement returns and does to the database); a thrown exception is the result \<open>None\<close>. What
  the code relies on is the hypothesis \<open>mysql_ok\<close>: a statement that returns behaves as SQL on
  the tables of \<open>sql/\<close>, whatever the order of the rows, the collation \<open>coll\<close> of string
  comparison, the time \<open>now\<close> and the unused number \<open>i\<close> that \<open>AUTO_INCREMENT\<close> gives to a
  new row. A statement that throws may have failed without effect; outside a transaction it may
  as well have been carried out and only its answer lost; inside one, the server may have rolled
  the transaction back; and a \<open>COMMIT\<close> that throws may have committed (\<open>failed_effect\<close>).
  Statements of other connections are not interleaved.

  A \<open>select\<close> hands over all its rows or throws: the connector fetches the whole result
  (\<open>mysql_store_result\<close>) when the statement is run, before the loop over the rows begins, so a
  list that was filled in part does not arise.
\<close>

section \<open>Tables and statements\<close>

record user_row =
  u_id :: nat
  u_user_id :: u64
  u_username :: string
  u_password :: string

record friend_row =
  f_id :: nat
  f_user_id :: u64
  f_friend_id :: u64
  f_status :: int
  f_verify_msg :: string
  f_created_at :: int

record tables =
  im_user :: "user_row list"
  im_friend :: "friend_row list"

text \<open>The tables as the connection sees them, and as they were when its transaction began.\<close>

record db_view =
  cur :: tables
  saved :: "tables option"

datatype sql =
    CountUsersByName string
  | InsertUser u64 string string
  | SelectPassword string
  | SelectUserByName string
  | SelectUserById u64
  | SelectFriendId u64 u64
  | InsertFriend u64 u64 int "string option"
  | UpdateFriendStatus int u64 u64
  | SelectFriendUsers u64 int
  | SelectRequests u64 int
  | StartTransaction
  | CommitTransaction
  | RollbackTransaction

datatype sql_result =
    RDone
  | RCount int
  | RId nat
  | RIds "nat list"
  | RPasswords "string list"
  | RUsers "(u64 \<times> string) list"
  | RRequests "(nat \<times> u64 \<times> string \<times> string \<times> int) list"

fun sql_eval :: "(string \<Rightarrow> string) \<Rightarrow> int \<Rightarrow> nat \<Rightarrow> sql \<Rightarrow> db_view \<Rightarrow> (sql_result \<times> db_view) option" where
  "sql_eval coll now i (CountUsersByName n) v =
     Some (RCount (int (length (filter (\<lambda>r. coll (u_username r) = coll n) (im_user (cur v))))), v)"
| "sql_eval coll now i (InsertUser uid n p) v =
     (if \<exists>r\<in>set (im_user (cur v)). u_user_id r = uid \<or> coll (u_username r) = coll n \<or> u_id r = i then None
      else Some (RId i, v\<lparr>cur := (cur v)\<lparr>im_user := im_user (cur v) @
        [\<lparr>u_id = i, u_user_id = uid, u_username = n, u_password = p\<rparr>]\<rparr>\<rparr>))"
| "sql_eval coll now i (SelectPassword n) v =
     Some (RPasswords (map u_password (filter (\<lambda>r. coll (u_username r) = coll n) (im_user (cur v)))), v)"
| "sql_eval coll now i (SelectUserByName n) v =
     Some (RUsers (map (\<lambda>r. (u_user_id r, u_username r))
       (filter (\<lambda>r. coll (u_username r) = coll n) (im_user (cur v)))), v)"
| "sql_eval coll now i (SelectUserById uid) v =
     Some (RUsers (map (\<lambda>r. (u_user_id r, u_username r))
       (filter (\<lambda>r. u_user_id r = uid) (im_user (cur v)))), v)"
| "sql_eval coll now i (SelectFriendId a b) v =
     Some (RIds (map f_id (filter (\<lambda>r. f_user_id r = a \<and> f_friend_id r = b) (im_friend (cur v)))), v)"
| "sql_eval coll now i (InsertFriend a b st msg) v =
     (if \<exists>r\<in>set (im_friend (cur v)). f_user_id r = a \<and> f_friend_id r = b \<or> f_id r = i then None
      else Some (RId i, v\<lparr>cur := (cur v)\<lparr>im_friend := im_friend (cur v) @
        [\<lparr>f_id = i, f_user_id = a, f_friend_id = b, f_status = st,
          f_verify_msg = (case msg of None \<Rightarrow> [] | Some s \<Rightarrow> s), f_created_at = now\<rparr>]\<rparr>\<rparr>))"
| "sql_eval coll now i (UpdateFriendStatus st a b) v =
     Some (RDone, v\<lparr>cur := (cur v)\<lparr>im_friend :=
       map (\<lambda>r. if f_user_id r = a \<and> f_friend_id r = b then r\<lparr>f_status := st\<rparr> else r)
         (im_friend (cur v))\<rparr>\<rparr>)"
| "sql_eval coll now i (SelectFriendUsers a st) v =
     Some (RUsers (concat (map (\<lambda>f. map (\<lambda>u. (u_user_id u, u_username u))
         (filter (\<lambda>u. f_friend_id f = u_user_id u) (im_user (cur v))))
       (filter (\<lambda>f. f_user_id f = a \<and> f_status f = st) (im_friend (cur v))))), v)"
| "sql_eval coll now i (SelectRequests b st) v =
     Some (RRequests (concat (map (\<lambda>f. map (\<lambda>u. (f_id f, f_user_id f, u_username u, f_verify_msg f,
             f_created_at f))
         (filter (\<lambda>u. f_user_id f = u_user_id u) (im_user (cur v))))
       (filter (\<lambda>f. f_friend_id f = b \<and> f_status f = st) (im_friend (cur v))))), v)"
| "sql_eval coll now i StartTransaction v =
     (if saved v = None then Some (RDone, v\<lparr>saved := Some (cur v)\<rparr>) else None)"
| "sql_eval coll now i CommitTransaction v = Some (RDone, v\<lparr>saved := None\<rparr>)"
| "sql_eval coll now i RollbackTransaction v =
     Some (RDone, case saved v of None \<Rightarrow> v | Some t \<Rightarrow> v\<lparr>cur := t, saved := None\<rparr>)"

section \<open>Running statements\<close>

record 'db mysql =
  has_conn :: "'db \<Rightarrow> bool"
  run_sql :: "sql \<Rightarrow> 'db \<Rightarrow> sql_result option \<times> 'db"

definition db_return :: "'a \<Rightarrow> 'db \<Rightarrow> 'a option \<times> 'db" where
  "db_return x s = (Some x, s)"

definition db_bind ::
  "('db \<Rightarrow> 'a option \<times> 'db) \<Rightarrow> ('a \<Rightarrow> 'db \<Rightarrow> 'b option \<times> 'db) \<Rightarrow> 'db \<Rightarrow> 'b option \<times> 'db" where
  "db_bind f g s = (case f s of (None, s1) \<Rightarrow> (None, s1) | (Some x, s1) \<Rightarrow> g x s1)"

definition execute ::
  "'db mysql \<Rightarrow> ('db \<Rightarrow> 'a option \<times> 'db) \<Rightarrow> 'a \<Rightarrow> 'db \<Rightarrow> 'a \<times> 'db" where
  "execute m operation default_value s =
     (if \<not> has_conn m s then (default_value, s)
      else case operation s of (None, s1) \<Rightarrow> (default_value, s1) | (Some x, s1) \<Rightarrow> (x, s1))"

definition execute_bool :: "'db mysql \<Rightarrow> ('db \<Rightarrow> bool option \<times> 'db) \<Rightarrow> 'db \<Rightarrow> bool \<times> 'db" where
  "execute_bool m operation = execute m operation False"

definition insert_row :: "'db mysql \<Rightarrow> sql \<Rightarrow> 'db \<Rightarrow> bool \<times> 'db" where
  "insert_row m stmt = execute_bool m (db_bind (run_sql m stmt) (\<lambda>_. db_return True))"

definition result_count :: "sql_result \<Rightarrow> 'db \<Rightarrow> int option \<times> 'db" where
  "result_count r s = (case r of RCount n \<Rightarrow> (Some n, s) | _ \<Rightarrow> (None, s))"

definition exists_row :: "'db mysql \<Rightarrow> sql \<Rightarrow> 'db \<Rightarrow> bool \<times> 'db" where
  "exists_row m stmt =
     execute_bool m (db_bind (db_bind (run_sql m stmt) result_count) (\<lambda>n. db_return (n > 0)))"

definition count_rows :: "'db mysql \<Rightarrow> sql \<Rightarrow> 'db \<Rightarrow> int \<times> 'db" where
  "count_rows m stmt = execute m (db_bind (run_sql m stmt) result_count) 0"

text \<open>The two operations of \<open>BaseDao\<close> that no other code calls, for the statement they build.\<close>

definition delete_by_id :: "'db mysql \<Rightarrow> sql \<Rightarrow> 'db \<Rightarrow> bool \<times> 'db" where
  "delete_by_id m stmt = execute_bool m (db_bind (run_sql m stmt) (\<lambda>_. db_return True))"

definition count_all :: "'db mysql \<Rightarrow> sql \<Rightarrow> 'db \<Rightarrow> int \<times> 'db" where
  "count_all m stmt = execute m (db_bind (run_sql m stmt) result_count) 0"

section \<open>UserDao\<close>

definition QueryExist :: "'db mysql \<Rightarrow> string \<Rightarrow> 'db \<Rightarrow> bool \<times> 'db" where
  "QueryExist m username = exists_row m (CountUsersByName username)"

definition UserDao_Insert :: "'db mysql \<Rightarrow> u64 \<Rightarrow> string \<Rightarrow> string \<Rightarrow> 'db \<Rightarrow> bool \<times> 'db" where
  "UserDao_Insert m user_id username password = insert_row m (InsertUser user_id username password)"

definition VerifyUser :: "'db mysql \<Rightarrow> string \<Rightarrow> string \<Rightarrow> 'db \<Rightarrow> bool \<times> 'db" where
  "VerifyUser m username password =
     execute_bool m (db_bind (run_sql m (SelectPassword username)) (\<lambda>r s.
       case r of
         RPasswords [] \<Rightarrow> (Some False, s)
       | RPasswords (p # ps) \<Rightarrow> (Some (p = password), s)
       | _ \<Rightarrow> (None, s)))"

definition user_from_rows :: "UserStatus \<Rightarrow> sql_result \<Rightarrow> 'db \<Rightarrow> User option \<times> 'db" where
  "user_from_rows st r s =
     (case r of
        RUsers [] \<Rightarrow> (Some User_default, s)
      | RUsers ((uid, name) # rows) \<Rightarrow>
          (Some \<lparr>usr_user_id = uid, usr_username = name, usr_status = st\<rparr>, s)
      | _ \<Rightarrow> (None, s))"

definition FindByUsername :: "'db mysql \<Rightarrow> string \<Rightarrow> 'db \<Rightarrow> User \<times> 'db" where
  "FindByUsername m username =
     execute m (db_bind (run_sql m (SelectUserByName username)) (user_from_rows USER_STATUS_ONLINE))
       User_default"

definition FindById :: "'db mysql \<Rightarrow> u64 \<Rightarrow> 'db \<Rightarrow> User \<times> 'db" where
  "FindById m user_id =
     execute m (db_bind (run_sql m (SelectUserById user_id)) (user_from_rows USER_STATUS_OFFLINE))
       User_default"

section \<open>FriendDao\<close>

definition STATUS_PENDING :: int where
  "STATUS_PENDING = 0"

definition STATUS_ACCEPTED :: int where
  "STATUS_ACCEPTED = 1"

definition STATUS_REJECTED :: int where
  "STATUS_REJECTED = 2"

datatype AddFriendResult = SUCCESS | ALREADY_EXISTS | DB_ERROR

definition FriendDao_AddFriend ::
  "'db mysql \<Rightarrow> u64 \<Rightarrow> u64 \<Rightarrow> string \<Rightarrow> 'db \<Rightarrow> (AddFriendResult \<times> u64) \<times> 'db" where
  "FriendDao_AddFriend m sender receiver verify_msg =
     execute m (db_bind (run_sql m (SelectFriendId sender receiver)) (\<lambda>r.
       case r of
         RIds [] \<Rightarrow>
           db_bind (run_sql m (InsertFriend sender receiver STATUS_PENDING (Some verify_msg))) (\<lambda>r' s.
             case r' of RId last_id \<Rightarrow> (Some (SUCCESS, word_of_nat last_id), s) | _ \<Rightarrow> (None, s))
       | RIds (i # is) \<Rightarrow> db_return (ALREADY_EXISTS, 0)
       | _ \<Rightarrow> \<lambda>s. (None, s)))
       (DB_ERROR, 0)"

text \<open>The reverse relation, from the answer to the query for it.\<close>

definition mirror_row :: "'db mysql \<Rightarrow> u64 \<Rightarrow> u64 \<Rightarrow> sql_result \<Rightarrow> 'db \<Rightarrow> unit option \<times> 'db" where
  "mirror_row m receiver sender r =
     (case r of
        RIds ids \<Rightarrow>
          db_bind (run_sql m (if ids = [] then InsertFriend receiver sender STATUS_ACCEPTED None
              else UpdateFriendStatus STATUS_ACCEPTED receiver sender))
            (\<lambda>_. db_return ())
      | _ \<Rightarrow> \<lambda>s. (None, s))"

text \<open>The statements between the start and the commit of the transaction.\<close>

definition handle_body :: "'db mysql \<Rightarrow> u64 \<Rightarrow> u64 \<Rightarrow> bool \<Rightarrow> 'db \<Rightarrow> unit option \<times> 'db" where
  "handle_body m receiver sender accept =
     (if accept
      then db_bind (run_sql m (UpdateFriendStatus STATUS_ACCEPTED sender receiver)) (\<lambda>_.
           db_bind (run_sql m (SelectFriendId receiver sender)) (mirror_row m receiver sender))
      else db_bind (run_sql m (UpdateFriendStatus STATUS_REJECTED sender receiver)) (\<lambda>_. db_return ()))"

definition FriendDao_HandleFriend :: "'db mysql \<Rightarrow> u64 \<Rightarrow> u64 \<Rightarrow> bool \<Rightarrow> 'db \<Rightarrow> u64 option \<times> 'db" where
  "FriendDao_HandleFriend m receiver sender accept =
     execute m (db_bind (run_sql m StartTransaction) (\<lambda>_ s0.
       case db_bind (handle_body m receiver sender accept) (\<lambda>_. run_sql m CommitTransaction) s0 of
         (Some _, s1) \<Rightarrow> (Some (Some sender), s1)
       | (None, s1) \<Rightarrow> (None, snd (run_sql m RollbackTransaction s1))))
       None"

definition FriendDao_GetFriendList :: "'db mysql \<Rightarrow> u64 \<Rightarrow> 'db \<Rightarrow> User list option \<times> 'db" where
  "FriendDao_GetFriendList m user_id =
     execute m (db_bind (run_sql m (SelectFriendUsers user_id STATUS_ACCEPTED)) (\<lambda>r s.
       case r of
         RUsers rows \<Rightarrow> (Some (Some (map (\<lambda>(uid, name).
           \<lparr>usr_user_id = uid, usr_username = name, usr_status = USER_STATUS_ONLINE\<rparr>) rows)), s)
       | _ \<Rightarrow> (None, s)))
       None"

definition FriendDao_GetPendingRequests :: "'db mysql \<Rightarrow> u64 \<Rightarrow> 'db \<Rightarrow> FriendReqPush list \<times> 'db" where
  "FriendDao_GetPendingRequests m user_id =
     execute m (db_bind (run_sql m (SelectRequests user_id STATUS_PENDING)) (\<lambda>r s.
       case r of
         RRequests rows \<Rightarrow> (Some (map (\<lambda>(rid, uid, name, msg, created).
           \<lparr>fp_req_id = word_of_nat rid, fp_sender_id = uid, fp_sender_name = name,
            fp_verify_msg = msg, fp_timestamp = created\<rparr>) rows), s)
       | _ \<Rightarrow> (None, s)))
       []"

section \<open>What the code relies on\<close>

fun same_rows :: "sql_result \<Rightarrow> sql_result \<Rightarrow> bool" where
  "same_rows (RIds a) r \<longleftrightarrow> (\<exists>b. r = RIds b \<and> mset a = mset b)"
| "same_rows (RPasswords a) r \<longleftrightarrow> (\<exists>b. r = RPasswords b \<and> mset a = mset b)"
| "same_rows (RUsers a) r \<longleftrightarrow> (\<exists>b. r = RUsers b \<and> mset a = mset b)"
| "same_rows (RRequests a) r \<longleftrightarrow> (\<exists>b. r = RRequests b \<and> mset a = mset b)"
| "same_rows RDone r \<longleftrightarrow> r = RDone"
| "same_rows (RCount n) r \<longleftrightarrow> r = RCount n"
| "same_rows (RId n) r \<longleftrightarrow> r = RId n"

text \<open>What a statement that threw may have done: nothing; outside a transaction, what it would
  have done; inside one, ended it, by a rollback or, for the commit, by the commit.\<close>

definition failed_effect :: "(string \<Rightarrow> string) \<Rightarrow> sql \<Rightarrow> db_view \<Rightarrow> db_view \<Rightarrow> bool" where
  "failed_effect coll st v v' \<longleftrightarrow> v' = v \<or>
     (saved v = None \<and> (\<exists>now i r. sql_eval coll now i st v = Some (r, v'))) \<or>
     (\<exists>t. saved v = Some t \<and> (v' = v\<lparr>cur := t, saved := None\<rparr> \<or>
        st = CommitTransaction \<and> v' = v\<lparr>saved := None\<rparr>))"

definition mysql_ok :: "'db mysql \<Rightarrow> ('db \<Rightarrow> db_view) \<Rightarrow> (string \<Rightarrow> string) \<Rightarrow> bool" where
  "mysql_ok m view coll \<longleftrightarrow>
     (\<forall>st s s'. run_sql m st s = (None, s') \<longrightarrow> failed_effect coll st (view s) (view s')) \<and>
     (\<forall>st s s' r. run_sql m st s = (Some r, s') \<longrightarrow>
        (\<exists>now i r0. sql_eval coll now i st (view s) = Some (r0, view s') \<and> same_rows r r0))"

text \<open>What is on disk: an open transaction does not count.\<close>

definition committed :: "db_view \<Rightarrow> tables" where
  "committed v = (case saved v of None \<Rightarrow> cur v | Some t \<Rightarrow> t)"

section \<open>A small calculus for database code\<close>

text \<open>\<open>db_ok view f s Q E\<close>: run from \<open>s\<close>, \<open>f\<close> returns in \<open>Q\<close> or throws in \<open>E\<close>.\<close>

definition db_ok ::
  "('db \<Rightarrow> db_view) \<Rightarrow> ('db \<Rightarrow> 'a option \<times> 'db) \<Rightarrow> 'db \<Rightarrow> ('a \<Rightarrow> db_view \<Rightarrow> bool) \<Rightarrow> (db_view \<Rightarrow> bool) \<Rightarrow> bool"
where
  "db_ok view f s Q E \<longleftrightarrow>
     (case f s of (None, s') \<Rightarrow> E (view s') | (Some x, s') \<Rightarrow> Q x (view s'))"

named_theorems db_rules

lemma db_ok_return [db_rules]: "Q x (view s) \<Longrightarrow> db_ok view (db_return x) s Q E"
  by (simp add: db_ok_def db_return_def)

lemma db_ok_throw [db_rules]: "E (view s) \<Longrightarrow> db_ok view (\<lambda>s. (None, s)) s Q E"
  by (simp add: db_ok_def)

lemma db_ok_value [db_rules]: "Q x (view s) \<Longrightarrow> db_ok view (\<lambda>s. (Some x, s)) s Q E"
  by (simp add: db_ok_def)

lemma db_ok_bind [db_rules]:
  "db_ok view f s (\<lambda>x v. \<forall>s1. view s1 = v \<longrightarrow> db_ok view (g x) s1 Q E) E \<Longrightarrow>
   db_ok view (db_bind f g) s Q E"
  by (auto simp: db_ok_def db_bind_def split: prod.splits option.splits)

lemma db_ok_run:
  assumes "mysql_ok m view coll" and "\<And>v. failed_effect coll st (view s) v \<Longrightarrow> E v"
    and "\<And>now i r r0 v. sql_eval coll now i st (view s) = Some (r0, v) \<Longrightarrow> same_rows r r0 \<Longrightarrow> Q r v"
  shows "db_ok view (run_sql m st) s Q E"
  using assms unfolding db_ok_def mysql_ok_def
  by (auto split: prod.splits option.splits) (metis)+

lemma failed_in_txn:
  "failed_effect coll st v v' \<Longrightarrow> saved v = Some t \<Longrightarrow> st \<noteq> CommitTransaction \<Longrightarrow> committed v' = t"
  by (auto simp: failed_effect_def committed_def)

text \<open>The statements that only read.\<close>

fun reads_only :: "sql \<Rightarrow> bool" where
  "reads_only (CountUsersByName n) = True"
| "reads_only (SelectPassword n) = True"
| "reads_only (SelectUserByName n) = True"
| "reads_only (SelectUserById uid) = True"
| "reads_only (SelectFriendId a b) = True"
| "reads_only (SelectFriendUsers a st) = True"
| "reads_only (SelectRequests a st) = True"
| "reads_only _ = False"

lemma reads_only_eval: "reads_only st \<Longrightarrow> sql_eval coll now i st v = Some (r, v') \<Longrightarrow> v' = v"
  by (cases st) auto

lemma failed_read: "failed_effect coll st v v' \<Longrightarrow> reads_only st \<Longrightarrow> saved v = None \<Longrightarrow> v' = v"
  by (auto simp: failed_effect_def dest: reads_only_eval)

lemma db_ok_weaken:
  "db_ok view f s Q E \<Longrightarrow> (\<And>x v. Q x v \<Longrightarrow> Q' x v) \<Longrightarrow> (\<And>v. E v \<Longrightarrow> E' v) \<Longrightarrow> db_ok view f s Q' E'"
  by (auto simp: db_ok_def split: prod.splits option.splits)

lemma execute_ok:
  assumes "db_ok view f s (\<lambda>x v. P x v) (\<lambda>v. P d v)" and "P d (view s)"
  shows "P (fst (execute m f d s)) (view (snd (execute m f d s)))"
  using assms by (auto simp: execute_def db_ok_def split: prod.splits option.splits)

lemma same_rows_nil:
  "same_rows r (RIds b) \<Longrightarrow> \<exists>a. r = RIds a \<and> (a = [] \<longleftrightarrow> b = [])"
  by (cases r) auto

section \<open>The friend relation\<close>

definition rel :: "tables \<Rightarrow> u64 \<times> u64 \<Rightarrow> int option" where
  "rel t = map_of (map (\<lambda>r. ((f_user_id r, f_friend_id r), f_status r)) (im_friend t))"

lemma rel_None: "rel t (a, b) = None \<longleftrightarrow> filter (\<lambda>r. f_user_id r = a \<and> f_friend_id r = b) (im_friend t) = []"
  by (auto simp: rel_def map_of_eq_None_iff filter_empty_conv image_image)

lemma rel_None_row: "rel t (a, b) = None \<longleftrightarrow> \<not> (\<exists>r\<in>set (im_friend t). f_user_id r = a \<and> f_friend_id r = b)"
  by (auto simp: rel_None filter_empty_conv)

definition set_status :: "int \<Rightarrow> u64 \<times> u64 \<Rightarrow> (u64 \<times> u64 \<Rightarrow> int option) \<Rightarrow> u64 \<times> u64 \<Rightarrow> int option" where
  "set_status st p R = (if R p = None then R else R(p \<mapsto> st))"

lemma rel_update:
  "rel (t\<lparr>im_friend := map (\<lambda>r. if f_user_id r = a \<and> f_friend_id r = b then r\<lparr>f_status := st\<rparr> else r)
     (im_friend t)\<rparr>) = set_status st (a, b) (rel t)"
proof -
  have "map_of (map (\<lambda>r. ((f_user_id r, f_friend_id r), f_status r))
      (map (\<lambda>r. if f_user_id r = a \<and> f_friend_id r = b then r\<lparr>f_status := st\<rparr> else r) rs)) =
    set_status st (a, b) (map_of (map (\<lambda>r. ((f_user_id r, f_friend_id r), f_status r)) rs))" for rs
    by (induction rs) (auto simp: set_status_def fun_eq_iff)
  then show ?thesis by (simp add: rel_def)
qed

lemma rel_insert:
  assumes "rel t (a, b) = None" and "f_user_id r = a" and "f_friend_id r = b"
  shows "rel (t\<lparr>im_friend := im_friend t @ [r]\<rparr>) = (rel t)((a, b) \<mapsto> f_status r)"
  using assms by (auto simp: rel_def map_add_def fun_eq_iff split: option.splits)

text \<open>What answering a request makes of the relation.\<close>

definition answered :: "u64 \<Rightarrow> u64 \<Rightarrow> bool \<Rightarrow> (u64 \<times> u64 \<Rightarrow> int option) \<Rightarrow> u64 \<times> u64 \<Rightarrow> int option" where
  "answered receiver sender accept R =
     (if accept then (set_status STATUS_ACCEPTED (sender, receiver) R)((receiver, sender) \<mapsto> STATUS_ACCEPTED)
      else set_status STATUS_REJECTED (sender, receiver) R)"

lemma db_ok_seq:
  assumes "db_ok view f s Q1 E1" and "\<And>v. E1 v \<Longrightarrow> E v"
    and "\<And>x s1. Q1 x (view s1) \<Longrightarrow> db_ok view (g x) s1 Q E"
  shows "db_ok view (db_bind f g) s Q E"
  by (rule db_ok_bind, rule db_ok_weaken [OF assms(1)]) (use assms(2,3) in auto)

text \<open>The statements on the friend table, as the relation sees them.\<close>

lemma run_update_friend:
  "mysql_ok m view coll \<Longrightarrow> db_ok view (run_sql m (UpdateFriendStatus st a b)) s
     (\<lambda>_ v. rel (cur v) = set_status st (a, b) (rel (cur (view s))) \<and> saved v = saved (view s) \<and>
       im_user (cur v) = im_user (cur (view s)))
     (\<lambda>v. failed_effect coll (UpdateFriendStatus st a b) (view s) v)"
  by (rule db_ok_run) (auto simp: rel_update)

lemma run_select_friend:
  "mysql_ok m view coll \<Longrightarrow> db_ok view (run_sql m (SelectFriendId a b)) s
     (\<lambda>r v. v = view s \<and> (\<exists>ids. r = RIds ids \<and> (ids = [] \<longleftrightarrow> rel (cur v) (a, b) = None)))
     (\<lambda>v. failed_effect coll (SelectFriendId a b) (view s) v)"
  by (rule db_ok_run) (auto simp: rel_None dest!: same_rows_nil)

lemma eval_insert_friend:
  assumes "sql_eval coll now i (InsertFriend a b st msg) v = Some (r, v')"
  shows "r = RId i" and "rel (cur v) (a, b) = None" and "rel (cur v') = (rel (cur v))((a, b) \<mapsto> st)"
    and "saved v' = saved v" and "im_user (cur v') = im_user (cur v)"
proof -
  show none: "rel (cur v) (a, b) = None" using assms by (auto simp: rel_None_row split: if_splits)
  show "r = RId i" "rel (cur v') = (rel (cur v))((a, b) \<mapsto> st)" "saved v' = saved v"
    "im_user (cur v') = im_user (cur v)"
    using assms none by (auto simp: rel_insert split: if_splits)
qed

lemma run_insert_friend:
  "mysql_ok m view coll \<Longrightarrow> db_ok view (run_sql m (InsertFriend a b st msg)) s
     (\<lambda>r v. (\<exists>n. r = RId n) \<and> rel (cur (view s)) (a, b) = None \<and>
       rel (cur v) = (rel (cur (view s)))((a, b) \<mapsto> st) \<and> saved v = saved (view s) \<and>
       im_user (cur v) = im_user (cur (view s)))
     (\<lambda>v. failed_effect coll (InsertFriend a b st msg) (view s) v)"
proof (rule db_ok_run)
  fix now i r r0 v
  assume "sql_eval coll now i (InsertFriend a b st msg) (view s) = Some (r0, v)" "same_rows r r0"
  note e = eval_insert_friend [OF this(1)] this(2)
  from e(1,6) have "r = RId i" by (cases r) auto
  with e(2-5) show "(\<exists>n. r = RId n) \<and> rel (cur (view s)) (a, b) = None \<and>
      rel (cur v) = (rel (cur (view s)))((a, b) \<mapsto> st) \<and> saved v = saved (view s) \<and>
      im_user (cur v) = im_user (cur (view s))" by simp
qed simp_all

lemma mirror_row_ok:
  assumes m: "mysql_ok m view coll" and t: "saved (view s) = Some t"
    and r: "r = RIds ids" "ids = [] \<longleftrightarrow> rel (cur (view s)) (receiver, sender) = None"
  shows "db_ok view (mirror_row m receiver sender r) s
    (\<lambda>_ v. rel (cur v) = (rel (cur (view s)))((receiver, sender) \<mapsto> STATUS_ACCEPTED) \<and>
       saved v = saved (view s) \<and> im_user (cur v) = im_user (cur (view s)))
    (\<lambda>v. committed v = t)"
proof (cases "ids = []")
  case True
  then show ?thesis
    unfolding mirror_row_def r(1) sql_result.case if_P [OF True]
    by (intro db_ok_seq [OF run_insert_friend [OF m]] db_ok_return)
      (use t in \<open>auto dest: failed_in_txn\<close>)
next
  case False
  then show ?thesis
    unfolding mirror_row_def r(1) sql_result.case if_not_P [OF False]
    by (intro db_ok_seq [OF run_update_friend [OF m]] db_ok_return) (use r(2) t in \<open>auto simp: set_status_def dest: failed_in_txn\<close>)
qed

lemma handle_body_ok:
  assumes m: "mysql_ok m view coll" and t: "saved (view s) = Some t"
  shows "db_ok view (handle_body m receiver sender accept) s
    (\<lambda>_ v. rel (cur v) = answered receiver sender accept (rel (cur (view s))) \<and> saved v = saved (view s) \<and>
       im_user (cur v) = im_user (cur (view s)))
    (\<lambda>v. committed v = t)"
proof (cases accept)
  case False
  show ?thesis
    unfolding handle_body_def if_not_P [OF False]
    by (intro db_ok_seq [OF run_update_friend [OF m]] db_ok_return) (use t in \<open>auto simp: answered_def False dest: failed_in_txn\<close>)
next
  case True
  show ?thesis
    unfolding handle_body_def if_P [OF True]
  proof (rule db_ok_seq [OF run_update_friend [OF m]], (use t in \<open>simp add: failed_in_txn\<close>),
      rule db_ok_seq [OF run_select_friend [OF m]])
    fix s1 r s2
    assume s1: "rel (cur (view s1)) = set_status STATUS_ACCEPTED (sender, receiver) (rel (cur (view s))) \<and>
        saved (view s1) = saved (view s) \<and> im_user (cur (view s1)) = im_user (cur (view s))"
      and sel: "view s2 = view s1 \<and>
        (\<exists>ids. r = RIds ids \<and> (ids = [] \<longleftrightarrow> rel (cur (view s2)) (receiver, sender) = None))"
    from sel have v2: "view s2 = view s1" by (rule conjunct1)
    from conjunct2 [OF sel] obtain ids where ids: "r = RIds ids \<and>
        (ids = [] \<longleftrightarrow> rel (cur (view s2)) (receiver, sender) = None)"
      by (rule exE)
    note s2 = v2 conjunct1 [OF ids] conjunct2 [OF ids]
    show "db_ok view (mirror_row m receiver sender r) s2
      (\<lambda>_ v. rel (cur v) = answered receiver sender accept (rel (cur (view s))) \<and>
        saved v = saved (view s) \<and> im_user (cur v) = im_user (cur (view s)))
      (\<lambda>v. committed v = t)"
      by (rule db_ok_weaken [OF mirror_row_ok [OF m _ s2(2,3)]])
        (use t in \<open>simp_all add: s1 s2(1) True answered_def\<close>)
  qed (use t in \<open>auto dest: failed_in_txn\<close>)
qed

section \<open>What the operations on friends do\<close>

lemma rollback_committed:
  assumes "mysql_ok m view coll"
  shows "committed (view (snd (run_sql m RollbackTransaction s))) = committed (view s)"
proof -
  have "db_ok view (run_sql m RollbackTransaction) s (\<lambda>_ v. committed v = committed (view s))
      (\<lambda>v. committed v = committed (view s))"
    by (rule db_ok_run [OF assms]) (auto simp: committed_def failed_effect_def split: option.splits)
  then show ?thesis by (auto simp: db_ok_def split: prod.splits option.splits)
qed

lemma start_committed:
  assumes "mysql_ok m view coll" and "saved (view s) = None"
  shows "db_ok view (run_sql m StartTransaction) s
      (\<lambda>_ v. v = (view s)\<lparr>saved := Some (committed (view s))\<rparr>) (\<lambda>v. committed v = committed (view s))"
  by (rule db_ok_run [OF assms(1)])
    (use assms(2) in \<open>auto simp: committed_def failed_effect_def split: if_splits\<close>)

lemma commit_outcomes:
  assumes "mysql_ok m view coll" and "saved (view s) = Some t"
  shows "db_ok view (run_sql m CommitTransaction) s (\<lambda>_ v. v = (view s)\<lparr>saved := None\<rparr>)
      (\<lambda>v. committed v = t \<or> v = (view s)\<lparr>saved := None\<rparr>)"
  by (rule db_ok_run [OF assms(1)]) (use assms(2) in \<open>auto simp: committed_def failed_effect_def\<close>)

text \<open>The commit of an answered request threw: the statements before it had all been run.\<close>

definition commit_threw :: "'db mysql \<Rightarrow> u64 \<Rightarrow> u64 \<Rightarrow> bool \<Rightarrow> 'db \<Rightarrow> bool" where
  "commit_threw m receiver sender accept s \<longleftrightarrow>
     (case handle_body m receiver sender accept (snd (run_sql m StartTransaction s)) of
        (None, s1) \<Rightarrow> False
      | (Some _, s1) \<Rightarrow> fst (run_sql m CommitTransaction s1) = None)"

lemma HandleFriend_cases:
  assumes m: "mysql_ok m view coll" and idle: "saved (view s) = None"
    and res: "FriendDao_HandleFriend m receiver sender accept s = (r, s')"
  shows "(r = Some sender \<and> saved (view s') = None \<and>
      rel (committed (view s')) = answered receiver sender accept (rel (committed (view s)))) \<or>
    (r = None \<and> committed (view s') = committed (view s)) \<or>
    (r = None \<and> commit_threw m receiver sender accept s \<and>
      rel (committed (view s')) = answered receiver sender accept (rel (committed (view s))))"
proof -
  obtain x s1 where st: "run_sql m StartTransaction s = (x, s1)" by fastforce
  obtain y s2 where bd: "handle_body m receiver sender accept s1 = (y, s2)" by fastforce
  obtain z s3 where cm: "run_sql m CommitTransaction s2 = (z, s3)" by fastforce
  note defs = FriendDao_HandleFriend_def execute_def db_bind_def st bd cm
  note S = start_committed [OF m idle, unfolded db_ok_def st]
  consider "\<not> has_conn m s" | "has_conn m s" "x = None" | x' where "has_conn m s" "x = Some x'" by (cases x) auto
  then show ?thesis
  proof cases
    case 1
    with res show ?thesis by (simp add: defs)
  next
    case 2
    with res S show ?thesis by (simp add: defs)
  next
    case 3
    with S have v1: "saved (view s1) = Some (committed (view s))" "cur (view s1) = committed (view s)"
      using idle by (simp_all add: committed_def)
    note B = handle_body_ok [OF m v1(1), of receiver sender accept, unfolded db_ok_def bd]
    show ?thesis
    proof (cases y)
      case None
      with 3 res have "r = None" "s' = snd (run_sql m RollbackTransaction s2)" by (simp_all add: defs)
      with None B rollback_committed [OF m] show ?thesis by simp
    next
      case (Some y')
      with B v1 have v2: "saved (view s2) = Some (committed (view s))"
        "rel (cur (view s2)) = answered receiver sender accept (rel (committed (view s)))" by simp_all
      note C = commit_outcomes [OF m v2(1), unfolded db_ok_def cm]
      show ?thesis
      proof (cases z)
        case None
        with 3 Some res have "r = None" "s' = snd (run_sql m RollbackTransaction s3)" by (simp_all add: defs)
        moreover have "commit_threw m receiver sender accept s" using None Some by (simp add: commit_threw_def st bd cm)
        moreover have "committed (view s3) = committed (view s) \<or> view s3 = (view s2)\<lparr>saved := None\<rparr>"
          using C None by simp
        ultimately show ?thesis using rollback_committed [OF m, of s3] v2(2) by (auto simp: committed_def)
      next
        case z: (Some z')
        with 3 Some res have "r = Some sender" "s' = s3" by (simp_all add: defs)
        with z C v2(2) show ?thesis by (simp add: committed_def)
      qed
    qed
  qed
qed


text \<open>A database in memory that never fails: it shows that \<open>mysql_ok\<close> can hold.\<close>

definition unused_id :: "tables \<Rightarrow> nat" where
  "unused_id t = 1 + sum_list (map u_id (im_user t)) + sum_list (map f_id (im_friend t))"

definition mem_mysql :: "db_view mysql" where
  "mem_mysql = \<lparr>has_conn = \<lambda>_. True,
     run_sql = \<lambda>st v. (case sql_eval (\<lambda>n. n) 0 (unused_id (cur v)) st v of None \<Rightarrow> (None, v) | Some (r, v') \<Rightarrow> (Some r, v'))\<rparr>"

lemma same_rows_refl [simp]: "same_rows r r"
  by (cases r) auto

lemma mem_mysql_ok: "mysql_ok mem_mysql (\<lambda>v. v) (\<lambda>n. n)"
proof -
  have "sql_eval (\<lambda>n. n) 0 (unused_id (cur v)) st v = Some (r, v')"
    if "run_sql mem_mysql st v = (Some r, v')" for st v r v'
    using that by (auto simp: mem_mysql_def split: option.splits)
  moreover have "v' = v" if "run_sql mem_mysql st v = (None, v')" for st v v'
    using that by (auto simp: mem_mysql_def split: option.splits)
  ultimately show ?thesis
    unfolding mysql_ok_def failed_effect_def by (metis same_rows_refl)
qed

definition ex_view :: db_view where
  "ex_view = \<lparr>cur = \<lparr>im_user = [\<lparr>u_id = 1, u_user_id = 11, u_username = ''ann'', u_password = ''pa''\<rparr>,
        \<lparr>u_id = 2, u_user_id = 22, u_username = ''bob'', u_password = ''pb''\<rparr>],
      im_friend = []\<rparr>, saved = None\<rparr>"

lemmas mem_run = mem_mysql_def unused_id_def ex_view_def execute_def execute_bool_def db_bind_def db_return_def
  FriendDao_AddFriend_def FriendDao_HandleFriend_def handle_body_def mirror_row_def
  FriendDao_GetFriendList_def STATUS_PENDING_def STATUS_ACCEPTED_def STATUS_REJECTED_def


lemma AddFriend_cases:
  assumes m: "mysql_ok m view coll" and idle: "saved (view s) = None"
    and res: "FriendDao_AddFriend m a b msg s = ((r, rid), s')"
  shows "saved (view s') = None \<and> im_user (cur (view s')) = im_user (cur (view s)) \<and>
    (if rel (cur (view s)) (a, b) = None
     then r = SUCCESS \<and> rel (cur (view s')) = (rel (cur (view s)))((a, b) \<mapsto> STATUS_PENDING) \<or>
       r = DB_ERROR \<and> (view s' = view s \<or> rel (cur (view s')) = (rel (cur (view s)))((a, b) \<mapsto> STATUS_PENDING))
     else (r = ALREADY_EXISTS \<or> r = DB_ERROR) \<and> view s' = view s)"
proof -
  let ?ins = "\<lambda>v. rel (cur (view s)) (a, b) = None \<and> saved v = None \<and> im_user (cur v) = im_user (cur (view s)) \<and>
      rel (cur v) = (rel (cur (view s)))((a, b) \<mapsto> STATUS_PENDING)"
  let ?P = "\<lambda>(r, rid :: u64) v. (r = SUCCESS \<and> ?ins v) \<or>
    (r = ALREADY_EXISTS \<and> rel (cur (view s)) (a, b) \<noteq> None \<and> v = view s) \<or>
    (r = DB_ERROR \<and> (v = view s \<or> ?ins v))"
  have insert: "db_ok view (run_sql m (InsertFriend a b STATUS_PENDING (Some msg))) s1
      (\<lambda>r v. (\<exists>n. r = RId n) \<and> ?ins v) (\<lambda>v. ?P (DB_ERROR, 0) v)" if v1: "view s1 = view s" for s1
  proof (rule db_ok_weaken [OF run_insert_friend [OF m]])
    show "?P (DB_ERROR, 0) v"
      if failed: "failed_effect coll (InsertFriend a b STATUS_PENDING (Some msg)) (view s1) v" for v
    proof -
      consider "v = view s" | now i r where
          "sql_eval coll now i (InsertFriend a b STATUS_PENDING (Some msg)) (view s) = Some (r, v)"
        using failed idle unfolding v1 failed_effect_def by (auto simp del: sql_eval.simps)
      then show ?thesis
      proof cases
        case 2
        from eval_insert_friend [OF this] idle show ?thesis by simp
      qed simp
    qed
  qed (simp add: v1 idle)
  have "?P (fst (FriendDao_AddFriend m a b msg s)) (view (snd (FriendDao_AddFriend m a b msg s)))"
    unfolding FriendDao_AddFriend_def
  proof (rule execute_ok, rule db_ok_seq [OF run_select_friend [OF m]])
    fix r s1
    assume sel: "view s1 = view s \<and> (\<exists>ids. r = RIds ids \<and> (ids = [] \<longleftrightarrow> rel (cur (view s1)) (a, b) = None))"
    from conjunct2 [OF sel] obtain ids where ids: "r = RIds ids \<and>
        (ids = [] \<longleftrightarrow> rel (cur (view s1)) (a, b) = None)" by (rule exE)
    show "db_ok view (case r of
        RIds [] \<Rightarrow> db_bind (run_sql m (InsertFriend a b STATUS_PENDING (Some msg))) (\<lambda>r' s.
          case r' of RId last_id \<Rightarrow> (Some (SUCCESS, word_of_nat last_id), s) | _ \<Rightarrow> (None, s))
      | RIds (i # is) \<Rightarrow> db_return (ALREADY_EXISTS, 0)
      | _ \<Rightarrow> \<lambda>s. (None, s)) s1 ?P (?P (DB_ERROR, 0))"
    proof (cases ids)
      case Nil
      have "db_ok view (db_bind (run_sql m (InsertFriend a b STATUS_PENDING (Some msg))) (\<lambda>r' s.
          case r' of RId last_id \<Rightarrow> (Some (SUCCESS, word_of_nat last_id), s) | _ \<Rightarrow> (None, s))) s1
          ?P (?P (DB_ERROR, 0))"
        by (rule db_ok_seq [OF insert]) (use sel in \<open>auto simp: db_ok_def\<close>)
      with Nil ids show ?thesis by simp
    next
      case (Cons i js)
      with ids sel show ?thesis by (simp add: db_ok_def db_return_def)
    qed
  qed (use idle in \<open>auto dest: failed_read\<close>)
  with res idle show ?thesis by auto
qed

text \<open>Property C18. A request that was accepted makes the two users friends in both directions:
  after a successful \<open>AddFriend\<close> from \<open>a\<close> to \<open>b\<close> and a successful acceptance by
  \<open>b\<close>, the committed relation has both \<open>(a, b)\<close> and \<open>(b, a)\<close> accepted, and no
  pair of other users has changed.\<close>

theorem friendship_established:
  assumes m: "mysql_ok m view coll" and idle: "saved (view s) = None"
    and add: "FriendDao_AddFriend m a b msg s = ((SUCCESS, rid), s1)"
    and acc: "FriendDao_HandleFriend m b a True s1 = (Some x, s2)"
  shows "x = a \<and> rel (committed (view s2)) (a, b) = Some STATUS_ACCEPTED \<and>
    rel (committed (view s2)) (b, a) = Some STATUS_ACCEPTED \<and>
    (\<forall>p. p \<noteq> (a, b) \<and> p \<noteq> (b, a) \<longrightarrow> rel (committed (view s2)) p = rel (committed (view s)) p)"
proof -
  have 1: "rel (committed (view s1)) = (rel (committed (view s)))((a, b) \<mapsto> STATUS_PENDING)"
    "saved (view s1) = None"
    using AddFriend_cases [OF m idle add] idle by (auto simp: committed_def split: if_splits)
  have "x = a \<and> rel (committed (view s2)) = answered b a True (rel (committed (view s1)))"
    using HandleFriend_cases [OF m 1(2) acc] by simp
  with 1(1) show ?thesis by (simp add: answered_def set_status_def)
qed

theorem friendship_established_witness:
  "\<exists>rid s1 s2. FriendDao_AddFriend mem_mysql 11 22 ''hi'' ex_view = ((SUCCESS, rid), s1) \<and>
    FriendDao_HandleFriend mem_mysql 22 11 True s1 = (Some 11, s2) \<and>
    rel (committed s2) (11, 22) = Some STATUS_ACCEPTED \<and> rel (committed s2) (22, 11) = Some STATUS_ACCEPTED"
proof -
  obtain rid s1 where 1: "FriendDao_AddFriend mem_mysql 11 22 ''hi'' ex_view = ((SUCCESS, rid), s1)"
    by (simp add: mem_run)
  then obtain s2 where 2: "FriendDao_HandleFriend mem_mysql 22 11 True s1 = (Some 11, s2)"
    by (auto simp: mem_run)
  have "saved ex_view = None" by (simp add: ex_view_def)
  from friendship_established [OF mem_mysql_ok this 1 2] 1 2 show ?thesis by blast
qed

text \<open>Acceptance does not check that there was a request: if the sender never asked,
  a successful acceptance makes the sender a friend of the receiver and leaves the receiver
  unknown to the sender, so the relation is one-sided.\<close>

lemma accept_without_request:
  assumes m: "mysql_ok m view coll" and idle: "saved (view s) = None" and "a \<noteq> b"
    and none: "rel (committed (view s)) (a, b) = None"
    and acc: "FriendDao_HandleFriend m b a True s = (Some x, s2)"
  shows "rel (committed (view s2)) (b, a) = Some STATUS_ACCEPTED \<and> rel (committed (view s2)) (a, b) = None"
  using HandleFriend_cases [OF m idle acc] none \<open>a \<noteq> b\<close> by (auto simp: answered_def set_status_def)

lemma accept_without_request_witness:
  "\<exists>s2. FriendDao_HandleFriend mem_mysql 22 11 True ex_view = (Some 11, s2) \<and>
    rel (committed s2) (22, 11) = Some STATUS_ACCEPTED \<and> rel (committed s2) (11, 22) = None"
proof -
  obtain s2 where 2: "FriendDao_HandleFriend mem_mysql 22 11 True ex_view = (Some 11, s2)"
    by (auto simp: mem_run)
  have "saved ex_view = None" "rel (committed ex_view) (11, 22) = None"
    by (simp_all add: ex_view_def rel_def committed_def)
  from accept_without_request [OF mem_mysql_ok this(1) _ this(2) 2] 2 show ?thesis by simp
qed

section \<open>What the operations on users do\<close>

definition named :: "(string \<Rightarrow> string) \<Rightarrow> string \<Rightarrow> tables \<Rightarrow> user_row set" where
  "named coll n t = {r \<in> set (im_user t). coll (u_username r) = coll n}"

lemma named_filter: "named coll n t = set (filter (\<lambda>r. coll (u_username r) = coll n) (im_user t))"
  by (auto simp: named_def)

lemma same_rows_RUsers: "same_rows r (RUsers b) \<Longrightarrow> \<exists>a. r = RUsers a \<and> set a = set b"
  by (cases r) (auto dest: mset_eq_setD)

lemma same_rows_RPasswords: "same_rows r (RPasswords b) \<Longrightarrow> \<exists>a. r = RPasswords a \<and> set a = set b"
  by (cases r) (auto dest: mset_eq_setD)

text \<open>A statement that cannot be run: the pool hands out no connection, or the statement throws.\<close>

definition db_fails :: "'db mysql \<Rightarrow> sql \<Rightarrow> 'db \<Rightarrow> bool" where
  "db_fails m st s \<longleftrightarrow> \<not> has_conn m s \<or> fst (run_sql m st s) = None"

lemma read_run:
  assumes m: "mysql_ok m view coll" and idle: "saved (view s) = None" and st: "reads_only st"
    and run: "run_sql m st s = (x, s')"
  shows "view s' = view s"
    and "x = Some r \<Longrightarrow> \<exists>now i r0. sql_eval coll now i st (view s) = Some (r0, view s) \<and> same_rows r r0"
proof -
  have "view s' = view s \<and> (\<forall>r. x = Some r \<longrightarrow>
      (\<exists>now i r0. sql_eval coll now i st (view s) = Some (r0, view s) \<and> same_rows r r0))"
  proof (cases x)
    case None
    with m run have "failed_effect coll st (view s) (view s')" unfolding mysql_ok_def by blast
    with None st idle show ?thesis by (simp add: failed_read)
  next
    case (Some r)
    with m run obtain now i r0 where "sql_eval coll now i st (view s) = Some (r0, view s')" "same_rows r r0"
      unfolding mysql_ok_def by blast
    with Some st reads_only_eval show ?thesis by (metis option.inject)
  qed
  then show "view s' = view s"
    "x = Some r \<Longrightarrow> \<exists>now i r0. sql_eval coll now i st (view s) = Some (r0, view s) \<and> same_rows r r0" by blast+
qed

text \<open>An operation that runs one statement that only reads: it gives its default and changes nothing
  where the statement cannot be run, and otherwise it works on the rows.\<close>

lemma execute_read:
  assumes m: "mysql_ok m view coll" and idle: "saved (view s) = None" and st: "reads_only st"
    and run: "execute m (db_bind (run_sql m st) g) d s = (x, s')"
    and g: "\<And>r s1. fst (g r s1) = h r \<and> snd (g r s1) = s1"
  obtains "db_fails m st s" and "x = d" and "view s' = view s"
  | now i r r0 where "\<not> db_fails m st s" and "sql_eval coll now i st (view s) = Some (r0, view s)"
      and "same_rows r r0" and "x = (case h r of None \<Rightarrow> d | Some y \<Rightarrow> y)" and "view s' = view s"
proof (cases "db_fails m st s")
  case True
  have "x = d \<and> view s' = view s"
  proof (cases "has_conn m s")
    case False
    with run show ?thesis by (simp add: execute_def)
  next
    case conn: True
    obtain s1 where s1: "run_sql m st s = (None, s1)" using True conn by (cases "run_sql m st s") (auto simp: db_fails_def)
    with run conn have "x = d" "s' = s1" by (simp_all add: execute_def db_bind_def)
    with read_run(1) [OF m idle st s1] show ?thesis by simp
  qed
  with True that(1) show thesis by blast
next
  case False
  then obtain r s1 where conn: "has_conn m s" and s1: "run_sql m st s = (Some r, s1)"
    by (cases "run_sql m st s") (auto simp: db_fails_def)
  obtain y s2 where gr: "g r s1 = (y, s2)" by fastforce
  with g [of r s1] have y: "y = h r" "s2 = s1" by simp_all
  have x: "x = (case h r of None \<Rightarrow> d | Some y \<Rightarrow> y) \<and> s' = s1"
    using run conn s1 gr y by (auto simp: execute_def db_bind_def split: option.splits)
  obtain now i r0 where "sql_eval coll now i st (view s) = Some (r0, view s)" "same_rows r r0"
    using read_run(2) [OF m idle st s1 refl] by blast
  with False x read_run(1) [OF m idle st s1] that(2) show thesis by blast
qed

lemma QueryExist_ok:
  assumes m: "mysql_ok m view coll" and idle: "saved (view s) = None" and "QueryExist m n s = (b, s')"
  shows "view s' = view s" and "b \<Longrightarrow> named coll n (cur (view s)) \<noteq> {}"
    and "\<not> b \<Longrightarrow> named coll n (cur (view s)) = {} \<or> db_fails m (CountUsersByName n) s"
proof -
  let ?g = "\<lambda>r s. case r of RCount k \<Rightarrow> (Some (k > 0), s) | _ \<Rightarrow> (None, s)"
  have "QueryExist m n = execute m (db_bind (run_sql m (CountUsersByName n)) ?g) False"
    unfolding QueryExist_def exists_row_def execute_bool_def
    by (rule arg_cong [where f = "\<lambda>f. execute m f False"])
      (auto simp: fun_eq_iff db_bind_def result_count_def db_return_def split: prod.splits option.splits sql_result.splits)
  then have run: "execute m (db_bind (run_sql m (CountUsersByName n)) ?g) False s = (b, s')" using assms(3) by simp
  have "view s' = view s \<and> (b \<longrightarrow> named coll n (cur (view s)) \<noteq> {}) \<and>
      (\<not> b \<longrightarrow> named coll n (cur (view s)) = {} \<or> db_fails m (CountUsersByName n) s)"
  proof (rule execute_read [OF m idle _ run, where h = "\<lambda>r. case r of RCount k \<Rightarrow> Some (k > 0) | _ \<Rightarrow> None"])
    fix now i r r0
    assume "sql_eval coll now i (CountUsersByName n) (view s) = Some (r0, view s)" "same_rows r r0"
      and b: "b = (case (case r of RCount k \<Rightarrow> Some (k > 0) | _ \<Rightarrow> None) of None \<Rightarrow> False | Some y \<Rightarrow> y)"
      and v: "view s' = view s"
    then have "r = RCount (int (length (filter (\<lambda>r. coll (u_username r) = coll n) (im_user (cur (view s))))))"
      by (cases r) auto
    with b have "b = (named coll n (cur (view s)) \<noteq> {})" by (auto simp: named_filter filter_empty_conv)
    with v show ?thesis by simp
  qed (auto split: sql_result.splits)
  then show "view s' = view s" "b \<Longrightarrow> named coll n (cur (view s)) \<noteq> {}"
    "\<not> b \<Longrightarrow> named coll n (cur (view s)) = {} \<or> db_fails m (CountUsersByName n) s" by blast+
qed

lemma VerifyUser_ok:
  assumes m: "mysql_ok m view coll" and idle: "saved (view s) = None" and "VerifyUser m n p s = (b, s')"
  shows "view s' = view s" and "b \<Longrightarrow> \<exists>row\<in>named coll n (cur (view s)). u_password row = p"
    and "\<not> b \<Longrightarrow> (\<forall>row\<in>named coll n (cur (view s)). u_password row = p) \<Longrightarrow>
      named coll n (cur (view s)) = {} \<or> db_fails m (SelectPassword n) s"
proof -
  let ?h = "\<lambda>r. case r of RPasswords [] \<Rightarrow> Some False | RPasswords (q # ps) \<Rightarrow> Some (q = p) | _ \<Rightarrow> None"
  have "view s' = view s \<and> (b \<longrightarrow> (\<exists>row\<in>named coll n (cur (view s)). u_password row = p)) \<and>
      (\<not> b \<longrightarrow> (\<forall>row\<in>named coll n (cur (view s)). u_password row = p) \<longrightarrow>
        named coll n (cur (view s)) = {} \<or> db_fails m (SelectPassword n) s)"
  proof (rule execute_read [OF m idle _ assms(3) [unfolded VerifyUser_def execute_bool_def], where h = ?h])
    fix now i r r0
    assume "sql_eval coll now i (SelectPassword n) (view s) = Some (r0, view s)" "same_rows r r0"
      and b: "b = (case ?h r of None \<Rightarrow> False | Some y \<Rightarrow> y)" and v: "view s' = view s"
    then obtain ps where ps: "r = RPasswords ps" "set ps = u_password ` named coll n (cur (view s))"
      using same_rows_RPasswords by (fastforce simp: named_filter)
    show ?thesis
    proof (cases ps)
      case Nil
      with ps b v show ?thesis by simp
    next
      case (Cons q qs)
      with ps have "q \<in> u_password ` named coll n (cur (view s))" by (metis list.set_intros(1))
      with Cons ps(1) b v show ?thesis by auto
    qed
  qed (auto split: sql_result.splits list.splits)
  then show "view s' = view s" "b \<Longrightarrow> \<exists>row\<in>named coll n (cur (view s)). u_password row = p"
    "\<not> b \<Longrightarrow> (\<forall>row\<in>named coll n (cur (view s)). u_password row = p) \<Longrightarrow>
      named coll n (cur (view s)) = {} \<or> db_fails m (SelectPassword n) s" by blast+
qed

lemma FindByUsername_ok:
  assumes m: "mysql_ok m view coll" and idle: "saved (view s) = None" and "FindByUsername m n s = (u, s')"
    and known: "named coll n (cur (view s)) \<noteq> {}"
  shows "view s' = view s" and "if db_fails m (SelectUserByName n) s then u = User_default
    else \<exists>row\<in>named coll n (cur (view s)). u = \<lparr>usr_user_id = u_user_id row,
       usr_username = u_username row, usr_status = USER_STATUS_ONLINE\<rparr>"
proof -
  let ?h = "\<lambda>r. fst (user_from_rows USER_STATUS_ONLINE r s)"
  have "view s' = view s \<and> (if db_fails m (SelectUserByName n) s then u = User_default
    else \<exists>row\<in>named coll n (cur (view s)). u = \<lparr>usr_user_id = u_user_id row,
       usr_username = u_username row, usr_status = USER_STATUS_ONLINE\<rparr>)"
  proof (rule execute_read [OF m idle _ assms(3) [unfolded FindByUsername_def], where h = ?h])
    fix now i r r0
    assume nf: "\<not> db_fails m (SelectUserByName n) s"
      and "sql_eval coll now i (SelectUserByName n) (view s) = Some (r0, view s)" "same_rows r r0"
      and u: "u = (case ?h r of None \<Rightarrow> User_default | Some y \<Rightarrow> y)" and v: "view s' = view s"
    then obtain us where us: "r = RUsers us"
      "set us = (\<lambda>r. (u_user_id r, u_username r)) ` named coll n (cur (view s))"
      using same_rows_RUsers by (fastforce simp: named_filter)
    with known obtain q qs where "us = q # qs" by (cases us) auto
    moreover from this us obtain row where "row \<in> named coll n (cur (view s))" "q = (u_user_id row, u_username row)"
      by (metis (no_types, lifting) image_iff list.set_intros(1))
    ultimately have "u = \<lparr>usr_user_id = u_user_id row, usr_username = u_username row, usr_status = USER_STATUS_ONLINE\<rparr>"
      using u us(1) by (simp add: user_from_rows_def)
    with \<open>row \<in> named coll n (cur (view s))\<close> nf v show ?thesis by auto
  qed (auto simp: user_from_rows_def split: sql_result.splits list.splits)
  then show "view s' = view s" and "if db_fails m (SelectUserByName n) s then u = User_default
    else \<exists>row\<in>named coll n (cur (view s)). u = \<lparr>usr_user_id = u_user_id row,
       usr_username = u_username row, usr_status = USER_STATUS_ONLINE\<rparr>" by blast+
qed

text \<open>An account is added: neither its name nor its id was taken, and nothing else changes.\<close>

definition account_added ::
  "(string \<Rightarrow> string) \<Rightarrow> u64 \<Rightarrow> string \<Rightarrow> string \<Rightarrow> db_view \<Rightarrow> db_view \<Rightarrow> bool" where
  "account_added coll uid n p v v' \<longleftrightarrow>
     named coll n (cur v) = {} \<and> uid \<notin> u_user_id ` set (im_user (cur v)) \<and>
     (\<exists>i. v' = v\<lparr>cur := (cur v)\<lparr>im_user := im_user (cur v) @
        [\<lparr>u_id = i, u_user_id = uid, u_username = n, u_password = p\<rparr>]\<rparr>\<rparr>)"

lemma eval_insert_user:
  "sql_eval coll now i (InsertUser uid n p) v = Some (r, v') \<Longrightarrow> account_added coll uid n p v v'"
  by (auto simp: account_added_def named_def split: if_splits)

text \<open>An insertion that is reported as failed may have been carried out.\<close>

lemma UserDao_Insert_ok:
  assumes m: "mysql_ok m view coll" and idle: "saved (view s) = None" and ins: "UserDao_Insert m uid n p s = (b, s')"
  shows "(\<not> b \<and> view s' = view s) \<or> account_added coll uid n p (view s) (view s')"
proof -
  let ?st = "InsertUser uid n p"
  obtain x s1 where r: "run_sql m ?st s = (x, s1)" by fastforce
  have eq: "UserDao_Insert m uid n p s = (if has_conn m s then (x \<noteq> None, s1) else (False, s))"
    by (cases x) (simp_all add: UserDao_Insert_def insert_row_def execute_bool_def execute_def db_bind_def db_return_def r)
  show ?thesis
  proof (cases "has_conn m s")
    case False
    with ins eq show ?thesis by simp
  next
    case True
    with ins eq have b: "b \<longleftrightarrow> x \<noteq> None" "s' = s1" by auto
    show ?thesis
    proof (cases x)
      case None
      with m r have "failed_effect coll ?st (view s) (view s1)" unfolding mysql_ok_def by blast
      then have "view s1 = view s \<or> (\<exists>now i r. sql_eval coll now i ?st (view s) = Some (r, view s1))"
        using idle unfolding failed_effect_def by (auto simp del: sql_eval.simps)
      with None b eval_insert_user show ?thesis by metis
    next
      case (Some y)
      with m r have "\<exists>now i r. sql_eval coll now i ?st (view s) = Some (r, view s1)" unfolding mysql_ok_def by blast
      with b eval_insert_user show ?thesis by metis
    qed
  qed
qed

end
