(* ===== verification/Id_Generator.thy ===== *)
theory Id_Generator
  imports Prelude
begin

text \<open>
  Identifiers (\<open>server/src/utils/id_generator.h\<close>): user ids from the clock and a random
  value, and the key of a two-party conversation. The clock reading in milliseconds and the
  value drawn from the distribution on \<open>[0, 0x3FFFFF]\<close> are arguments.
\<close>

unbundle bit_operations_syntax

definition ID_EPOCH :: u64 where
  "ID_EPOCH = 1704067200000"

definition GenerateRandId :: "u64 \<Rightarrow> u32 \<Rightarrow> u64" where
  "GenerateRandId now rnd =
     (let now_ms = (if now < ID_EPOCH then ID_EPOCH else now)
      in push_bit 22 (now_ms - ID_EPOCH) OR ucast rnd)"

definition GenerateP2PConvId :: "u64 \<Rightarrow> u64 \<Rightarrow> string" where
  "GenerateP2PConvId sender receiver =
     (if sender \<le> receiver
      then to_string (unat sender) @ ''_'' @ to_string (unat receiver)
      else to_string (unat receiver) @ ''_'' @ to_string (unat sender))"

section \<open>Conversation keys\<close>

lemma digits_split:
  assumes "to_string a @ CHR ''_'' # to_string b = to_string c @ CHR ''_'' # to_string d"
  shows "a = c \<and> b = d"
proof -
  have dig: "takeWhile is_digit (to_string n @ CHR ''_'' # r) = to_string n"
    "dropWhile is_digit (to_string n @ CHR ''_'' # r) = CHR ''_'' # r" for n r
    using to_string_digits [of _ n] by (auto simp: takeWhile_append dropWhile_append is_digit_def)
  from assms have "to_string a = to_string c" "to_string b = to_string d"
    using dig(1) [of a "to_string b"] dig(1) [of c "to_string d"]
      dig(2) [of a "to_string b"] dig(2) [of c "to_string d"] by auto
  then show ?thesis by (auto dest: to_string_inj)
qed

lemma conv_digits_eq:
  "to_string (unat a) @ CHR ''_'' # to_string (unat b) =
   to_string (unat c) @ CHR ''_'' # to_string (unat d) \<longleftrightarrow> a = c \<and> b = d"
  for a b c d :: u64
  using digits_split [of "unat a" "unat b" "unat c" "unat d"] by (auto simp: word_unat_eq_iff)

lemma conv_id_users: "GenerateP2PConvId a b = GenerateP2PConvId c d \<Longrightarrow> {a, b} \<inter> {c, d} \<noteq> {}"
  by (auto simp: GenerateP2PConvId_def conv_digits_eq split: if_splits)

text \<open>Property C34. Two conversations get the same key exactly when they have the same two
  participants, in whichever role.\<close>

theorem conv_id_eq_iff:
  "GenerateP2PConvId a b = GenerateP2PConvId c d \<longleftrightarrow> (a = c \<and> b = d) \<or> (a = d \<and> b = c)"
  by (auto simp: GenerateP2PConvId_def not_le conv_digits_eq)

section \<open>User ids\<close>

lemma rand_id_fields:
  assumes "rnd \<le> 0x3FFFFF"
  shows "drop_bit 22 (GenerateRandId now rnd) =
      take_bit 42 (if now < ID_EPOCH then 0 else now - ID_EPOCH)"
    and "take_bit 22 (GenerateRandId now rnd) = ucast rnd"
proof -
  have low: "n < 22" if "bit rnd n" for n
  proof -
    have "unat rnd < 2 ^ 22" using assms by (simp add: word_le_nat_alt)
    then have "take_bit 22 (unat rnd) = unat rnd" by (simp add: take_bit_nat_eq_self)
    moreover have "bit (unat rnd) n" using that by (simp add: bit_unsigned_iff bit_imp_le_length)
    ultimately show ?thesis by (metis bit_take_bit_iff)
  qed
  show "drop_bit 22 (GenerateRandId now rnd) =
      take_bit 42 (if now < ID_EPOCH then 0 else now - ID_EPOCH)"
    by (rule bit_word_eqI) (auto simp: GenerateRandId_def Let_def bit_simps dest: low)
  show "take_bit 22 (GenerateRandId now rnd) = ucast rnd"
    by (rule bit_word_eqI) (auto simp: GenerateRandId_def Let_def bit_simps not_less dest: low)
qed

text \<open>Until the 42-bit millisecond count wraps (2^42 ms, some 139 years after the
  epoch), two generated ids are equal exactly when the clock reading and the random value are
  both equal.\<close>

lemma rand_id_eq_iff:
  assumes "r \<le> 0x3FFFFF" and "r' \<le> 0x3FFFFF"
    and "ID_EPOCH \<le> t" and "t - ID_EPOCH < 2 ^ 42" and "ID_EPOCH \<le> t'" and "t' - ID_EPOCH < 2 ^ 42"
  shows "GenerateRandId t r = GenerateRandId t' r' \<longleftrightarrow> t = t' \<and> r = r'"
proof
  assume eq: "GenerateRandId t r = GenerateRandId t' r'"
  have self: "take_bit 42 w = w" if "w < 2 ^ 42" for w :: u64
  proof -
    have "unat w < 2 ^ 42" using that by (simp add: word_less_nat_alt)
    then have "unat (take_bit 42 w) = unat w" by (simp add: unsigned_take_bit_eq take_bit_nat_eq_self)
    then show ?thesis by (simp add: word_unat_eq_iff)
  qed
  have "t - ID_EPOCH = t' - ID_EPOCH"
    using rand_id_fields(1) [OF assms(1), of t] rand_id_fields(1) [OF assms(2), of t'] eq assms(3-6) self
    by (simp add: not_less [symmetric])
  moreover have "(ucast r :: u64) = ucast r'"
    using rand_id_fields(2) [OF assms(1), of t] rand_id_fields(2) [OF assms(2), of t'] eq by simp
  then have "bit r n = bit r' n" if "n < 32" for n
    using that by (auto dest!: arg_cong [where f = "\<lambda>w. bit w n"] simp: bit_simps)
  then have "r = r'" by (intro bit_word_eqI) simp
  ultimately show "t = t' \<and> r = r'" by simp
qed auto

lemma rand_id_eq_iff_witness:
  "GenerateRandId 1704067200001 5 = GenerateRandId 1704067200002 5 \<longleftrightarrow>
   (1704067200001 :: u64) = 1704067200002 \<and> (5 :: u32) = 5"
  by (rule rand_id_eq_iff) (simp_all add: ID_EPOCH_def word_le_nat_alt word_less_nat_alt)

end
