(* ===== verification/Http_Request.thy ===== *)
theory Http_Request
  imports Buffer_Model Sql_Dao Id_Generator "HOL-Library.Signed_Division"
begin

text \<open>
  The HTTP request parser (\<open>server/src/http/httprequest.*\<close>).

  Model. The two regular expressions are the functions \<open>match_request_line\<close> and
  \<open>match_header\<close>: each pattern splits a line in at most one way, and \<open>.\<close> matches no
  carriage return or line feed. A string access out of range is the result \<open>None\<close>, as a
  failed assertion. The database is the argument \<open>m\<close> of \<open>Sql_Dao\<close>; \<open>rid\<close> is the
  id that \<open>GenerateRandId\<close> would draw.
\<close>

section \<open>State\<close>

datatype PARSE_STATE = REQUEST_LINE | HEADERS | BODY | FINISH

record http_request =
  rq_state :: PARSE_STATE
  rq_method :: string
  rq_path :: string
  rq_version :: string
  rq_body :: string
  rq_header :: "string \<Rightarrow> string option"
  rq_post :: "string \<Rightarrow> string option"

definition DEFAULT_HTML :: "string list" where
  "DEFAULT_HTML = [''/index'', ''/register'', ''/login'', ''/welcome'', ''/video'', ''/picture'']"

definition DEFAULT_HTML_TAG :: "string \<Rightarrow> int option" where
  "DEFAULT_HTML_TAG = [''/login.html'' \<mapsto> 1, ''/register.html'' \<mapsto> 0]"

definition HttpRequest_Init :: http_request where
  "HttpRequest_Init = \<lparr>rq_state = REQUEST_LINE, rq_method = [], rq_path = [], rq_version = [],
     rq_body = [], rq_header = Map.empty, rq_post = Map.empty\<rparr>"

section \<open>Lines\<close>

definition CR :: char where
  "CR = CHR 0x0D"

definition LF :: char where
  "LF = CHR 0x0A"

text \<open>\<open>std::search\<close> for the end of line: the offset of its first occurrence or the length.\<close>

fun find_crlf :: "string \<Rightarrow> nat" where
  "find_crlf [] = 0"
| "find_crlf [c] = 1"
| "find_crlf (c # d # cs) = (if c = CR \<and> d = LF then 0 else Suc (find_crlf (d # cs)))"

text \<open>The expression \<open>^([^ ]*) ([^ ]*) HTTP/([^ ]*)$\<close>.\<close>

definition match_request_line :: "string \<Rightarrow> (string \<times> string \<times> string) option" where
  "match_request_line line =
     (let sp = CHR '' '';
          a = takeWhile (\<lambda>c. c \<noteq> sp) line; r1 = dropWhile (\<lambda>c. c \<noteq> sp) line;
          b = takeWhile (\<lambda>c. c \<noteq> sp) (tl r1); r2 = dropWhile (\<lambda>c. c \<noteq> sp) (tl r1);
          v = drop 6 r2
      in if r1 \<noteq> [] \<and> take 6 r2 = '' HTTP/'' \<and> sp \<notin> set v then Some (a, b, v) else None)"

text \<open>The expression \<open>^([^:]*): ?(.*)$\<close>.\<close>

definition match_header :: "string \<Rightarrow> (string \<times> string) option" where
  "match_header line =
     (let a = takeWhile (\<lambda>c. c \<noteq> CHR '':'') line; r = dropWhile (\<lambda>c. c \<noteq> CHR '':'') line;
          v = (case tl r of [] \<Rightarrow> [] | c # cs \<Rightarrow> if c = CHR '' '' then cs else c # cs)
      in if r \<noteq> [] \<and> CR \<notin> set v \<and> LF \<notin> set v then Some (a, v) else None)"

section \<open>Operations\<close>

definition ParseRequestLine :: "string \<Rightarrow> http_request \<Rightarrow> bool \<times> http_request" where
  "ParseRequestLine line q =
     (case match_request_line line of
        Some (a, b, v) \<Rightarrow>
          (True, q\<lparr>rq_method := a, rq_path := b, rq_version := v, rq_state := HEADERS\<rparr>)
      | None \<Rightarrow> (False, q))"

definition ParsePath :: "http_request \<Rightarrow> http_request" where
  "ParsePath q =
     (if rq_path q = ''/'' then q\<lparr>rq_path := ''/index.html''\<rparr>
      else if rq_path q \<in> set DEFAULT_HTML then q\<lparr>rq_path := rq_path q @ ''.html''\<rparr>
      else q)"

definition ParseHeader :: "string \<Rightarrow> http_request \<Rightarrow> http_request" where
  "ParseHeader line q =
     (case match_header line of
        Some (k, v) \<Rightarrow> q\<lparr>rq_header := (rq_header q)(k \<mapsto> v)\<rparr>
      | None \<Rightarrow> q\<lparr>rq_state := BODY\<rparr>)"

text \<open>A \<open>char\<close> is signed; \<open>ConvertHex\<close> returns it as an \<open>int\<close>.\<close>

definition schar :: "char \<Rightarrow> int" where
  "schar c = (if (of_char c :: int) \<ge> 128 then of_char c - 256 else of_char c)"

definition ConvertHex :: "char \<Rightarrow> int" where
  "ConvertHex ch =
     (if 65 \<le> schar ch \<and> schar ch \<le> 70 then schar ch - 65 + 10
      else if 97 \<le> schar ch \<and> schar ch \<le> 102 then schar ch - 97 + 10
      else schar ch)"

definition to_char :: "int \<Rightarrow> char" where
  "to_char n = char_of (nat (n mod 256))"

definition substr :: "nat \<Rightarrow> nat \<Rightarrow> string \<Rightarrow> string" where
  "substr j len s = take len (drop j s)"

text \<open>
  The loop of \<open>ParseFromUrlencoded_\<close>: index \<open>i\<close>, start \<open>j\<close> of the current token,
  current key, body and fields.
\<close>

function urlencoded_loop ::
  "nat \<Rightarrow> nat \<Rightarrow> string \<Rightarrow> string \<Rightarrow> (string \<Rightarrow> string option) \<Rightarrow>
   (nat \<times> nat \<times> string \<times> string \<times> (string \<Rightarrow> string option)) option" where
  "urlencoded_loop i j key body post =
     (if i < length body
      then let ch = body ! i in
        if ch = CHR ''='' then urlencoded_loop (i + 1) (i + 1) (substr j (i - j) body) body post
        else if ch = CHR ''+'' then urlencoded_loop (i + 1) j key (body[i := CHR '' '']) post
        else if ch = CHR ''%'' then
          (if i + 2 < length body
           then let num = ConvertHex (body ! (i + 1)) * 16 + ConvertHex (body ! (i + 2)) in
             urlencoded_loop (i + 3) j key
               (body[i + 2 := to_char (num smod 10 + 48), i + 1 := to_char (num sdiv 10 + 48)]) post
           else None)
        else if ch = CHR ''&'' then
          urlencoded_loop (i + 1) (i + 1) key body (post(key \<mapsto> substr j (i - j) body))
        else urlencoded_loop (i + 1) j key body post
      else Some (i, j, key, body, post))"
  by pat_completeness auto
termination
  by (relation "measure (\<lambda>(i, j, key, body, post). length body - i)") auto

declare urlencoded_loop.simps [simp del]

definition ParseFromUrlencoded :: "http_request \<Rightarrow> http_request option" where
  "ParseFromUrlencoded q =
     (if rq_body q = [] then Some q
      else do {
        (i, j, key, body, post) \<leftarrow> urlencoded_loop 0 0 [] (rq_body q) (rq_post q);
        let q1 = q\<lparr>rq_body := body, rq_post := post\<rparr> in
        if j \<le> i
        then Some (if post key = None \<and> j < i
                   then q1\<lparr>rq_post := post(key \<mapsto> substr j (i - j) body)\<rparr> else q1)
        else None })"

text \<open>\<open>operator[]\<close> of a map inserts an empty string for a missing key.\<close>

definition map_at :: "string \<Rightarrow> (string \<Rightarrow> string option) \<Rightarrow> string \<times> (string \<Rightarrow> string option)" where
  "map_at k f = (case f k of Some v \<Rightarrow> (v, f) | None \<Rightarrow> ([], f(k \<mapsto> [])))"

definition UserVerify :: "'db mysql \<Rightarrow> u64 \<Rightarrow> string \<Rightarrow> string \<Rightarrow> bool \<Rightarrow> 'db \<Rightarrow> bool \<times> 'db" where
  "UserVerify m rid name pwd isLogin s =
     (if name = [] \<or> pwd = [] then (False, s)
      else if isLogin then VerifyUser m name pwd s
      else let (used, s1) = QueryExist m name s in
        if used then (False, s1) else UserDao_Insert m rid name pwd s1)"

definition ParsePost :: "'db mysql \<Rightarrow> u64 \<Rightarrow> http_request \<Rightarrow> 'db \<Rightarrow> (http_request \<times> 'db) option" where
  "ParsePost m rid q s =
     (if rq_method q = ''POST''
      then let (ct, hdr) = map_at ''Content-Type'' (rq_header q); q1 = q\<lparr>rq_header := hdr\<rparr> in
        if ct = ''application/x-www-form-urlencoded''
        then do {
          q2 \<leftarrow> ParseFromUrlencoded q1;
          case DEFAULT_HTML_TAG (rq_path q2) of
            None \<Rightarrow> Some (q2, s)
          | Some tag \<Rightarrow>
              if tag = 0 \<or> tag = 1
              then let (pwd, post1) = map_at ''password'' (rq_post q2);
                       (name, post2) = map_at ''username'' post1;
                       (ok, s1) = UserVerify m rid name pwd (tag = 1) s
                in Some (q2\<lparr>rq_post := post2,
                     rq_path := (if ok then ''/welcome.html'' else ''/error.html'')\<rparr>, s1)
              else Some (q2, s) }
        else Some (q1, s)
      else Some (q, s))"

definition ParseBody ::
  "'db mysql \<Rightarrow> u64 \<Rightarrow> string \<Rightarrow> http_request \<Rightarrow> 'db \<Rightarrow> (http_request \<times> 'db) option" where
  "ParseBody m rid line q s =
     do { (q1, s1) \<leftarrow> ParsePost m rid (q\<lparr>rq_body := line\<rparr>) s; Some (q1\<lparr>rq_state := FINISH\<rparr>, s1) }"

text \<open>One pass of the switch; \<open>False\<close> is the early return for a bad request line.\<close>

definition parse_line ::
  "'db mysql \<Rightarrow> u64 \<Rightarrow> string \<Rightarrow> nat \<Rightarrow> http_request \<Rightarrow> 'db \<Rightarrow> (bool \<times> http_request \<times> 'db) option" where
  "parse_line m rid line readable q s =
     (case rq_state q of
        REQUEST_LINE \<Rightarrow>
          (case ParseRequestLine line q of
             (False, q1) \<Rightarrow> Some (False, q1, s)
           | (True, q1) \<Rightarrow> Some (True, ParsePath q1, s))
      | HEADERS \<Rightarrow>
          let q1 = ParseHeader line q in
          Some (True, if readable \<le> 2 then q1\<lparr>rq_state := FINISH\<rparr> else q1, s)
      | BODY \<Rightarrow> do { (q1, s1) \<leftarrow> ParseBody m rid line q s; Some (True, q1, s1) }
      | FINISH \<Rightarrow> Some (True, q, s))"

lemma retrieve_shrinks: "retrieve n b = Some b' \<Longrightarrow> 0 < n \<Longrightarrow> readable_bytes b' < readable_bytes b"
  by (auto simp: retrieve_def readable_bytes_def split: if_splits)

function parse_loop ::
  "'db mysql \<Rightarrow> u64 \<Rightarrow> buffer \<Rightarrow> http_request \<Rightarrow> 'db \<Rightarrow> (bool \<times> buffer \<times> http_request \<times> 'db) option" where
  "parse_loop m rid b q s =
     (if readable_bytes b > 0 \<and> rq_state q \<noteq> FINISH
      then let k = find_crlf (bytes_at b (peek b) (readable_bytes b));
               line = bytes_at b (peek b) k
        in case parse_line m rid line (readable_bytes b) q s of
             None \<Rightarrow> None
           | Some (False, q1, s1) \<Rightarrow> Some (False, b, q1, s1)
           | Some (True, q1, s1) \<Rightarrow>
               if peek b + k = begin_write b then Some (True, retrieve_all b, q1, s1)
               else (case retrieve_until (peek b + k + 2) b of
                       None \<Rightarrow> None
                     | Some b1 \<Rightarrow> parse_loop m rid b1 q1 s1)
      else Some (True, b, q, s))"
  by pat_completeness auto
termination
  by (relation "measure (\<lambda>(m, rid, b, q, s). readable_bytes b)")
    (auto simp: retrieve_until_def dest: retrieve_shrinks split: if_splits)

declare parse_loop.simps [simp del]

definition parse ::
  "'db mysql \<Rightarrow> u64 \<Rightarrow> buffer \<Rightarrow> http_request \<Rightarrow> 'db \<Rightarrow> (bool \<times> buffer \<times> http_request \<times> 'db) option" where
  "parse m rid b q s = (if readable_bytes b = 0 then Some (False, b, q, s) else parse_loop m rid b q s)"

definition GetPost :: "string \<Rightarrow> http_request \<Rightarrow> string option" where
  "GetPost key q = (if key = [] then None else Some (case rq_post q key of Some v \<Rightarrow> v | None \<Rightarrow> []))"

text \<open>The version that takes a C string, or a null pointer (\<open>None\<close>); it accepts the empty key.\<close>

definition GetPost_cstr :: "string option \<Rightarrow> http_request \<Rightarrow> string option" where
  "GetPost_cstr key q = (case key of
     None \<Rightarrow> None
   | Some k \<Rightarrow> Some (case rq_post q k of Some v \<Rightarrow> v | None \<Rightarrow> []))"

definition IsKeepAlive :: "http_request \<Rightarrow> bool" where
  "IsKeepAlive q \<longleftrightarrow> rq_header q ''Connection'' = Some ''keep-alive'' \<and> rq_version q = ''1.1''"

section \<open>The parser on the readable text\<close>

lemma find_crlf_le: "find_crlf cs \<le> length cs"
  by (induction cs rule: find_crlf.induct) auto

lemma find_crlf_found:
  "find_crlf cs < length cs \<Longrightarrow>
   find_crlf cs + 2 \<le> length cs \<and> cs = take (find_crlf cs) cs @ CR # LF # drop (find_crlf cs + 2) cs"
  by (induction cs rule: find_crlf.induct) auto

lemma find_crlf_line: "CR \<notin> set l \<Longrightarrow> find_crlf (l @ CR # LF # r) = length l"
  by (induction l rule: find_crlf.induct) auto

lemma find_crlf_none: "CR \<notin> set l \<Longrightarrow> find_crlf l = length l"
  by (induction l rule: find_crlf.induct) auto

function parse_text ::
  "'db mysql \<Rightarrow> u64 \<Rightarrow> string \<Rightarrow> http_request \<Rightarrow> 'db \<Rightarrow> (bool \<times> string \<times> http_request \<times> 'db) option" where
  "parse_text m rid cs q s =
     (if cs \<noteq> [] \<and> rq_state q \<noteq> FINISH
      then let k = find_crlf cs in
        case parse_line m rid (take k cs) (length cs) q s of
          None \<Rightarrow> None
        | Some (False, q1, s1) \<Rightarrow> Some (False, cs, q1, s1)
        | Some (True, q1, s1) \<Rightarrow>
            if k = length cs then Some (True, [], q1, s1)
            else parse_text m rid (drop (k + 2) cs) q1 s1
      else Some (True, cs, q, s))"
  by pat_completeness auto
termination
  by (relation "measure (\<lambda>(m, rid, cs, q, s). length cs)") auto

declare parse_text.simps [simp del]

lemma retrieve_line:
  assumes b: "buf_ok b" and k: "k + 2 \<le> length (contents b)"
  obtains b1 where "retrieve_until (peek b + k + 2) b = Some b1" and "buf_ok b1" and "contents b1 = drop (k + 2) (contents b)"
proof -
  obtain b1 where b1: "retrieve (k + 2) b = Some b1"
    using retrieve_None [OF b, of "k + 2"] k readable_bytes_contents [OF b] by (cases "retrieve (k + 2) b") auto
  moreover have "retrieve_until (peek b + k + 2) b = Some b1"
    using retrieve_until_peek [of b "k + 2"] b1 by (simp add: add.assoc)
  ultimately show thesis using retrieve_ok [OF b b1] by (intro that)
qed

lemma parse_loop_text:
  "buf_ok b \<Longrightarrow> map_option (\<lambda>(r, b', x). (r, contents b', x)) (parse_loop m rid b q s) =
   parse_text m rid (contents b) q s"
proof (induction m rid b q s rule: parse_loop.induct)
  case (1 m rid b q s)
  let ?cs = "contents b" and ?k = "find_crlf (contents b)"
  note len = readable_bytes_contents [OF "1.prems"]
  have "bytes_at b (peek b) ?k = take ?k ?cs"
    using bytes_at_peek_take [of ?k b] find_crlf_le [of ?cs] len by simp
  note line = bytes_at_peek [of b] this
  have stop: "peek b + ?k = begin_write b \<longleftrightarrow> ?k = length ?cs"
    using "1.prems" by (auto simp: len [symmetric] buffer_defs buf_ok_def)
  show ?case
  proof (cases "?cs \<noteq> [] \<and> rq_state q \<noteq> FINISH")
    case True
    then have run: "readable_bytes b > 0 \<and> rq_state q \<noteq> FINISH" using len by simp
    show ?thesis
    proof (cases "parse_line m rid (take ?k ?cs) (length ?cs) q s")
      case None
      with True run line len show ?thesis
        by (simp add: parse_loop.simps [of m rid b] parse_text.simps [of m rid ?cs] Let_def)
    next
      case (Some x)
      obtain r q1 s1 where x: "x = (r, q1, s1)" by (cases x)
      show ?thesis
      proof (cases "r \<and> ?k \<noteq> length ?cs")
        case False
        with True run line len stop Some x retrieve_all_ok [of b] show ?thesis
          by (auto simp: parse_loop.simps [of m rid b] parse_text.simps [of m rid ?cs] Let_def split: bool.splits)
      next
        case more: True
        then have k2: "?k + 2 \<le> length ?cs" using find_crlf_found [of ?cs] find_crlf_le [of ?cs] by simp
        obtain b1 where until: "retrieve_until (peek b + ?k + 2) b = Some b1"
          and ok1: "buf_ok b1" "contents b1 = drop (?k + 2) ?cs" by (rule retrieve_line [OF "1.prems" k2])
        have "map_option (\<lambda>(r, b', x). (r, contents b', x)) (parse_loop m rid b1 q1 s1) =
            parse_text m rid (contents b1) q1 s1"
          by (rule "1.IH" [of ?k "take ?k ?cs" "(True, q1, s1)" True "(q1, s1)"])
            (use run Some x more line len stop until ok1(1) in simp_all)
        with True run line len stop Some x more until ok1(2) show ?thesis
          by (auto simp: parse_loop.simps [of m rid b] parse_text.simps [of m rid ?cs] Let_def)
      qed
    qed
  next
    case False
    with len show ?thesis
      by (auto simp: parse_loop.simps [of m rid b] parse_text.simps [of m rid ?cs])
  qed
qed

lemma parse_loop_ok:
  "buf_ok b \<Longrightarrow> parse_loop m rid b q s = Some (r, b', q', s') \<Longrightarrow> buf_ok b'"
proof (induction m rid b q s rule: parse_loop.induct)
  case (1 m rid b q s)
  have "retrieve_until p b = Some b1 \<Longrightarrow> buf_ok b1" for p b1
    using retrieve_ok [OF "1.prems"(1)] by (auto simp: retrieve_until_def split: if_splits)
  with 1 retrieve_all_ok [of b] show ?case
    by (auto simp: parse_loop.simps [of m rid b] Let_def split: if_splits option.splits bool.splits)
qed

section \<open>Printing and parsing\<close>

definition crlf :: string where
  "crlf = [CR, LF]"

fun print_headers :: "(string \<times> string) list \<Rightarrow> string" where
  "print_headers [] = []"
| "print_headers ((k, v) # hs) = k @ '': '' @ v @ crlf @ print_headers hs"

definition print_request :: "string \<Rightarrow> string \<Rightarrow> string \<Rightarrow> (string \<times> string) list \<Rightarrow> string" where
  "print_request mth pth ver hs =
     mth @ '' '' @ pth @ '' HTTP/'' @ ver @ crlf @ print_headers hs @ crlf"

definition plain :: "string \<Rightarrow> bool" where
  "plain s \<longleftrightarrow> CR \<notin> set s \<and> LF \<notin> set s"

definition no_space :: "string \<Rightarrow> bool" where
  "no_space s \<longleftrightarrow> plain s \<and> CHR '' '' \<notin> set s"

definition good_header :: "string \<times> string \<Rightarrow> bool" where
  "good_header = (\<lambda>(k, v). plain k \<and> CHR '':'' \<notin> set k \<and> plain v)"

lemma takeWhile_stop: "c \<notin> set a \<Longrightarrow> takeWhile (\<lambda>x. x \<noteq> c) (a @ c # r) = a"
  "c \<notin> set a \<Longrightarrow> dropWhile (\<lambda>x. x \<noteq> c) (a @ c # r) = c # r"
  by (auto simp: takeWhile_append dropWhile_append)

lemma match_request_line_print:
  assumes "no_space a" and "no_space b" and "no_space v"
  shows "match_request_line (a @ '' '' @ b @ '' HTTP/'' @ v) = Some (a, b, v)"
  using assms takeWhile_stop [of "CHR '' ''" a "b @ '' HTTP/'' @ v"]
    takeWhile_stop [of "CHR '' ''" b "''HTTP/'' @ v"]
  by (simp add: match_request_line_def Let_def no_space_def)

lemma match_header_print:
  assumes "good_header (k, v)"
  shows "match_header (k @ '': '' @ v) = Some (k, v)"
  using assms takeWhile_stop [of "CHR '':''" k "'' '' @ v"]
  by (simp add: match_header_def Let_def good_header_def plain_def)

lemma parse_text_line:
  assumes "plain l" and "rq_state q \<noteq> FINISH"
    and "parse_line m rid l (length (l @ crlf @ r)) q s = Some (True, q1, s1)"
  shows "parse_text m rid (l @ crlf @ r) q s = parse_text m rid r q1 s1"
  using assms find_crlf_line [of l r]
  by (simp add: parse_text.simps [of m rid "l @ CR # LF # r"] Let_def crlf_def plain_def)

lemma parse_text_headers:
  "\<forall>h\<in>set hs. good_header h \<Longrightarrow> rq_state q = HEADERS \<Longrightarrow>
   parse_text m rid (print_headers hs @ crlf @ r) q s =
   parse_text m rid (crlf @ r) (q\<lparr>rq_header := rq_header q ++ map_of (rev hs)\<rparr>) s"
proof (induction hs arbitrary: q)
  case (Cons h hs)
  obtain k v where h: "h = (k, v)" by (cases h)
  have l: "plain (k @ '': '' @ v)"
    using Cons.prems(1) h by (auto simp: good_header_def plain_def CR_def LF_def)
  have pl: "parse_line m rid (k @ '': '' @ v) (length ((k @ '': '' @ v) @ crlf @ print_headers hs @ crlf @ r)) q s =
      Some (True, q\<lparr>rq_header := (rq_header q)(k \<mapsto> v)\<rparr>, s)"
    using Cons.prems match_header_print [of k v] h
    by (simp add: parse_line_def Let_def ParseHeader_def crlf_def)
  have "parse_text m rid (print_headers (h # hs) @ crlf @ r) q s =
      parse_text m rid (print_headers hs @ crlf @ r) (q\<lparr>rq_header := (rq_header q)(k \<mapsto> v)\<rparr>) s"
    using parse_text_line [OF l _ pl] Cons.prems(2) h by simp
  also have "\<dots> = parse_text m rid (crlf @ r)
      (q\<lparr>rq_header := ((rq_header q)(k \<mapsto> v)) ++ map_of (rev hs)\<rparr>) s"
    using Cons.IH [of "q\<lparr>rq_header := (rq_header q)(k \<mapsto> v)\<rparr>"] Cons.prems by (simp add: fun_upd_def)
  also have "((rq_header q)(k \<mapsto> v)) ++ map_of (rev hs) = rq_header q ++ map_of (rev (h # hs))"
    by (rule ext) (simp add: h map_add_def split: option.splits)
  finally show ?case .
qed (simp add: crlf_def)

definition site_path :: "string \<Rightarrow> string" where
  "site_path p = (if p = ''/'' then ''/index.html'' else if p \<in> set DEFAULT_HTML then p @ ''.html'' else p)"

lemma parse_text_request_line:
  assumes "no_space mth" and "no_space pth" and "no_space ver"
  shows "parse_text m rid (mth @ '' '' @ pth @ '' HTTP/'' @ ver @ crlf @ r) HttpRequest_Init s =
    parse_text m rid r (HttpRequest_Init\<lparr>rq_method := mth, rq_path := site_path pth, rq_version := ver,
      rq_state := HEADERS\<rparr>) s"
proof -
  let ?l = "mth @ '' '' @ pth @ '' HTTP/'' @ ver"
  have "plain ?l" using assms by (auto simp: no_space_def plain_def CR_def LF_def)
  moreover have "parse_line m rid ?l (length (?l @ crlf @ r)) HttpRequest_Init s =
      Some (True, HttpRequest_Init\<lparr>rq_method := mth, rq_path := site_path pth, rq_version := ver,
        rq_state := HEADERS\<rparr>, s)"
    using match_request_line_print [OF assms]
    by (simp add: parse_line_def ParseRequestLine_def ParsePath_def site_path_def HttpRequest_Init_def)
  ultimately show ?thesis
    using parse_text_line [of ?l HttpRequest_Init m rid r s] by (simp add: HttpRequest_Init_def)
qed

lemma match_header_nil: "match_header [] = None"
  by (simp add: match_header_def)

text \<open>The blank line after the headers.\<close>

lemma parse_text_blank:
  assumes "rq_state q = HEADERS"
  shows "parse_text m rid (crlf @ r) q s =
    (if r = [] then Some (True, [], q\<lparr>rq_state := FINISH\<rparr>, s)
     else parse_text m rid r (q\<lparr>rq_state := BODY\<rparr>) s)"
  using parse_text_line [of "[]" q m rid r s] assms
  by (auto simp: plain_def parse_line_def Let_def ParseHeader_def match_header_nil crlf_def
      parse_text.simps [of m rid "[]"])

lemma parse_refines:
  assumes "buf_ok b" and "contents b \<noteq> []"
    and "parse_text m rid (contents b) q s = Some (r, cs, q', s')"
  shows "\<exists>b'. parse m rid b q s = Some (r, b', q', s') \<and> buf_ok b' \<and> contents b' = cs"
  using assms parse_loop_text [OF assms(1), of m rid q s] parse_loop_ok [OF assms(1)]
  by (auto simp: parse_def readable_bytes_contents)

text \<open>Property C28. A request without a body that has arrived completely and alone is parsed back
  into its parts: the method, the path (with the site's default pages), the version and, for each
  header name, the last value given; the parser ends in \<open>FINISH\<close> and consumes everything.\<close>

theorem http_request_roundtrip:
  assumes "no_space mth" and "no_space pth" and "no_space ver" and "\<forall>h\<in>set hs. good_header h"
    and b: "buf_ok b" "contents b = print_request mth pth ver hs"
  shows "\<exists>b' q. parse m rid b HttpRequest_Init s = Some (True, b', q, s) \<and> contents b' = [] \<and>
    rq_method q = mth \<and> rq_path q = site_path pth \<and> rq_version q = ver \<and>
    rq_header q = map_of (rev hs) \<and> rq_state q = FINISH"
proof -
  let ?q = "HttpRequest_Init\<lparr>rq_method := mth, rq_path := site_path pth, rq_version := ver,
    rq_state := HEADERS\<rparr>"
  have "parse_text m rid (contents b) HttpRequest_Init s =
      parse_text m rid (print_headers hs @ crlf @ []) ?q s"
    using parse_text_request_line [OF assms(1-3), of m rid "print_headers hs @ crlf"] b(2)
    by (simp add: print_request_def)
  also have "\<dots> = Some (True, [], ?q\<lparr>rq_header := map_of (rev hs), rq_state := FINISH\<rparr>, s)"
    using parse_text_headers [OF assms(4), of ?q m rid "[]" s]
      parse_text_blank [of "?q\<lparr>rq_header := map_of (rev hs)\<rparr>" m rid "[]" s]
    by (simp add: HttpRequest_Init_def)
  finally have "parse_text m rid (contents b) HttpRequest_Init s =
      Some (True, [], ?q\<lparr>rq_header := map_of (rev hs), rq_state := FINISH\<rparr>, s)" .
  moreover have "contents b \<noteq> []" using b(2) by (simp add: print_request_def)
  ultimately show ?thesis using parse_refines [OF b(1)] by fastforce
qed

text \<open>Pipelining is not supported, silently: behind a request without a body, the next
  line in the buffer (the request line of the following request) is taken as the body of the first
  one and consumed with it.\<close>

lemma pipelined_request_line_lost:
  assumes "no_space mth" and "no_space pth" and "no_space ver" and "\<forall>h\<in>set hs. good_header h"
    and "mth \<noteq> ''POST''" and "plain next"
    and b: "buf_ok b" "contents b = print_request mth pth ver hs @ next @ crlf @ rest"
  shows "\<exists>b' q. parse m rid b HttpRequest_Init s = Some (True, b', q, s) \<and> contents b' = rest \<and>
    rq_path q = site_path pth \<and> rq_body q = next \<and> rq_state q = FINISH"
proof -
  let ?q = "HttpRequest_Init\<lparr>rq_method := mth, rq_path := site_path pth, rq_version := ver,
    rq_state := HEADERS\<rparr>"
  let ?qb = "?q\<lparr>rq_header := map_of (rev hs), rq_state := BODY\<rparr>"
  have "parse_text m rid (contents b) HttpRequest_Init s =
      parse_text m rid (print_headers hs @ crlf @ next @ crlf @ rest) ?q s"
    using parse_text_request_line [OF assms(1-3), of m rid "print_headers hs @ crlf @ next @ crlf @ rest"] b(2)
    by (simp add: print_request_def)
  also have "\<dots> = parse_text m rid (next @ crlf @ rest) ?qb s"
    using parse_text_headers [OF assms(4), of ?q m rid "next @ crlf @ rest" s]
      parse_text_blank [of "?q\<lparr>rq_header := map_of (rev hs)\<rparr>" m rid "next @ crlf @ rest" s]
    by (simp add: HttpRequest_Init_def crlf_def)
  also have "\<dots> = parse_text m rid rest (?qb\<lparr>rq_body := next, rq_state := FINISH\<rparr>) s"
    by (rule parse_text_line [OF \<open>plain next\<close>])
      (use \<open>mth \<noteq> ''POST''\<close> in \<open>simp_all add: parse_line_def ParseBody_def ParsePost_def\<close>)
  also have "\<dots> = Some (True, rest, ?qb\<lparr>rq_body := next, rq_state := FINISH\<rparr>, s)"
    by (simp add: parse_text.simps)
  finally have "parse_text m rid (contents b) HttpRequest_Init s =
      Some (True, rest, ?qb\<lparr>rq_body := next, rq_state := FINISH\<rparr>, s)" .
  moreover have "contents b \<noteq> []" using b(2) by (simp add: print_request_def)
  ultimately show ?thesis using parse_refines [OF b(1)] by fastforce
qed

text \<open>A request that arrives in pieces is answered after the first piece: if the buffer
  holds the request line and the beginning of a header, the parser reports success and discards
  what it has seen.\<close>

lemma fragment_accepted:
  assumes "no_space mth" and "no_space pth" and "no_space ver" and "plain frag" and "frag \<noteq> []"
    and b: "buf_ok b" "contents b = mth @ '' '' @ pth @ '' HTTP/'' @ ver @ crlf @ frag"
  shows "\<exists>b' q. parse m rid b HttpRequest_Init s = Some (True, b', q, s) \<and> contents b' = [] \<and>
    rq_path q = site_path pth"
proof -
  let ?q = "HttpRequest_Init\<lparr>rq_method := mth, rq_path := site_path pth, rq_version := ver,
    rq_state := HEADERS\<rparr>"
  have "parse_text m rid (contents b) HttpRequest_Init s = parse_text m rid frag ?q s"
    using parse_text_request_line [OF assms(1-3), of m rid frag s] b(2) by simp
  moreover have "\<exists>q. parse_text m rid frag ?q s = Some (True, [], q, s) \<and> rq_path q = site_path pth"
    using assms(4,5) find_crlf_none [of frag]
    by (auto simp: parse_text.simps [of m rid frag] parse_line_def ParseHeader_def plain_def Let_def
        HttpRequest_Init_def split: option.splits)
  moreover have "contents b \<noteq> []" using b(2) by simp
  ultimately show ?thesis using parse_refines [OF b(1)] by fastforce
qed

lemma filled_buffer:
  obtains b where "buf_append cs (Buffer_new 16) = Some b" and "buf_ok b" and "contents b = cs"
  using buf_append_Some [OF buf_ok_new [of 16], of cs] by auto

lemmas text_defs = no_space_def plain_def good_header_def CR_def LF_def

theorem http_request_roundtrip_witness:
  "\<exists>b b' q. buf_append (print_request ''GET'' ''/login'' ''1.1'' [(''Host'', ''x'')]) (Buffer_new 16) = Some b \<and>
    parse mem_mysql 5 b HttpRequest_Init ex_view = Some (True, b', q, ex_view) \<and> contents b' = [] \<and>
    rq_path q = ''/login.html'' \<and> rq_header q = [''Host'' \<mapsto> ''x'']"
proof -
  obtain b where b: "buf_append (print_request ''GET'' ''/login'' ''1.1'' [(''Host'', ''x'')]) (Buffer_new 16) = Some b"
    "buf_ok b" "contents b = print_request ''GET'' ''/login'' ''1.1'' [(''Host'', ''x'')]"
    by (rule filled_buffer)
  have "\<exists>b' q. parse mem_mysql 5 b HttpRequest_Init ex_view = Some (True, b', q, ex_view) \<and> contents b' = [] \<and>
    rq_method q = ''GET'' \<and> rq_path q = site_path ''/login'' \<and> rq_version q = ''1.1'' \<and>
    rq_header q = map_of (rev [(''Host'', ''x'')]) \<and> rq_state q = FINISH"
    by (rule http_request_roundtrip [OF _ _ _ _ b(2,3)]) (simp_all add: text_defs)
  with b(1) show ?thesis by (auto simp: site_path_def DEFAULT_HTML_def)
qed

theorem pipelined_request_line_lost_witness:
  "\<exists>b b' q. buf_append (print_request ''GET'' ''/a'' ''1.1'' [] @ ''GET /b HTTP/1.1'' @ crlf @ crlf) (Buffer_new 16) = Some b \<and>
    parse mem_mysql 5 b HttpRequest_Init ex_view = Some (True, b', q, ex_view) \<and> contents b' = crlf \<and>
    rq_path q = site_path ''/a'' \<and> rq_body q = ''GET /b HTTP/1.1'' \<and> rq_state q = FINISH"
proof -
  obtain b where b: "buf_append (print_request ''GET'' ''/a'' ''1.1'' [] @ ''GET /b HTTP/1.1'' @ crlf @ crlf) (Buffer_new 16) = Some b"
    "buf_ok b" "contents b = print_request ''GET'' ''/a'' ''1.1'' [] @ ''GET /b HTTP/1.1'' @ crlf @ crlf"
    by (rule filled_buffer)
  have "\<exists>b' q. parse mem_mysql 5 b HttpRequest_Init ex_view = Some (True, b', q, ex_view) \<and> contents b' = crlf \<and>
    rq_path q = site_path ''/a'' \<and> rq_body q = ''GET /b HTTP/1.1'' \<and> rq_state q = FINISH"
    by (rule pipelined_request_line_lost [OF _ _ _ _ _ _ b(2,3)]) (simp_all add: text_defs)
  with b(1) show ?thesis by blast
qed

theorem fragment_accepted_witness:
  "\<exists>b b' q. buf_append (''GET'' @ '' '' @ ''/a'' @ '' HTTP/'' @ ''1.1'' @ crlf @ ''Hos'') (Buffer_new 16) = Some b \<and>
    parse mem_mysql 5 b HttpRequest_Init ex_view = Some (True, b', q, ex_view) \<and> contents b' = [] \<and>
    rq_path q = site_path ''/a''"
proof -
  obtain b where b: "buf_append (''GET'' @ '' '' @ ''/a'' @ '' HTTP/'' @ ''1.1'' @ crlf @ ''Hos'') (Buffer_new 16) = Some b"
    "buf_ok b" "contents b = ''GET'' @ '' '' @ ''/a'' @ '' HTTP/'' @ ''1.1'' @ crlf @ ''Hos''"
    by (rule filled_buffer)
  have "\<exists>b' q. parse mem_mysql 5 b HttpRequest_Init ex_view = Some (True, b', q, ex_view) \<and> contents b' = [] \<and>
    rq_path q = site_path ''/a''"
    by (rule fragment_accepted [OF _ _ _ _ _ b(2,3)]) (simp_all add: text_defs)
  with b(1) show ?thesis by blast
qed

section \<open>Form fields\<close>

definition form_plain :: "string \<Rightarrow> bool" where
  "form_plain s \<longleftrightarrow> (\<forall>c\<in>set s. c \<notin> {CHR ''='', CHR ''+'', CHR ''%'', CHR ''&''})"

fun form_body :: "(string \<times> string) list \<Rightarrow> string" where
  "form_body [] = []"
| "form_body [(k, v)] = k @ ''='' @ v"
| "form_body ((k, v) # p # ps) = k @ ''='' @ v @ ''&'' @ form_body (p # ps)"

lemma loop_skip:
  "form_plain w \<Longrightarrow> body = pre @ w @ post \<Longrightarrow>
   urlencoded_loop (length pre) j key body f = urlencoded_loop (length pre + length w) j key body f"
proof (induction w arbitrary: pre)
  case (Cons c w)
  have "urlencoded_loop (length pre) j key body f = urlencoded_loop (length (pre @ [c])) j key body f"
    using Cons.prems
    by (simp add: urlencoded_loop.simps [of "length pre"] form_plain_def Let_def)
  also have "\<dots> = urlencoded_loop (length (pre @ [c]) + length w) j key body f"
    by (rule Cons.IH) (use Cons.prems in \<open>auto simp: form_plain_def\<close>)
  finally show ?case by simp
qed simp

lemma loop_key:
  assumes "form_plain k" and "body = pre @ k @ ''='' @ r"
  shows "urlencoded_loop (length pre) (length pre) key body f =
    urlencoded_loop (length (pre @ k @ ''='')) (length (pre @ k @ ''='')) k body f"
proof -
  have "urlencoded_loop (length pre) (length pre) key body f =
      urlencoded_loop (length pre + length k) (length pre) key body f"
    by (rule loop_skip) (use assms in auto)
  also have "\<dots> = urlencoded_loop (length (pre @ k @ ''='')) (length (pre @ k @ ''='')) k body f"
    using assms(2)
    by (simp add: urlencoded_loop.simps [of "length pre + length k"] Let_def substr_def nth_append)
  finally show ?thesis .
qed

lemma loop_form:
  assumes "ps \<noteq> []" and "\<forall>(k, v)\<in>set ps. form_plain k \<and> form_plain v" and "body = pre @ form_body ps"
  shows "urlencoded_loop (length pre) (length pre) key body f =
    Some (length body, length body - length (snd (last ps)), fst (last ps), body,
      f ++ map_of (rev (butlast ps)))"
  using assms
proof (induction ps arbitrary: pre key f rule: form_body.induct)
  case (2 k v)
  have "urlencoded_loop (length pre) (length pre) key body f =
      urlencoded_loop (length (pre @ k @ ''='')) (length (pre @ k @ ''='')) k body f"
    by (rule loop_key [of _ _ _ v]) (use "2.prems" in auto)
  also have "\<dots> = urlencoded_loop (length (pre @ k @ ''='') + length v) (length (pre @ k @ ''='')) k body f"
    by (rule loop_skip [of _ _ _ "[]"]) (use "2.prems" in auto)
  also have "\<dots> = Some (length body, length body - length v, k, body, f)"
    using "2.prems"(3) by (simp add: urlencoded_loop.simps)
  finally show ?case by simp
next
  case (3 k v p ps)
  let ?pre = "pre @ k @ ''='' @ v @ ''&''"
  have "urlencoded_loop (length pre) (length pre) key body f =
      urlencoded_loop (length (pre @ k @ ''='')) (length (pre @ k @ ''='')) k body f"
    by (rule loop_key [of _ _ _ "v @ ''&'' @ form_body (p # ps)"]) (use "3.prems" in auto)
  also have "\<dots> = urlencoded_loop (length (pre @ k @ ''='') + length v) (length (pre @ k @ ''='')) k body f"
    by (rule loop_skip [of _ _ _ "''&'' @ form_body (p # ps)"]) (use "3.prems" in auto)
  also have "\<dots> = urlencoded_loop (length ?pre) (length ?pre) k body (f(k \<mapsto> v))"
    using "3.prems"(3)
    by (simp add: urlencoded_loop.simps [of "Suc (length pre + (length k + length v))"] Let_def substr_def
        nth_append add.assoc)
  also have "\<dots> = Some (length body, length body - length (snd (last (p # ps))), fst (last (p # ps)), body,
      f(k \<mapsto> v) ++ map_of (rev (butlast (p # ps))))"
    by (rule "3.IH") (use "3.prems" in auto)
  also have "f(k \<mapsto> v) ++ map_of (rev (butlast (p # ps))) = f ++ map_of (rev (butlast ((k, v) # p # ps)))"
    by (rule ext) (simp add: map_add_def split: option.splits)
  finally show ?case by simp
qed simp

lemma form_body_last: "\<exists>w. form_body (ps @ [(k, v)]) = w @ ''='' @ v"
proof (induction ps)
  case (Cons p ps)
  obtain a b where p: "p = (a, b)" by (cases p)
  from Cons.IH obtain w where "form_body (ps @ [(k, v)]) = w @ ''='' @ v" ..
  then have "form_body ((p # ps) @ [(k, v)]) = (a @ ''='' @ b @ ''&'' @ w) @ ''='' @ v"
    by (cases ps) (auto simp: p)
  then show ?case by blast
qed auto

text \<open>A form whose field names and values contain none of the characters the decoder
  treats specially, with distinct names and a non-empty last value, is decoded to exactly its
  fields.\<close>

lemma form_roundtrip:
  assumes "ps \<noteq> []" and "\<forall>(k, v)\<in>set ps. form_plain k \<and> form_plain v" and "distinct (map fst ps)"
    and "snd (last ps) \<noteq> []" and q: "rq_body q = form_body ps" "rq_post q = Map.empty"
  shows "\<exists>q'. ParseFromUrlencoded q = Some q' \<and> rq_post q' = map_of ps \<and> rq_body q' = rq_body q"
proof -
  obtain ps' k v where ps: "ps = ps' @ [(k, v)]" using assms(1) by (metis prod.exhaust rev_exhaust)
  obtain w where w: "form_body ps = w @ ''='' @ v" using form_body_last [of ps' k v] ps by auto
  then have body: "form_body ps \<noteq> []" "length v \<le> length (form_body ps)"
    "drop (length (form_body ps) - length v) (form_body ps) = v" by simp_all
  have loop: "urlencoded_loop 0 0 [] (form_body ps) Map.empty =
      Some (length (form_body ps), length (form_body ps) - length v, k, form_body ps, map_of (rev ps'))"
    using loop_form [OF assms(1,2), of "form_body ps" "[]" "[]" Map.empty] ps by simp
  have "map_of (rev ps') k = None" using assms(3) ps by (auto simp: map_of_eq_None_iff)
  moreover have "(map_of (rev ps'))(k \<mapsto> v) = map_of ps"
    using map_of_inject_set [of "(k, v) # rev ps'" ps] assms(3) ps by (auto simp: rev_map [symmetric])
  ultimately show ?thesis
    using loop body q assms(4) ps by (simp add: ParseFromUrlencoded_def substr_def)
qed

text \<open>So a field of the form is read back under its name, and an absent one as the empty text; the two
  versions of \<open>GetPost\<close> differ in the empty name only.\<close>

lemma form_field_read:
  assumes "ps \<noteq> []" and "\<forall>(k, v)\<in>set ps. form_plain k \<and> form_plain v" and "distinct (map fst ps)"
    and "snd (last ps) \<noteq> []" and "rq_body q = form_body ps" "rq_post q = Map.empty" and "key \<noteq> []"
  shows "\<exists>q'. ParseFromUrlencoded q = Some q' \<and> GetPost_cstr (Some key) q' = GetPost key q' \<and>
    GetPost key q' = Some (case map_of ps key of Some v \<Rightarrow> v | None \<Rightarrow> [])"
  using form_roundtrip [OF assms(1-6)] assms(7) by (auto simp: GetPost_def GetPost_cstr_def)

theorem form_roundtrip_witness:
  "\<exists>q'. ParseFromUrlencoded (HttpRequest_Init\<lparr>rq_body := ''username=ann&password=pa''\<rparr>) = Some q' \<and>
    rq_post q' = [''username'' \<mapsto> ''ann'', ''password'' \<mapsto> ''pa''] \<and> rq_body q' = ''username=ann&password=pa''"
  using form_roundtrip [of "[(''username'', ''ann''), (''password'', ''pa'')]"
      "HttpRequest_Init\<lparr>rq_body := ''username=ann&password=pa''\<rparr>"]
  by (simp add: form_plain_def HttpRequest_Init_def fun_upd_twist)

text \<open>Percent-encoding is not decoded: \<open>ConvertHex\<close> returns the code of a
  decimal digit instead of its value, and the two computed characters replace the digits, so that
  the encoded space in a field value becomes a percent sign and two other characters.\<close>

lemma percent_decoding_wrong:
  "map_option (\<lambda>q. rq_post q ''n'') (ParseFromUrlencoded (HttpRequest_Init\<lparr>rq_body := ''n=a%20b''\<rparr>)) =
   Some (Some [CHR ''a'', CHR ''%'', CHR 0x84, CHR ''8'', CHR ''b''])"
  by (simp add: ParseFromUrlencoded_def HttpRequest_Init_def urlencoded_loop.simps Let_def substr_def
      ConvertHex_def schar_def to_char_def char_of_def bit_0)

text \<open>A percent sign in the last two positions of a form body makes the decoder write
  behind the end of the string.\<close>

lemma percent_at_end_out_of_range:
  assumes "form_plain w" and "length r < 2" and "rq_body q = w @ ''%'' @ r"
  shows "ParseFromUrlencoded q = None"
proof -
  have "urlencoded_loop 0 0 [] (rq_body q) (rq_post q) =
      urlencoded_loop (length w) 0 [] (rq_body q) (rq_post q)"
    using loop_skip [OF assms(1), of "rq_body q" "[]" "''%'' @ r"] assms(3) by simp
  also have "\<dots> = None"
    using assms(2,3) by (simp add: urlencoded_loop.simps [of "length w"] Let_def)
  finally show ?thesis using assms(3) by (simp add: ParseFromUrlencoded_def)
qed

theorem percent_at_end_out_of_range_witness:
  "ParseFromUrlencoded (HttpRequest_Init\<lparr>rq_body := ''pw'' @ ''%'' @ ''4''\<rparr>) = None"
  by (rule percent_at_end_out_of_range [of "''pw''" "''4''"]) (simp_all add: form_plain_def)

end
