(* ===== verification/Http_Response.thy ===== *)
theory Http_Response
  imports Http_Request
begin

text \<open>
  HTTP responses and the HTTP handler (\<open>server/src/http/httpreponse.cpp\<close>,
  \<open>server/src/handler/http_handler.cpp\<close>).

  Model. The file system is the argument \<open>fs\<close>: \<open>stat\<close>, \<open>open\<close> and \<open>mmap\<close> as
  functions of the path. \<open>AddContent_\<close> dereferences what \<open>mmap\<close> returns before it knows
  that the call succeeded, so a failed \<open>mmap\<close> ends the process: the result \<open>None\<close>.
\<close>

section \<open>State\<close>

record file_stat =
  st_isdir :: bool
  st_iroth :: bool
  st_size :: nat

record file_system =
  fs_stat :: "string \<Rightarrow> file_stat option"
  fs_open :: "string \<Rightarrow> bool"
  fs_mmap :: "string \<Rightarrow> nat \<Rightarrow> bytes option"

record http_response =
  rs_code :: int
  rs_keep_alive :: bool
  rs_path :: string
  rs_srcDir :: string
  rs_mmFile :: "bytes option"
  rs_mmFileStat :: file_stat

definition zero_stat :: file_stat where
  "zero_stat = \<lparr>st_isdir = False, st_iroth = False, st_size = 0\<rparr>"

definition HttpResponse_new :: http_response where
  "HttpResponse_new = \<lparr>rs_code = -1, rs_keep_alive = False, rs_path = [], rs_srcDir = [],
     rs_mmFile = None, rs_mmFileStat = zero_stat\<rparr>"

definition SUFFIX_TYPE :: "string \<Rightarrow> string option" where
  "SUFFIX_TYPE = map_of
     [(''.html'', ''text/html''), (''.xml'', ''text/xml''), (''.xhtml'', ''application/xhtml+xml''),
      (''.txt'', ''text/plain''), (''.rtf'', ''application/rtf''), (''.pdf'', ''application/pdf''),
      (''.word'', ''application/nsword''), (''.png'', ''image/png''), (''.gif'', ''image/gif''),
      (''.jpg'', ''image/jpeg''), (''.jpeg'', ''image/jpeg''), (''.au'', ''audio/basic''),
      (''.mpeg'', ''video/mpeg''), (''.mpg'', ''video/mpeg''), (''.avi'', ''video/x-msvideo''),
      (''.gz'', ''application/x-gzip''), (''.tar'', ''application/x-tar''), (''.css'', ''text/css ''),
      (''.js'', ''text/javascript '')]"

definition CODE_STATUS :: "int \<Rightarrow> string option" where
  "CODE_STATUS = map_of [(200, ''OK''), (400, ''Bad Request''), (403, ''Forbidden''), (404, ''Not Found'')]"

definition CODE_PATH :: "int \<Rightarrow> string option" where
  "CODE_PATH = map_of [(400, ''/400.html''), (403, ''/403.html''), (404, ''/404.html'')]"

section \<open>Operations\<close>

definition UnmapFile :: "http_response \<Rightarrow> http_response" where
  "UnmapFile r = r\<lparr>rs_mmFile := None\<rparr>"

definition HttpResponse_Init :: "string \<Rightarrow> string \<Rightarrow> bool \<Rightarrow> int \<Rightarrow> http_response \<Rightarrow> http_response option" where
  "HttpResponse_Init srcDir path isKeepAlive code r =
     (if srcDir = [] then None
      else let r1 = (if rs_mmFile r \<noteq> None then UnmapFile r else r) in
        Some (r1\<lparr>rs_code := code, rs_keep_alive := isKeepAlive, rs_path := path, rs_srcDir := srcDir,
          rs_mmFile := None, rs_mmFileStat := zero_stat\<rparr>))"

definition File :: "http_response \<Rightarrow> bytes option" where
  "File r = rs_mmFile r"

definition FileLen :: "http_response \<Rightarrow> nat" where
  "FileLen r = st_size (rs_mmFileStat r)"

text \<open>\<open>stat\<close> fills the structure only when it succeeds.\<close>

definition stat_into :: "file_system \<Rightarrow> http_response \<Rightarrow> bool \<times> http_response" where
  "stat_into fs r =
     (case fs_stat fs (rs_srcDir r @ rs_path r) of
        None \<Rightarrow> (False, r)
      | Some st \<Rightarrow> (True, r\<lparr>rs_mmFileStat := st\<rparr>))"

definition ErrorHtml :: "file_system \<Rightarrow> http_response \<Rightarrow> http_response" where
  "ErrorHtml fs r =
     (case CODE_PATH (rs_code r) of
        None \<Rightarrow> r
      | Some p \<Rightarrow> snd (stat_into fs (r\<lparr>rs_path := p\<rparr>)))"

definition int_to_string :: "int \<Rightarrow> string" where
  "int_to_string n = (if n < 0 then ''-'' @ to_string (nat (- n)) else to_string (nat n))"

definition AddStateLine :: "http_response \<Rightarrow> buffer \<Rightarrow> (http_response \<times> buffer) option" where
  "AddStateLine r buff =
     (let (r1, status) = (case CODE_STATUS (rs_code r) of
            Some st \<Rightarrow> (r, st) | None \<Rightarrow> (r\<lparr>rs_code := 400\<rparr>, ''Bad Request''))
      in do { b \<leftarrow> buf_append (''HTTP/1.1 '' @ int_to_string (rs_code r1) @ '' '' @ status @ crlf) buff;
              Some (r1, b) })"

definition GetFileType :: "http_response \<Rightarrow> string" where
  "GetFileType r =
     (if CHR ''.'' \<notin> set (rs_path r) then ''text/plain''
      else let suffix = CHR ''.'' # rev (takeWhile (\<lambda>c. c \<noteq> CHR ''.'') (rev (rs_path r))) in
        case SUFFIX_TYPE suffix of Some t \<Rightarrow> t | None \<Rightarrow> ''text/plain'')"

definition AddHeader :: "http_response \<Rightarrow> buffer \<Rightarrow> buffer option" where
  "AddHeader r buff =
     do { b1 \<leftarrow> buf_append ''Connection: '' buff;
          b2 \<leftarrow> (if rs_keep_alive r
                then do { b \<leftarrow> buf_append (''keep-alive'' @ crlf) b1;
                          buf_append (''keep-alive: max=6, timeout=120'' @ crlf) b }
                else buf_append (''close'' @ crlf) b1);
          buf_append (''Content-type: '' @ GetFileType r @ crlf) b2 }"

definition error_body :: "http_response \<Rightarrow> string \<Rightarrow> string" where
  "error_body r message =
     ''<html><title>Error</title>'' @ ''<body bgcolor='' @ [CHR 0x22] @ ''ffffff'' @ [CHR 0x22] @ ''>'' @
     int_to_string (rs_code r) @ '' : '' @
     (case CODE_STATUS (rs_code r) of Some st \<Rightarrow> st | None \<Rightarrow> ''Bad Request'') @ [LF] @
     ''<p>'' @ message @ ''</p>'' @ ''<hr><em>WebServer</em></body></html>''"

definition ErrorContent :: "string \<Rightarrow> http_response \<Rightarrow> buffer \<Rightarrow> buffer option" where
  "ErrorContent message r buff =
     (let body = error_body r message in
      do { b \<leftarrow> buf_append (''Content-length: '' @ to_string (length body) @ crlf @ crlf) buff;
           buf_append body b })"

text \<open>The test \<open>*mmRet == -1\<close> looks at the first four bytes of the mapped page.\<close>

definition all_ones :: "bytes \<Rightarrow> bool" where
  "all_ones page \<longleftrightarrow> take 4 page = replicate 4 (CHR 0xFF)"

definition AddContent :: "file_system \<Rightarrow> http_response \<Rightarrow> buffer \<Rightarrow> (http_response \<times> buffer) option" where
  "AddContent fs r buff =
     (let name = rs_srcDir r @ rs_path r in
      if \<not> fs_open fs name then do { b \<leftarrow> ErrorContent ''File NotFound!'' r buff; Some (r, b) }
      else do {
        mmRet \<leftarrow> fs_mmap fs name (st_size (rs_mmFileStat r));
        if all_ones mmRet then do { b \<leftarrow> ErrorContent ''File NotFound!'' r buff; Some (r, b) }
        else do {
          b \<leftarrow> buf_append (''Content-length: '' @ to_string (st_size (rs_mmFileStat r)) @ crlf @ crlf) buff;
          Some (r\<lparr>rs_mmFile := Some mmRet\<rparr>, b) } })"

definition response_code :: "file_system \<Rightarrow> http_response \<Rightarrow> http_response" where
  "response_code fs r =
     (let (found, r1) = stat_into fs r in
      if \<not> found \<or> st_isdir (rs_mmFileStat r1) then r1\<lparr>rs_code := 404\<rparr>
      else if \<not> st_iroth (rs_mmFileStat r1) then r1\<lparr>rs_code := 403\<rparr>
      else if rs_code r1 = -1 then r1\<lparr>rs_code := 200\<rparr>
      else r1)"

definition MakeResponse :: "file_system \<Rightarrow> http_response \<Rightarrow> buffer \<Rightarrow> (http_response \<times> buffer) option" where
  "MakeResponse fs r buff =
     do { (r1, b1) \<leftarrow> AddStateLine (ErrorHtml fs (response_code fs r)) buff;
          b2 \<leftarrow> AddHeader r1 b1;
          AddContent fs r1 b2 }"

section \<open>HttpHandler\<close>

record http_handler =
  hh_request :: http_request
  hh_response :: http_response

definition HttpHandler_new :: http_handler where
  "HttpHandler_new = \<lparr>hh_request = HttpRequest_Init, hh_response = HttpResponse_new\<rparr>"

definition HttpHandler_Process ::
  "'db mysql \<Rightarrow> u64 \<Rightarrow> file_system \<Rightarrow> string \<Rightarrow> http_handler \<Rightarrow> buffer \<Rightarrow> buffer \<Rightarrow> 'db \<Rightarrow>
   (bool \<times> http_handler \<times> buffer \<times> buffer \<times> 'db) option" where
  "HttpHandler_Process m rid fs src_dir h read_buff write_buff s =
     (if readable_bytes read_buff = 0
      then Some (False, h\<lparr>hh_request := HttpRequest_Init\<rparr>, read_buff, write_buff, s)
      else do {
        (ok, rb, q, s1) \<leftarrow> parse m rid read_buff HttpRequest_Init s;
        r1 \<leftarrow> (if ok then HttpResponse_Init src_dir (rq_path q) (IsKeepAlive q) 200 (hh_response h)
              else HttpResponse_Init src_dir (rq_path q) False 400 (hh_response h));
        (r2, wb) \<leftarrow> MakeResponse fs r1 write_buff;
        Some (True, \<lparr>hh_request = q, hh_response = r2\<rparr>, rb, wb, s1) })"

section \<open>What is sent\<close>

text \<open>An operation that, from every buffer, succeeds and appends exactly \<open>str\<close>.\<close>

definition emits :: "(buffer \<Rightarrow> buffer option) \<Rightarrow> bytes \<Rightarrow> bool" where
  "emits f str \<longleftrightarrow> (\<forall>b. buf_ok b \<longrightarrow> (\<exists>b'. f b = Some b' \<and> buf_ok b' \<and> contents b' = contents b @ str))"

lemma emits_append: "emits (buf_append str) str"
  unfolding emits_def by (metis buf_append_Some)

lemma emits_seq:
  assumes "emits f x" and "emits g y"
  shows "emits (\<lambda>b. Option.bind (f b) g) (x @ y)"
  unfolding emits_def
proof (intro allI impI)
  fix b assume "buf_ok b"
  then obtain b1 where "f b = Some b1" "buf_ok b1" "contents b1 = contents b @ x"
    using assms(1) by (auto simp: emits_def)
  moreover from this obtain b2 where "g b1 = Some b2" "buf_ok b2" "contents b2 = contents b1 @ y"
    using assms(2) by (auto simp: emits_def)
  ultimately show "\<exists>b'. Option.bind (f b) g = Some b' \<and> buf_ok b' \<and> contents b' = contents b @ x @ y"
    by simp
qed

lemma emitsE:
  assumes "emits f str" and "buf_ok b"
  obtains b' where "f b = Some b'" and "buf_ok b'" and "contents b' = contents b @ str"
  using assms by (auto simp: emits_def)

definition status_text :: "http_response \<Rightarrow> string" where
  "status_text r = ''HTTP/1.1 '' @ int_to_string (rs_code r) @ '' '' @
     (case CODE_STATUS (rs_code r) of Some st \<Rightarrow> st | None \<Rightarrow> ''Bad Request'') @ crlf"

definition header_text :: "http_response \<Rightarrow> string" where
  "header_text r = ''Connection: '' @
     (if rs_keep_alive r then ''keep-alive'' @ crlf @ ''keep-alive: max=6, timeout=120'' @ crlf
      else ''close'' @ crlf) @
     ''Content-type: '' @ GetFileType r @ crlf"

definition length_text :: "nat \<Rightarrow> string" where
  "length_text n = ''Content-length: '' @ to_string n @ crlf @ crlf"

lemma AddHeader_emits: "emits (AddHeader r) (header_text r)"
proof -
  have "emits (\<lambda>b1. if rs_keep_alive r
      then do { b \<leftarrow> buf_append (''keep-alive'' @ crlf) b1;
                buf_append (''keep-alive: max=6, timeout=120'' @ crlf) b }
      else buf_append (''close'' @ crlf) b1)
    (if rs_keep_alive r then ''keep-alive'' @ crlf @ ''keep-alive: max=6, timeout=120'' @ crlf
      else ''close'' @ crlf)"
    using emits_seq [OF emits_append emits_append, of "''keep-alive'' @ crlf"
        "''keep-alive: max=6, timeout=120'' @ crlf"] emits_append [of "''close'' @ crlf"]
    by (cases "rs_keep_alive r") simp_all
  from emits_seq [OF emits_append emits_seq [OF this emits_append],
      of "''Connection: ''" "''Content-type: '' @ GetFileType r @ crlf"]
  show ?thesis by (simp add: AddHeader_def [abs_def] header_text_def)
qed

lemma ErrorContent_emits:
  "emits (ErrorContent message r) (length_text (length (error_body r message)) @ error_body r message)"
  using emits_seq [OF emits_append emits_append, of "length_text (length (error_body r message))"
      "error_body r message"]
  by (simp add: ErrorContent_def [abs_def] Let_def length_text_def)

lemma AddStateLine_Some:
  assumes "buf_ok b"
  obtains r' b' where "AddStateLine r b = Some (r', b')" and "buf_ok b'"
    and "contents b' = contents b @ status_text r'"
    and "r' = (if CODE_STATUS (rs_code r) = None then r\<lparr>rs_code := 400\<rparr> else r)"
proof -
  let ?r = "if CODE_STATUS (rs_code r) = None then r\<lparr>rs_code := 400\<rparr> else r"
  obtain b' where b': "buf_append (status_text ?r) b = Some b'" "buf_ok b'"
    "contents b' = contents b @ status_text ?r"
    by (rule buf_append_Some [OF assms])
  have "CODE_STATUS 400 = Some ''Bad Request''" by (simp add: CODE_STATUS_def)
  with b'(1) have "AddStateLine r b = Some (?r, b')"
    by (cases "CODE_STATUS (rs_code r)") (simp_all add: AddStateLine_def status_text_def)
  with b' that show thesis by blast
qed

lemma AddStateLine_known:
  assumes "buf_ok b" and "CODE_STATUS (rs_code r) \<noteq> None"
  obtains b' where "AddStateLine r b = Some (r, b')" and "buf_ok b'"
  using assms(2) by (auto intro: AddStateLine_Some [OF assms(1), of r])

text \<open>The bytes of the mapped file that \<open>setup_iov_for_http\<close> queues behind the buffer.\<close>

definition file_bytes :: "http_response \<Rightarrow> nat" where
  "file_bytes r = (if FileLen r > 0 \<and> File r \<noteq> None then FileLen r else 0)"

text \<open>Property C29. Every response that is made is framed correctly: after the status line and the
  headers comes a \<open>Content-length\<close> line, and its number is exactly the number of bytes that
  follow, whether they are an error page in the buffer or a mapped file that is sent behind it.
  Hypothesis: the response was initialised, so no earlier file is mapped.\<close>

theorem content_length_correct:
  assumes "buf_ok b" and "rs_mmFile r = None" and res: "MakeResponse fs r b = Some (r', b')"
  shows "\<exists>hd body. contents b' = contents b @ hd @ length_text (length body + file_bytes r') @ body \<and>
    hd = status_text r' @ header_text r' \<and> (File r' \<noteq> None \<longrightarrow> body = []) \<and> buf_ok b'"
proof -
  let ?r = "ErrorHtml fs (response_code fs r)"
  have none: "rs_mmFile ?r = None"
    using assms(2) by (auto simp: ErrorHtml_def response_code_def stat_into_def Let_def split: option.splits)
  obtain r1 b1 where 1: "AddStateLine ?r b = Some (r1, b1)" "buf_ok b1"
    "contents b1 = contents b @ status_text r1"
    "r1 = (if CODE_STATUS (rs_code ?r) = None then ?r\<lparr>rs_code := 400\<rparr> else ?r)"
    by (rule AddStateLine_Some [OF assms(1)])
  have none1: "rs_mmFile r1 = None" using none 1(4) by simp
  obtain b2 where 2: "AddHeader r1 b1 = Some b2" "buf_ok b2" "contents b2 = contents b1 @ header_text r1"
    by (rule emitsE [OF AddHeader_emits 1(2)])
  have add: "AddContent fs r1 b2 = Some (r', b')"
    using res 1(1) 2(1) by (simp add: MakeResponse_def)
  let ?e = "error_body r1 ''File NotFound!''"
  obtain b3 where 3: "ErrorContent ''File NotFound!'' r1 b2 = Some b3" "buf_ok b3"
    "contents b3 = contents b2 @ length_text (length ?e) @ ?e"
    by (rule emitsE [OF ErrorContent_emits 2(2)])
  let ?n = "st_size (rs_mmFileStat r1)"
  obtain b4 where 4: "buf_append (length_text ?n) b2 = Some b4" "buf_ok b4"
    "contents b4 = contents b2 @ length_text ?n"
    by (rule buf_append_Some [OF 2(2)])
  consider "r' = r1" "b' = b3" | page where "r' = r1\<lparr>rs_mmFile := Some page\<rparr>" "b' = b4"
    using add 3(1) 4(1) by (auto simp: AddContent_def Let_def length_text_def split: if_splits)
  then show ?thesis
  proof cases
    case 1
    then have "file_bytes r' = 0" "File r' = None" using none1 by (simp_all add: file_bytes_def File_def)
    with 1 \<open>contents b1 = contents b @ status_text r1\<close> 2(3) 3(2,3) show ?thesis
      by (intro exI [of _ "status_text r' @ header_text r'"] exI [of _ ?e]) simp
  next
    case 2
    then have "file_bytes r' = ?n" "status_text r' = status_text r1" "header_text r' = header_text r1"
      by (simp_all add: file_bytes_def File_def FileLen_def status_text_def header_text_def GetFileType_def)
    with 2 \<open>contents b1 = contents b @ status_text r1\<close> \<open>contents b2 = contents b1 @ header_text r1\<close> 4(2,3)
    show ?thesis
      by (intro exI [of _ "status_text r' @ header_text r'"] exI [of _ "[]"]) simp
  qed
qed

section \<open>Which code\<close>

text \<open>The status of a response: 404 when the target does not exist or is a directory,
  403 when others may not read it, and otherwise the code the handler asked for, 200 if it asked for
  none; a code with an error page makes that page the file that is served.\<close>

lemma MakeResponse_code:
  assumes "buf_ok b" and "rs_code r \<in> {-1, 200, 400}" and res: "MakeResponse fs r b = Some (r', b')"
  shows "rs_code r' =
      (case fs_stat fs (rs_srcDir r @ rs_path r) of
         None \<Rightarrow> 404
       | Some st \<Rightarrow> if st_isdir st then 404 else if \<not> st_iroth st then 403
           else if rs_code r = -1 then 200 else rs_code r) \<and>
    rs_path r' = (case CODE_PATH (rs_code r') of None \<Rightarrow> rs_path r | Some p \<Rightarrow> p)"
proof -
  let ?c = "response_code fs r"
  have code: "rs_code ?c = (case fs_stat fs (rs_srcDir r @ rs_path r) of
       None \<Rightarrow> 404
     | Some st \<Rightarrow> if st_isdir st then 404 else if \<not> st_iroth st then 403
         else if rs_code r = -1 then 200 else rs_code r)" "rs_path ?c = rs_path r"
    by (auto simp: response_code_def stat_into_def Let_def split: option.splits)
  have known: "CODE_STATUS (rs_code ?c) \<noteq> None"
    using assms(2) code(1) by (auto simp: CODE_STATUS_def split: option.splits if_splits)
  have err: "rs_code (ErrorHtml fs ?c) = rs_code ?c"
    "rs_path (ErrorHtml fs ?c) = (case CODE_PATH (rs_code ?c) of None \<Rightarrow> rs_path ?c | Some p \<Rightarrow> p)"
    by (auto simp: ErrorHtml_def stat_into_def split: option.splits)
  obtain b1 where 1: "AddStateLine (ErrorHtml fs ?c) b = Some (ErrorHtml fs ?c, b1)"
    by (rule AddStateLine_known [OF assms(1), of "ErrorHtml fs ?c"]) (use known err(1) in simp)
  have "rs_code r' = rs_code (ErrorHtml fs ?c) \<and> rs_path r' = rs_path (ErrorHtml fs ?c)"
    using res 1 by (auto simp: MakeResponse_def AddContent_def Let_def split: if_splits)
  then have a: "rs_code r' = rs_code ?c"
    and b: "rs_path r' = (case CODE_PATH (rs_code r') of None \<Rightarrow> rs_path r | Some p \<Rightarrow> p)"
    using err code(2) by (auto split: option.splits)
  show ?thesis by (intro conjI b) (simp only: a code(1))
qed

definition ex_fs :: file_system where
  "ex_fs = \<lparr>fs_stat = [''/srv/a.txt'' \<mapsto> \<lparr>st_isdir = False, st_iroth = True, st_size = 2\<rparr>,
       ''/srv/e.txt'' \<mapsto> \<lparr>st_isdir = False, st_iroth = True, st_size = 0\<rparr>],
     fs_open = (\<lambda>p. p \<in> {''/srv/a.txt'', ''/srv/e.txt''}),
     fs_mmap = (\<lambda>p n. if n = 0 then None else Some (take n ''hi''))\<rparr>"

definition ex_response :: http_response where
  "ex_response = HttpResponse_new\<lparr>rs_code := 200, rs_path := ''/a.txt'', rs_srcDir := ''/srv''\<rparr>"

lemma ex_made:
  obtains r' b' where "MakeResponse ex_fs ex_response (Buffer_new 8) = Some (r', b')"
    and "rs_code r' = 200" and "file_bytes r' = 2"
proof -
  have c: "ErrorHtml ex_fs (response_code ex_fs ex_response) = ex_response\<lparr>rs_mmFileStat :=
      \<lparr>st_isdir = False, st_iroth = True, st_size = 2\<rparr>\<rparr>" (is "_ = ?r")
    by (simp add: ErrorHtml_def response_code_def stat_into_def ex_fs_def ex_response_def HttpResponse_new_def
        CODE_PATH_def)
  obtain b1 where 1: "AddStateLine ?r (Buffer_new 8) = Some (?r, b1)" "buf_ok b1"
    by (rule AddStateLine_known [OF buf_ok_new, of ?r 8])
      (auto simp: CODE_STATUS_def ex_response_def HttpResponse_new_def)
  obtain b2 where 2: "AddHeader ?r b1 = Some b2" "buf_ok b2"
    by (rule emitsE [OF AddHeader_emits 1(2)])
  obtain b3 where "buf_append (''Content-length: '' @ to_string 2 @ crlf @ crlf) b2 = Some b3"
    by (rule buf_append_Some [OF 2(2)])
  moreover have "\<not> all_ones ''hi''" by (simp add: all_ones_def numeral_eq_Suc)
  ultimately have "MakeResponse ex_fs ex_response (Buffer_new 8) = Some (?r\<lparr>rs_mmFile := Some ''hi''\<rparr>, b3)"
    using 1 2 unfolding MakeResponse_def c
    by (simp add: AddContent_def ex_fs_def ex_response_def HttpResponse_new_def)
  with that show thesis
    by (fastforce simp: ex_response_def file_bytes_def File_def FileLen_def)
qed

theorem content_length_correct_witness:
  "\<exists>r' b' hd body. MakeResponse ex_fs ex_response (Buffer_new 8) = Some (r', b') \<and>
    contents b' = hd @ length_text (length body + 2) @ body \<and> body = []"
proof -
  obtain r' b' where r: "MakeResponse ex_fs ex_response (Buffer_new 8) = Some (r', b')" "file_bytes r' = 2"
    by (rule ex_made)
  have "rs_mmFile ex_response = None" by (simp add: ex_response_def HttpResponse_new_def)
  from content_length_correct [OF buf_ok_new this r(1)] r show ?thesis
    by (fastforce simp: file_bytes_def split: if_splits)
qed

theorem MakeResponse_code_witness:
  "\<exists>r' b'. MakeResponse ex_fs ex_response (Buffer_new 8) = Some (r', b') \<and> rs_code r' = 200 \<and> rs_path r' = ''/a.txt''"
proof -
  obtain r' b' where r: "MakeResponse ex_fs ex_response (Buffer_new 8) = Some (r', b')" by (rule ex_made)
  from MakeResponse_code [OF buf_ok_new _ r] r show ?thesis
    by (simp add: ex_response_def HttpResponse_new_def ex_fs_def CODE_PATH_def)
qed

text \<open>Asking for an empty file ends the process: \<open>mmap\<close> refuses a length of zero
  (the hypothesis, as its documentation says), and the handler reads through the pointer it returned.\<close>

lemma empty_file_crashes:
  assumes "buf_ok b" and "\<And>p. fs_mmap fs p 0 = None"
    and "fs_stat fs (rs_srcDir r @ rs_path r) = Some \<lparr>st_isdir = False, st_iroth = True, st_size = 0\<rparr>"
    and "fs_open fs (rs_srcDir r @ rs_path r)" and "rs_code r = 200"
  shows "MakeResponse fs r b = None"
proof -
  let ?r = "r\<lparr>rs_mmFileStat := \<lparr>st_isdir = False, st_iroth = True, st_size = 0\<rparr>\<rparr>"
  have c: "ErrorHtml fs (response_code fs r) = ?r"
    using assms(3,5) by (simp add: ErrorHtml_def response_code_def stat_into_def CODE_PATH_def)
  obtain b1 where 1: "AddStateLine ?r b = Some (?r, b1)" "buf_ok b1"
    by (rule AddStateLine_known [OF assms(1), of ?r]) (use assms(5) in \<open>auto simp: CODE_STATUS_def\<close>)
  obtain b2 where 2: "AddHeader ?r b1 = Some b2" by (rule emitsE [OF AddHeader_emits 1(2)])
  with 1 assms(2,4) show ?thesis
    by (simp add: MakeResponse_def c AddContent_def)
qed

lemma empty_file_crashes_witness:
  "MakeResponse ex_fs (ex_response\<lparr>rs_path := ''/e.txt''\<rparr>) (Buffer_new 8) = None"
  by (rule empty_file_crashes) (simp_all add: ex_fs_def ex_response_def HttpResponse_new_def)

end
