(* ===== verification/Wire_Codec.thy ===== *)
theory Wire_Codec
  imports Buffer_Model Protocol
begin

text \<open>
  The framing of \<open>ProtobufHandler\<close> and of \<open>TcpConnection::enqueue_message\<close>: four bytes
  of length in network order, then the serialized envelope.

  Model. \<open>htonl\<close> followed by a copy of the word's memory is the list of its bytes from the
  most significant one. Protobuf's \<open>ParseFromArray\<close> and \<open>SerializeToString\<close> are the
  arguments \<open>parse\<close> and \<open>serialize\<close>; where a property needs it, the hypothesis
  \<open>codec_roundtrip\<close> says that parsing what was serialized gives the message back.
\<close>

unbundle bit_operations_syntax

section \<open>Numbers in network order\<close>

definition htonl_bytes :: "u32 \<Rightarrow> bytes" where
  "htonl_bytes w = map (\<lambda>k. char_of (unat (drop_bit k w))) [24, 16, 8, 0]"

definition ntohl_bytes :: "bytes \<Rightarrow> u32" where
  "ntohl_bytes bs = foldl (\<lambda>w c. push_bit 8 w OR word_of_nat (of_char c)) 0 (take 4 bs)"

lemma length_htonl [simp]: "length (htonl_bytes w) = 4"
  by (simp add: htonl_bytes_def)

lemma low_byte: "word_of_nat (unat v mod 256) = take_bit 8 v" for v :: u32
proof -
  have "unat v mod 256 = take_bit 8 (unat v)" by (simp add: take_bit_eq_mod)
  then show ?thesis
    by (simp add: word_unat_eq_iff unsigned_take_bit_eq unsigned_of_nat take_bit_take_bit)
qed

lemma ntohl_htonl [simp]: "ntohl_bytes (htonl_bytes w @ r) = w"
proof (rule bit_word_eqI)
  fix n :: nat assume "n < LENGTH(32)"
  then consider "n < 8" | "8 \<le> n" "n < 16" | "16 \<le> n" "n < 24" | "24 \<le> n" "n < 32" by force
  then show "bit (ntohl_bytes (htonl_bytes w @ r)) n = bit w n"
    by cases (auto simp: ntohl_bytes_def htonl_bytes_def low_byte low_byte [of w] bit_simps)
qed

section \<open>Encoding and decoding\<close>

definition kHeaderSize :: nat where
  "kHeaderSize = 4"

definition kMaxMessageSize :: nat where
  "kMaxMessageSize = 2 ^ 20"

definition TryDecodeMessage ::
  "(bytes \<Rightarrow> Envelope option) \<Rightarrow> buffer \<Rightarrow> (Envelope option \<times> buffer) option" where
  "TryDecodeMessage parse read_buff =
     (if readable_bytes read_buff < kHeaderSize then Some (None, read_buff)
      else let msg_len = unat (ntohl_bytes (bytes_at read_buff (peek read_buff) kHeaderSize)) in
        if msg_len > kMaxMessageSize
        then do { b \<leftarrow> retrieve kHeaderSize read_buff; Some (None, b) }
        else if readable_bytes read_buff < kHeaderSize + msg_len then Some (None, read_buff)
        else let payload = bytes_at read_buff (peek read_buff + kHeaderSize) msg_len in
          do { b \<leftarrow> retrieve (kHeaderSize + msg_len) read_buff; Some (parse payload, b) })"

definition EncodeMessage ::
  "(Envelope \<Rightarrow> bytes option) \<Rightarrow> Envelope \<Rightarrow> buffer \<Rightarrow> buffer option" where
  "EncodeMessage serialize envelope write_buff =
     (case serialize envelope of
        None \<Rightarrow> Some write_buff
      | Some serialized \<Rightarrow>
          do { b \<leftarrow> buf_append (htonl_bytes (word_of_nat (length serialized))) write_buff;
               buf_append serialized b })"

text \<open>The string that \<open>enqueue_message\<close> and the client's \<open>SendEnvelope\<close> build.\<close>

definition frame :: "bytes \<Rightarrow> bytes" where
  "frame data = htonl_bytes (word_of_nat (length data)) @ data"

lemma frame_nonempty [simp]: "frame s \<noteq> []" "[] \<noteq> frame s"
  by (simp_all add: frame_def htonl_bytes_def)

lemma length_frame: "length (frame s) = 4 + length s"
  by (simp add: frame_def)

definition codec_roundtrip :: "(Envelope \<Rightarrow> bytes option) \<Rightarrow> (bytes \<Rightarrow> Envelope option) \<Rightarrow> bool" where
  "codec_roundtrip serialize parse \<longleftrightarrow> (\<forall>e s. serialize e = Some s \<longrightarrow> parse s = Some e)"

section \<open>The decoder on byte strings\<close>

text \<open>The same decision on the readable bytes, without the buffer.\<close>

definition decode_bytes :: "(bytes \<Rightarrow> Envelope option) \<Rightarrow> bytes \<Rightarrow> Envelope option \<times> bytes" where
  "decode_bytes parse bs =
     (let n = unat (ntohl_bytes bs) in
      if length bs < 4 then (None, bs)
      else if n > kMaxMessageSize then (None, drop 4 bs)
      else if length bs < 4 + n then (None, bs)
      else (parse (take n (drop 4 bs)), drop (4 + n) bs))"

lemma ntohl_take: "4 \<le> n \<Longrightarrow> ntohl_bytes (take n bs) = ntohl_bytes bs"
  by (simp add: ntohl_bytes_def min_def)

lemma TryDecode_refines:
  assumes ok: "buf_ok b"
  obtains b' where "TryDecodeMessage parse b = Some (fst (decode_bytes parse (contents b)), b')"
    and "buf_ok b'" and "contents b' = snd (decode_bytes parse (contents b))"
proof -
  let ?bs = "contents b"
  let ?n = "unat (ntohl_bytes ?bs)"
  note len = readable_bytes_contents [OF ok]
  have hd: "ntohl_bytes (bytes_at b (peek b) kHeaderSize) = ntohl_bytes ?bs" if "4 \<le> length ?bs"
    using bytes_at_peek_take [of 4 b] that len by (simp add: kHeaderSize_def ntohl_take)
  consider "length ?bs < 4" | "4 \<le> length ?bs" "?n > kMaxMessageSize"
    | "4 \<le> length ?bs" "?n \<le> kMaxMessageSize" "length ?bs < 4 + ?n"
    | "4 + ?n \<le> length ?bs" "?n \<le> kMaxMessageSize" by linarith
  then show thesis
  proof cases
    case 2
    then obtain b1 where b1: "retrieve 4 b = Some b1"
      using retrieve_None [OF ok, of 4] by (cases "retrieve 4 b") auto
    from that [of b1] b1 2 hd len retrieve_ok [OF ok b1] show thesis
      by (simp add: TryDecodeMessage_def decode_bytes_def Let_def kHeaderSize_def)
  next
    case 4
    then obtain b1 where b1: "retrieve (4 + ?n) b = Some b1"
      using retrieve_None [OF ok, of "4 + ?n"] by (cases "retrieve (4 + ?n) b") auto
    have "bytes_at b (peek b + 4) ?n = take ?n (drop 4 ?bs)"
      using bytes_at_peek_offset [of 4 ?n b] 4 len by simp
    with that [of b1] b1 4 hd len retrieve_ok [OF ok b1] show thesis
      by (simp add: TryDecodeMessage_def decode_bytes_def Let_def kHeaderSize_def)
  qed (use that [of b] hd len ok in
      \<open>simp_all add: TryDecodeMessage_def decode_bytes_def Let_def kHeaderSize_def\<close>)
qed

lemma EncodeMessage_Some:
  assumes "buf_ok b"
  obtains b' where "EncodeMessage serialize e b = Some b'" and "buf_ok b'"
    and "contents b' = contents b @ (case serialize e of None \<Rightarrow> [] | Some s \<Rightarrow> frame s)"
proof (cases "serialize e")
  case None
  with that [of b] assms show thesis by (simp add: EncodeMessage_def)
next
  case (Some s)
  obtain b1 where b1: "buf_append (htonl_bytes (word_of_nat (length s))) b = Some b1" "buf_ok b1"
    "contents b1 = contents b @ htonl_bytes (word_of_nat (length s))"
    by (rule buf_append_Some [OF assms])
  obtain b2 where "buf_append s b1 = Some b2" "buf_ok b2" "contents b2 = contents b1 @ s"
    by (rule buf_append_Some [OF b1(2)])
  with that [of b2] b1 Some show thesis by (simp add: EncodeMessage_def frame_def)
qed

lemma length_word: "length s \<le> kMaxMessageSize \<Longrightarrow> unat (word_of_nat (length s) :: u32) = length s"
  by (simp add: unsigned_of_nat take_bit_nat_eq_self kMaxMessageSize_def)

lemma decode_frame:
  "length s \<le> kMaxMessageSize \<Longrightarrow> decode_bytes parse (frame s @ r) = (parse s, r)"
  using length_word [of s] by (simp add: decode_bytes_def frame_def Let_def)

text \<open>Several calls of the encoder on one buffer, and of the decoder on another.\<close>

fun encode_all :: "(Envelope \<Rightarrow> bytes option) \<Rightarrow> Envelope list \<Rightarrow> buffer \<Rightarrow> buffer option" where
  "encode_all serialize [] b = Some b"
| "encode_all serialize (e # es) b =
     Option.bind (EncodeMessage serialize e b) (encode_all serialize es)"

fun decode_calls ::
  "(bytes \<Rightarrow> Envelope option) \<Rightarrow> nat \<Rightarrow> buffer \<Rightarrow> (Envelope option list \<times> buffer) option" where
  "decode_calls parse 0 b = Some ([], b)"
| "decode_calls parse (Suc n) b =
     do { (e, b1) \<leftarrow> TryDecodeMessage parse b;
          (es, b2) \<leftarrow> decode_calls parse n b1;
          Some (e # es, b2) }"

lemma encode_all_Some:
  "buf_ok b \<Longrightarrow> \<exists>b'. encode_all serialize es b = Some b' \<and> buf_ok b' \<and>
   contents b' = contents b @ concat (map (\<lambda>e. case serialize e of None \<Rightarrow> [] | Some s \<Rightarrow> frame s) es)"
proof (induction es arbitrary: b)
  case (Cons e es)
  obtain b1 where b1: "EncodeMessage serialize e b = Some b1" "buf_ok b1"
    "contents b1 = contents b @ (case serialize e of None \<Rightarrow> [] | Some s \<Rightarrow> frame s)"
    by (rule EncodeMessage_Some [OF Cons.prems])
  with Cons.IH [OF b1(2)] show ?case by auto
qed simp

lemma decode_calls_frames:
  assumes "\<forall>s\<in>set ss. length s \<le> kMaxMessageSize" and "buf_ok b"
    and "contents b = concat (map frame ss) @ rest"
  shows "\<exists>b'. decode_calls parse (length ss) b = Some (map parse ss, b') \<and> buf_ok b' \<and> contents b' = rest"
  using assms
proof (induction ss arbitrary: b)
  case (Cons s ss)
  have dec: "decode_bytes parse (contents b) = (parse s, concat (map frame ss) @ rest)"
    using decode_frame [of s parse "concat (map frame ss) @ rest"] Cons.prems by simp
  obtain b1 where b1: "TryDecodeMessage parse b = Some (parse s, b1)" "buf_ok b1"
    "contents b1 = concat (map frame ss) @ rest"
    using TryDecode_refines [OF Cons.prems(2), of parse] dec by auto
  with Cons.IH [OF _ b1(2)] Cons.prems(1) show ?case by auto
qed simp

lemma decode_incomplete:
  assumes "length s \<le> kMaxMessageSize" and "k < length (frame s)"
  shows "decode_bytes parse (take k (frame s)) = (None, take k (frame s))"
proof (cases "k < 4")
  case False
  then have "ntohl_bytes (take k (frame s)) = word_of_nat (length s)"
    by (simp add: ntohl_take) (simp add: frame_def)
  with False assms length_word [OF assms(1)] show ?thesis
    by (simp add: decode_bytes_def Let_def) (simp add: frame_def)
qed (auto simp: decode_bytes_def Let_def)

text \<open>Property C9. Every sequence of envelopes that serialize to at most \<open>kMaxMessageSize\<close>
  bytes each survives the wire: encoded one after the other into a buffer, then read by a peer
  whose read buffer holds exactly those bytes and the beginning of one more frame, each call of
  the decoder returns the next envelope; the following call reports that the frame is incomplete
  and leaves its bytes in place. The hypothesis on protobuf is that parsing inverts
  serialization.\<close>

theorem wire_roundtrip:
  assumes rt: "codec_roundtrip serialize parse"
    and fits: "\<forall>e\<in>set es. \<exists>s. serialize e = Some s \<and> length s \<le> kMaxMessageSize"
    and w: "encode_all serialize es (Buffer_new n) = Some w"
    and part: "length s' \<le> kMaxMessageSize" "k < length (frame s')"
    and r: "buf_ok r" "contents r = contents w @ take k (frame s')"
  shows "\<exists>r'. decode_calls parse (length es + 1) r = Some (map Some es @ [None], r') \<and>
    contents r' = take k (frame s')"
proof -
  define ss where "ss = map (the \<circ> serialize) es"
  have ss: "\<forall>s\<in>set ss. length s \<le> kMaxMessageSize" "map parse ss = map Some es"
    using fits rt by (force simp: ss_def codec_roundtrip_def)+
  have "contents w = concat (map (\<lambda>e. case serialize e of None \<Rightarrow> [] | Some s \<Rightarrow> frame s) es)"
    using encode_all_Some [OF buf_ok_new, of serialize es n] w by auto
  also have "\<dots> = concat (map frame ss)"
    using fits by (intro arg_cong [where f = concat]) (auto simp: ss_def)
  finally obtain r1 where r1: "decode_calls parse (length es) r = Some (map Some es, r1)"
    "buf_ok r1" "contents r1 = take k (frame s')"
    using decode_calls_frames [OF ss(1) r(1), of "take k (frame s')" parse] r(2) ss(2)
    by (auto simp: ss_def)
  obtain r2 where r2: "TryDecodeMessage parse r1 = Some (None, r2)" "contents r2 = take k (frame s')"
    using TryDecode_refines [OF r1(2), of parse] decode_incomplete [OF part, of parse] r1(3) by auto
  have "decode_calls parse (m + 1) b = do { (es, b1) \<leftarrow> decode_calls parse m b;
      (e, b2) \<leftarrow> TryDecodeMessage parse b1; Some (es @ [e], b2) }" for m b
  proof (induction m arbitrary: b)
    case (Suc m)
    then show ?case
      by (cases "TryDecodeMessage parse b") (auto split: bind_splits)
  qed (auto split: bind_splits)
  with r1 r2 show ?thesis by simp
qed

text \<open>A length above \<open>kMaxMessageSize\<close> makes the decoder drop the four bytes
  of the header and nothing else: the body of the refused frame is then read as frames of its own,
  so whatever complete frame stands there is accepted as the next message.\<close>

lemma oversized_frame_desync:
  assumes "buf_ok b" and "unat len > kMaxMessageSize" and "length s \<le> kMaxMessageSize"
    and "contents b = htonl_bytes len @ frame s @ rest"
  shows "\<exists>b'. decode_calls parse 2 b = Some ([None, parse s], b') \<and> contents b' = rest"
proof -
  have "decode_bytes parse (contents b) = (None, frame s @ rest)"
    using assms(2,4) by (simp add: decode_bytes_def Let_def)
  then obtain b1 where b1: "TryDecodeMessage parse b = Some (None, b1)" "buf_ok b1"
    "contents b1 = frame s @ rest"
    using TryDecode_refines [OF assms(1), of parse] by auto
  obtain b2 where "TryDecodeMessage parse b1 = Some (parse s, b2)" "contents b2 = rest"
    using TryDecode_refines [OF b1(2), of parse] decode_frame [OF assms(3), of parse rest] b1(3) by auto
  with b1 show ?thesis by (simp add: numeral_2_eq_2)
qed

section \<open>Concrete instances\<close>

definition ex_env :: Envelope where
  "ex_env = Envelope_default\<lparr>env_seq := 7, env_cmd := CMD_HEARTBEAT\<rparr>"

definition ex_serialize :: "Envelope \<Rightarrow> bytes option" where
  "ex_serialize e = (if e = ex_env then Some ''hb'' else None)"

definition ex_parse :: "bytes \<Rightarrow> Envelope option" where
  "ex_parse s = (if s = ''hb'' then Some ex_env else None)"

lemma ex_codec: "codec_roundtrip ex_serialize ex_parse"
  by (simp add: codec_roundtrip_def ex_serialize_def ex_parse_def)

theorem wire_roundtrip_witness:
  "\<exists>w r r'. encode_all ex_serialize [ex_env, ex_env] (Buffer_new 8) = Some w \<and>
    buf_append (contents w @ take 3 (frame ''x'')) (Buffer_new 8) = Some r \<and>
    decode_calls ex_parse 3 r = Some ([Some ex_env, Some ex_env, None], r') \<and>
    contents r' = take 3 (frame ''x'')"
proof -
  obtain w where w: "encode_all ex_serialize [ex_env, ex_env] (Buffer_new 8) = Some w"
    using encode_all_Some [OF buf_ok_new] by blast
  obtain r where r: "buf_append (contents w @ take 3 (frame ''x'')) (Buffer_new 8) = Some r" "buf_ok r"
    "contents r = contents w @ take 3 (frame ''x'')"
    using buf_append_Some [OF buf_ok_new [of 8], of "contents w @ take 3 (frame ''x'')"] by auto
  have "\<exists>r'. decode_calls ex_parse (length [ex_env, ex_env] + 1) r =
      Some (map Some [ex_env, ex_env] @ [None], r') \<and> contents r' = take 3 (frame ''x'')"
    by (rule wire_roundtrip [OF ex_codec _ w _ _ r(2,3)])
      (simp_all add: ex_serialize_def kMaxMessageSize_def frame_def)
  with w r(1) show ?thesis by (auto simp: numeral_3_eq_3)
qed

lemma oversized_frame_desync_witness:
  "\<exists>b b'. buf_append (htonl_bytes 0x100001 @ frame ''hb'' @ []) (Buffer_new 8) = Some b \<and>
    decode_calls ex_parse 2 b = Some ([None, ex_parse ''hb''], b') \<and> contents b' = []"
proof -
  obtain b where b: "buf_append (htonl_bytes 0x100001 @ frame ''hb'' @ []) (Buffer_new 8) = Some b"
    "buf_ok b" "contents b = htonl_bytes 0x100001 @ frame ''hb'' @ []"
    using buf_append_Some [OF buf_ok_new [of 8], of "htonl_bytes 0x100001 @ frame ''hb'' @ []"] by auto
  with oversized_frame_desync [OF b(2) _ _ b(3), of ex_parse] show ?thesis
    by (simp add: kMaxMessageSize_def)
qed

end
