(* ===== verification/Mpsc_Queue.thy ===== *)
theory Mpsc_Queue
  imports Prelude
begin

text \<open>
  The lock-free queue of \<open>server/src/core/mpsc_queue.h\<close>, one atomic access per step.

  Model. Nodes live in a map from addresses; \<open>new\<close> takes the next unused address, and
  \<open>delete\<close> removes the node, after which reading it is the result \<open>None\<close>. No address is used
  twice: an allocator that hands out the address of a deleted node again, so that a producer's
  compare-exchange succeeds on another node than the one it read (ABA), is not in the model. It
  needs a producer that still holds a deleted node, which is shown to happen below. A thread's
  position inside \<open>enqueue\<close> or \<open>dequeue\<close> is a value of \<open>enq_pc\<close> or \<open>deq_pc\<close> that
  carries its local variables. The interleaving is sequentially consistent. The weak
  compare-exchange may fail spuriously, which the Boolean of \<open>enqueue_step\<close> decides.
\<close>

section \<open>State\<close>

record 'a mnode =
  node_data :: "'a option"
  node_next :: "nat option"

datatype enq_pc =
    EIdle
  | EStart nat                    \<comment> \<open>top of the loop; \<open>new_node\<close>\<close>
  | EGotTail nat nat              \<comment> \<open>\<open>new_node\<close>, \<open>old_tail\<close>\<close>
  | EGotNext nat nat "nat option" \<comment> \<open>\<open>new_node\<close>, \<open>old_tail\<close>, \<open>next\<close>\<close>
  | ECasNext nat nat              \<comment> \<open>about to link \<open>new_node\<close> behind \<open>old_tail\<close>\<close>
  | ESwing nat nat                \<comment> \<open>linked, about to move \<open>tail_\<close>\<close>
  | EHelp nat nat nat             \<comment> \<open>about to move \<open>tail_\<close> from \<open>old_tail\<close> to \<open>next\<close>\<close>

datatype 'a deq_pc =
    DIdle
  | DHead nat
  | DNext nat nat
  | DMoved nat nat "'a option"
  | DStored nat "'a option"

record 'a mpsc =
  nodes :: "nat \<Rightarrow> 'a mnode option"
  brk :: nat
  q_head :: nat
  q_tail :: nat
  producers :: "nat \<Rightarrow> enq_pc"
  consumer :: "'a deq_pc"

text \<open>The two points where an operation takes effect.\<close>

datatype 'a mevent = Linked nat 'a | Taken 'a

definition MPSCQueue_new :: "'a mpsc" where
  "MPSCQueue_new =
     \<lparr>nodes = [0 \<mapsto> \<lparr>node_data = None, node_next = None\<rparr>], brk = 1, q_head = 0, q_tail = 0,
      producers = \<lambda>_. EIdle, consumer = DIdle\<rparr>"

section \<open>Operations\<close>

definition set_pc :: "nat \<Rightarrow> enq_pc \<Rightarrow> 'a mpsc \<Rightarrow> 'a mpsc" where
  "set_pc t pc s = s\<lparr>producers := (producers s)(t := pc)\<rparr>"

text \<open>The call of \<open>enqueue(val)\<close>: the node is allocated and \<open>val\<close> moved into it.\<close>

definition enqueue_call :: "nat \<Rightarrow> 'a \<Rightarrow> 'a mpsc \<Rightarrow> 'a mpsc" where
  "enqueue_call t v s =
     set_pc t (EStart (brk s))
       (s\<lparr>nodes := (nodes s)(brk s \<mapsto> \<lparr>node_data = Some v, node_next = None\<rparr>), brk := brk s + 1\<rparr>)"

definition enqueue_step ::
  "bool \<Rightarrow> nat \<Rightarrow> 'a mpsc \<Rightarrow> ('a mevent list \<times> 'a mpsc) option" where
  "enqueue_step spurious t s =
     (case producers s t of
        EIdle \<Rightarrow> Some ([], s)
      | EStart n \<Rightarrow> Some ([], set_pc t (EGotTail n (q_tail s)) s)
      | EGotTail n old \<Rightarrow>
          do { nd \<leftarrow> nodes s old; Some ([], set_pc t (EGotNext n old (node_next nd)) s) }
      | EGotNext n old nx \<Rightarrow>
          Some ([], set_pc t
            (if old = q_tail s
             then (case nx of None \<Rightarrow> ECasNext n old | Some x \<Rightarrow> EHelp n old x)
             else EStart n) s)
      | ECasNext n old \<Rightarrow>
          do { nd \<leftarrow> nodes s old;
               new \<leftarrow> nodes s n;
               v \<leftarrow> node_data new;
               if node_next nd = None \<and> \<not> spurious
               then Some ([Linked t v], set_pc t (ESwing n old)
                 (s\<lparr>nodes := (nodes s)(old \<mapsto> nd\<lparr>node_next := Some n\<rparr>)\<rparr>))
               else Some ([], set_pc t (EStart n) s) }
      | ESwing n old \<Rightarrow>
          Some ([], set_pc t EIdle (if q_tail s = old then s\<lparr>q_tail := n\<rparr> else s))
      | EHelp n old x \<Rightarrow>
          Some ([], set_pc t (EStart n) (if q_tail s = old then s\<lparr>q_tail := x\<rparr> else s)))"

text \<open>\<open>dequeue\<close>; the result is handed out when the node is deleted.\<close>

definition dequeue_call :: "'a mpsc \<Rightarrow> 'a mpsc" where
  "dequeue_call s = s\<lparr>consumer := DHead (q_head s)\<rparr>"

definition dequeue_step :: "'a mpsc \<Rightarrow> ('a mevent list \<times> 'a mpsc) option" where
  "dequeue_step s =
     (case consumer s of
        DIdle \<Rightarrow> Some ([], s)
      | DHead h \<Rightarrow>
          do { nd \<leftarrow> nodes s h;
               Some ([], s\<lparr>consumer := (case node_next nd of None \<Rightarrow> DIdle | Some x \<Rightarrow> DNext h x)\<rparr>) }
      | DNext h x \<Rightarrow>
          do { nd \<leftarrow> nodes s x; Some ([], s\<lparr>consumer := DMoved h x (node_data nd)\<rparr>) }
      | DMoved h x v \<Rightarrow>
          Some (case v of None \<Rightarrow> [] | Some d \<Rightarrow> [Taken d], s\<lparr>q_head := x, consumer := DStored h v\<rparr>)
      | DStored h v \<Rightarrow>
          do { nd \<leftarrow> nodes s h; Some ([], s\<lparr>nodes := (nodes s)(h := None), consumer := DIdle\<rparr>) })"

definition mq_empty :: "'a mpsc \<Rightarrow> bool option" where
  "mq_empty s = do { nd \<leftarrow> nodes s (q_head s); Some (node_next nd = None) }"

text \<open>All interleavings: the events so far and the state they lead to.\<close>

inductive mq_reach :: "'a mevent list \<Rightarrow> 'a mpsc \<Rightarrow> bool" where
  start: "mq_reach [] MPSCQueue_new"
| call_enqueue: "mq_reach tr s \<Longrightarrow> producers s t = EIdle \<Longrightarrow> mq_reach tr (enqueue_call t v s)"
| run_enqueue: "mq_reach tr s \<Longrightarrow> enqueue_step sp t s = Some (ev, s') \<Longrightarrow> mq_reach (tr @ ev) s'"
| call_dequeue: "mq_reach tr s \<Longrightarrow> consumer s = DIdle \<Longrightarrow> mq_reach tr (dequeue_call s)"
| run_dequeue: "mq_reach tr s \<Longrightarrow> dequeue_step s = Some (ev, s') \<Longrightarrow> mq_reach (tr @ ev) s'"

fun linked :: "'a mevent list \<Rightarrow> 'a list" where
  "linked [] = []"
| "linked (Linked t v # tr) = v # linked tr"
| "linked (Taken v # tr) = linked tr"

fun taken :: "'a mevent list \<Rightarrow> 'a list" where
  "taken [] = []"
| "taken (Linked t v # tr) = taken tr"
| "taken (Taken v # tr) = v # taken tr"

lemma linked_append [simp]: "linked (a @ b) = linked a @ linked b"
  by (induction a rule: linked.induct) auto

lemma taken_append [simp]: "taken (a @ b) = taken a @ taken b"
  by (induction a rule: taken.induct) auto

section \<open>The chain of nodes\<close>

fun path :: "(nat \<Rightarrow> 'a mnode option) \<Rightarrow> nat \<Rightarrow> nat list \<Rightarrow> bool" where
  "path ns a [] \<longleftrightarrow> (\<exists>nd. ns a = Some nd \<and> node_next nd = None)"
| "path ns a (x # xs) \<longleftrightarrow> (\<exists>nd. ns a = Some nd \<and> node_next nd = Some x \<and> path ns x xs)"

lemma path_live: "path ns a xs \<Longrightarrow> b \<in> set (a # xs) \<Longrightarrow> \<exists>nd. ns b = Some nd"
  by (induction xs arbitrary: a) auto

lemma path_other: "b \<notin> set (a # xs) \<Longrightarrow> path (ns(b := v)) a xs = path ns a xs"
  by (induction xs arbitrary: a) auto

lemma path_last:
  "path ns a xs \<Longrightarrow> b \<in> set (a # xs) \<Longrightarrow> ns b = Some nd \<Longrightarrow> node_next nd = None \<Longrightarrow> b = last (a # xs)"
  by (induction xs arbitrary: a) auto

lemma path_snoc:
  "path ns a xs \<Longrightarrow> distinct (a # xs) \<Longrightarrow> last (a # xs) = l \<Longrightarrow> ns l = Some nd \<Longrightarrow> n \<notin> set (a # xs) \<Longrightarrow>
   ns n = Some nd' \<Longrightarrow> node_next nd' = None \<Longrightarrow>
   path (ns(l \<mapsto> nd\<lparr>node_next := Some n\<rparr>)) a (xs @ [n])"
proof (induction xs arbitrary: a)
  case (Cons x xs)
  have "path (ns(l \<mapsto> nd\<lparr>node_next := Some n\<rparr>)) x (xs @ [n])"
    by (rule Cons.IH) (use Cons.prems in auto)
  moreover have "l \<noteq> a" using Cons.prems(2,3) last_in_set [of "x # xs"] by auto
  ultimately show ?case using Cons.prems(1) by (auto simp: fun_upd_def)
qed auto

lemma path_next:
  "path ns a xs \<Longrightarrow> b \<in> set (a # xs) \<Longrightarrow> ns b = Some nd \<Longrightarrow> node_next nd = Some y \<Longrightarrow> y \<in> set xs"
  by (induction xs arbitrary: a) auto

section \<open>The invariant\<close>

text \<open>The node a producer has allocated and not linked yet, and the nodes it remembers.\<close>

fun owns :: "enq_pc \<Rightarrow> nat option" where
  "owns EIdle = None"
| "owns (EStart n) = Some n"
| "owns (EGotTail n old) = Some n"
| "owns (EGotNext n old nx) = Some n"
| "owns (ECasNext n old) = Some n"
| "owns (ESwing n old) = None"
| "owns (EHelp n old x) = Some n"

fun refs :: "enq_pc \<Rightarrow> nat set" where
  "refs EIdle = {}"
| "refs (EStart n) = {}"
| "refs (EGotTail n old) = {old}"
| "refs (EGotNext n old nx) = {old} \<union> set_option nx"
| "refs (ECasNext n old) = {old}"
| "refs (ESwing n old) = {n, old}"
| "refs (EHelp n old x) = {old, x}"

fun doomed :: "'a deq_pc \<Rightarrow> nat set" where
  "doomed (DStored h v) = {h}"
| "doomed _ = {}"

fun consumer_ok :: "'a deq_pc \<Rightarrow> nat list \<Rightarrow> 'a mpsc \<Rightarrow> bool" where
  "consumer_ok DIdle xs s = True"
| "consumer_ok (DHead h) xs s \<longleftrightarrow> h = q_head s"
| "consumer_ok (DNext h x) xs s \<longleftrightarrow> h = q_head s \<and> (\<exists>ys. xs = x # ys)"
| "consumer_ok (DMoved h x v) xs s \<longleftrightarrow> h = q_head s \<and> (\<exists>ys. xs = x # ys) \<and>
     (\<exists>nd. nodes s x = Some nd \<and> node_data nd = v)"
| "consumer_ok (DStored h v) xs s \<longleftrightarrow> h \<notin> set (q_head s # xs) \<and>
     (\<exists>nd. nodes s h = Some nd \<and> node_next nd = Some (q_head s))"

text \<open>An address that was handed out and is not a producer's private node.\<close>

definition public :: "'a mpsc \<Rightarrow> nat \<Rightarrow> bool" where
  "public s a \<longleftrightarrow> a < brk s \<and> (\<forall>t. owns (producers s t) \<noteq> Some a)"

definition has_data :: "'a mpsc \<Rightarrow> nat \<Rightarrow> bool" where
  "has_data s a \<longleftrightarrow> (\<exists>nd v. nodes s a = Some nd \<and> node_data nd = Some v)"

definition owned_ok :: "'a mpsc \<Rightarrow> nat \<Rightarrow> bool" where
  "owned_ok s n \<longleftrightarrow> has_data s n \<and> (\<exists>nd. nodes s n = Some nd \<and> node_next nd = None)"

definition mq_inv :: "nat list \<Rightarrow> 'a mpsc \<Rightarrow> bool" where
  "mq_inv xs s \<longleftrightarrow>
     path (nodes s) (q_head s) xs \<and> distinct (q_head s # xs) \<and>
     (\<forall>a\<in>set xs. has_data s a) \<and>
     (\<forall>a\<in>set (q_head s # xs) \<union> doomed (consumer s). public s a) \<and>
     (\<forall>a. nodes s a \<noteq> None \<longrightarrow> a \<in> set (q_head s # xs) \<union> doomed (consumer s) \<or> \<not> public s a) \<and>
     (\<forall>a. nodes s a \<noteq> None \<longrightarrow> a < brk s) \<and>
     (\<forall>t n. owns (producers s t) = Some n \<longrightarrow> owned_ok s n) \<and>
     (\<forall>t t' n. owns (producers s t) = Some n \<and> owns (producers s t') = Some n \<longrightarrow> t = t') \<and>
     public s (q_tail s) \<and> (\<forall>t. \<forall>a\<in>refs (producers s t). public s a) \<and>
     consumer_ok (consumer s) xs s"

lemma mq_invD:
  assumes "mq_inv xs s"
  shows mq_path: "path (nodes s) (q_head s) xs"
    and mq_distinct: "distinct (q_head s # xs)"
    and mq_data: "a \<in> set xs \<Longrightarrow> has_data s a"
    and mq_public: "a \<in> set (q_head s # xs) \<union> doomed (consumer s) \<Longrightarrow> public s a"
    and mq_live: "nodes s a \<noteq> None \<Longrightarrow>
      a \<in> set (q_head s # xs) \<union> doomed (consumer s) \<or> \<not> public s a"
    and mq_brk: "nodes s a \<noteq> None \<Longrightarrow> a < brk s"
    and mq_owned: "owns (producers s t) = Some n \<Longrightarrow> owned_ok s n"
    and mq_owner: "owns (producers s t) = Some n \<Longrightarrow> owns (producers s t') = Some n \<Longrightarrow> t = t'"
    and mq_tail: "public s (q_tail s)"
    and mq_refs: "a \<in> refs (producers s t) \<Longrightarrow> public s a"
    and mq_consumer: "consumer_ok (consumer s) xs s"
  using assms unfolding mq_inv_def by blast+

lemma set_pc_simps [simp]:
  "nodes (set_pc t pc s) = nodes s" "brk (set_pc t pc s) = brk s"
  "q_head (set_pc t pc s) = q_head s" "q_tail (set_pc t pc s) = q_tail s"
  "consumer (set_pc t pc s) = consumer s" "producers (set_pc t pc s) = (producers s)(t := pc)"
  by (simp_all add: set_pc_def)

lemma consumer_ok_set_pc [simp]: "consumer_ok c xs (set_pc t pc s) = consumer_ok c xs s"
  by (cases c) simp_all

lemma public_set_pc:
  "owns pc = owns (producers s t) \<Longrightarrow> public (set_pc t pc s) a = public s a"
  by (auto simp: public_def)

lemma mq_inv_set_pc:
  assumes "mq_inv xs s" and "owns pc = owns (producers s t)" and "\<forall>a\<in>refs pc. public s a"
  shows "mq_inv xs (set_pc t pc s)"
proof -
  have own: "owns (producers (set_pc t pc s) u) = owns (producers s u)" for u
    using assms(2) by simp
  have ref: "\<forall>a\<in>refs (producers (set_pc t pc s) u). public s a" for u
    using assms(1,3) by (auto simp: mq_inv_def)
  show ?thesis
    using assms(1) ref
    unfolding mq_inv_def own public_set_pc [OF assms(2)] owned_ok_def has_data_def by simp
qed

lemma mq_inv_set_tail:
  assumes "mq_inv xs s" and "public s a"
  shows "mq_inv xs (s\<lparr>q_tail := a\<rparr>)"
  using assms by (cases "consumer s") (simp_all add: mq_inv_def public_def has_data_def owned_ok_def)

text \<open>What a live node that is not private is: a node of the chain or the one being deleted.\<close>

lemma public_live:
  assumes "mq_inv xs s" and "public s a" and "nodes s a = Some nd"
  shows "a \<in> set (q_head s # xs) \<or> (\<exists>v. consumer s = DStored a v \<and> node_next nd = Some (q_head s))"
proof -
  have "a \<in> set (q_head s # xs) \<union> doomed (consumer s)"
    using assms unfolding mq_inv_def by (metis option.distinct(1))
  then show ?thesis
    using assms(1,3) by (cases "consumer s") (auto simp: mq_inv_def)
qed

lemma public_next:
  assumes "mq_inv xs s" and "public s a" and "nodes s a = Some nd" and "node_next nd = Some y"
  shows "public s y"
proof -
  have "y \<in> set (q_head s # xs)"
    using public_live [OF assms(1-3)] assms path_next [of "nodes s" "q_head s" xs a nd y]
    by (auto simp: mq_inv_def)
  then show ?thesis using assms(1) by (auto simp: mq_inv_def)
qed

lemma public_last:
  assumes "mq_inv xs s" and "public s a" and "nodes s a = Some nd" and "node_next nd = None"
  shows "a = last (q_head s # xs)"
  using public_live [OF assms(1-3)] assms path_last [of "nodes s" "q_head s" xs a nd]
  by (auto simp: mq_inv_def)

lemma enqueue_call_public:
  assumes "producers s t = EIdle"
  shows "public (enqueue_call t v s) a \<longleftrightarrow> public s a"
proof -
  have own: "owns (producers (enqueue_call t v s) u) = (if u = t then Some (brk s) else owns (producers s u))" for u
    by (simp add: enqueue_call_def)
  have "brk (enqueue_call t v s) = brk s + 1" by (simp add: enqueue_call_def)
  moreover have "(\<forall>u. owns (producers (enqueue_call t v s) u) \<noteq> Some a) \<longleftrightarrow>
      a \<noteq> brk s \<and> (\<forall>u. owns (producers s u) \<noteq> Some a)"
    unfolding own using assms by (metis option.inject option.distinct(1) owns.simps(1))
  ultimately show ?thesis by (auto simp: public_def)
qed

lemma mq_inv_call:
  assumes inv: "mq_inv xs s" and idle: "producers s t = EIdle"
  shows "mq_inv xs (enqueue_call t v s)"
proof -
  let ?s = "enqueue_call t v s"
  have dead: "nodes s (brk s) = None" using inv by (force simp: mq_inv_def)
  then have new: "brk s \<notin> set (q_head s # xs)" "brk s \<notin> doomed (consumer s)"
    using inv unfolding mq_inv_def public_def by (meson UnI1 UnI2 less_irrefl)+
  have own: "owns (producers ?s u) = (if u = t then Some (brk s) else owns (producers s u))" for u
    by (simp add: enqueue_call_def)
  have notown: "owns (producers s u) \<noteq> Some (brk s)" for u
    using inv dead unfolding mq_inv_def owned_ok_def by (metis option.distinct(1))
  note pub = enqueue_call_public [OF idle, of v]
  have nodes: "nodes ?s = (nodes s)(brk s \<mapsto> \<lparr>node_data = Some v, node_next = None\<rparr>)"
    by (simp add: enqueue_call_def)
  have rest: "q_head ?s = q_head s" "q_tail ?s = q_tail s" "consumer ?s = consumer s"
    "brk ?s = brk s + 1" "refs (producers ?s u) \<subseteq> refs (producers s u)" for u
    by (simp_all add: enqueue_call_def)
  have cons: "consumer_ok (consumer s) xs ?s"
    using inv dead by (cases "consumer s") (auto simp: mq_inv_def nodes rest)
  show ?thesis
    unfolding mq_inv_def
  proof (intro conjI)
    show "path (nodes ?s) (q_head ?s) xs"
      using inv new(1) by (simp add: mq_inv_def nodes rest path_other)
    show "\<forall>a\<in>set xs. has_data ?s a"
      using mq_data [OF inv] by (auto simp: has_data_def nodes)
    show "\<forall>u n. owns (producers ?s u) = Some n \<longrightarrow> owned_ok ?s n"
      using mq_owned [OF inv] by (auto simp: owned_ok_def has_data_def nodes own)
    have "\<not> public s (brk s)" by (simp add: public_def)
    then show "\<forall>a. nodes ?s a \<noteq> None \<longrightarrow>
        a \<in> set (q_head ?s # xs) \<union> doomed (consumer ?s) \<or> \<not> public ?s a"
      using mq_live [OF inv] unfolding pub nodes rest by (metis fun_upd_apply)
    show "\<forall>a. nodes ?s a \<noteq> None \<longrightarrow> a < brk ?s"
      using mq_brk [OF inv] by (auto simp: nodes rest less_Suc_eq)
    show "\<forall>u. \<forall>a\<in>refs (producers ?s u). public ?s a"
      using mq_refs [OF inv] rest(5) unfolding pub by blast
    show "\<forall>u u' n. owns (producers ?s u) = Some n \<and> owns (producers ?s u') = Some n \<longrightarrow> u = u'"
      using mq_owner [OF inv] notown by (auto simp: own)
  qed (use cons in \<open>simp_all add: mq_distinct [OF inv] mq_tail [OF inv] mq_public [OF inv] pub rest
       del: distinct.simps\<close>)
qed

text \<open>The node that is linked in and the node it is linked to.\<close>

lemma link_nodes:
  assumes inv: "mq_inv xs s" and pc: "producers s t = ECasNext n old"
    and nd: "nodes s old = Some nd" "node_next nd = None"
  shows "owned_ok s n" "\<not> public s n" "n < brk s" "public s old" "old = last (q_head s # xs)" "old \<in> set (q_head s # xs)"
    "n \<notin> set (q_head s # xs)" "n \<notin> doomed (consumer s)" "n \<noteq> old"
proof -
  show own: "owned_ok s n" and priv: "\<not> public s n" "n < brk s"
    using mq_owned [OF inv, of t n] mq_brk [OF inv, of n] pc
    by (auto simp: public_def owned_ok_def) (metis owns.simps(5))
  show old: "public s old" "old = last (q_head s # xs)" "old \<in> set (q_head s # xs)"
    using mq_refs [OF inv, of old t] pc public_last [OF inv _ nd] by auto
  show "n \<notin> set (q_head s # xs)" "n \<notin> doomed (consumer s)" "n \<noteq> old"
    using mq_public [OF inv] priv old by blast+
qed

lemma mq_inv_link:
  assumes inv: "mq_inv xs s" and pc: "producers s t = ECasNext n old"
    and nd: "nodes s old = Some nd" "node_next nd = None"
  shows "mq_inv (xs @ [n])
    (set_pc t (ESwing n old) (s\<lparr>nodes := (nodes s)(old \<mapsto> nd\<lparr>node_next := Some n\<rparr>)\<rparr>))"
    (is "mq_inv _ ?s")
proof -
  note l = link_nodes [OF inv pc nd]
  note own = l(1) and priv = l(2,3) and old = l(4-6) and n = l(7-9)
  have nodes: "nodes ?s = (nodes s)(old \<mapsto> nd\<lparr>node_next := Some n\<rparr>)" by simp
  have rest: "q_head ?s = q_head s" "q_tail ?s = q_tail s" "consumer ?s = consumer s" "brk ?s = brk s"
    by simp_all
  have owns: "owns (producers ?s u) = (if u = t then None else owns (producers s u))" for u
    by simp
  have pub: "public ?s a \<longleftrightarrow> public s a \<or> a = n" for a
    unfolding public_def rest owns using priv(2) pc mq_owner [OF inv, of t n]
    by (metis option.distinct(1) option.inject owns.simps(5))
  have data: "has_data ?s a = has_data s a" for a
    using nd by (auto simp: has_data_def nodes)
  have cons: "consumer_ok (consumer s) (xs @ [n]) ?s"
    using mq_consumer [OF inv] n old(3) nd by (cases "consumer s") (auto simp: nodes)
  obtain nd' where nd': "nodes s n = Some nd'" "node_next nd' = None"
    using own by (auto simp: owned_ok_def)
  show ?thesis
    unfolding mq_inv_def
  proof (intro conjI)
    show "path (nodes ?s) (q_head ?s) (xs @ [n])"
      unfolding nodes rest
      using path_snoc [OF mq_path [OF inv] mq_distinct [OF inv] old(2) [symmetric] nd(1) n(1) nd'] .
    show "\<forall>a\<in>set (xs @ [n]). has_data ?s a"
      using mq_data [OF inv] own by (auto simp: data owned_ok_def simp del: set_pc_simps)
    show "\<forall>u m. owns (producers ?s u) = Some m \<longrightarrow> owned_ok ?s m"
    proof (intro allI impI)
      fix u m assume "owns (producers ?s u) = Some m"
      then have m: "owns (producers s u) = Some m" by (auto split: if_splits)
      then have "m \<noteq> old" using old(1) by (auto simp: public_def)
      with mq_owned [OF inv m] show "owned_ok ?s m"
        unfolding owned_ok_def data nodes by simp
    qed
    show "\<forall>a. nodes ?s a \<noteq> None \<longrightarrow>
        a \<in> set (q_head ?s # xs @ [n]) \<union> doomed (consumer ?s) \<or> \<not> public ?s a"
      using mq_live [OF inv] nd(1) unfolding pub nodes rest by (auto split: if_splits)
    show "\<forall>a. nodes ?s a \<noteq> None \<longrightarrow> a < brk ?s"
      using mq_brk [OF inv] nd(1) by (auto simp: nodes rest)
    show "\<forall>a\<in>set (q_head ?s # xs @ [n]) \<union> doomed (consumer ?s). public ?s a"
      using mq_public [OF inv] unfolding pub rest by auto
    show "\<forall>u. \<forall>a\<in>refs (producers ?s u). public ?s a"
      using mq_refs [OF inv] old(1) unfolding pub by auto
    show "\<forall>u u' m. owns (producers ?s u) = Some m \<and> owns (producers ?s u') = Some m \<longrightarrow> u = u'"
      using mq_owner [OF inv] by (auto split: if_splits)
  qed (use cons n mq_distinct [OF inv] mq_tail [OF inv] in \<open>auto simp: pub simp del: fun_upd_apply\<close>)
qed

section \<open>Linearisability\<close>

text \<open>The values in the queue, in order.\<close>

definition queue_data :: "nat list \<Rightarrow> 'a mpsc \<Rightarrow> 'a list" where
  "queue_data xs s = map (\<lambda>a. the (node_data (the (nodes s a)))) xs"

definition mq_history :: "'a mevent list \<Rightarrow> 'a mpsc \<Rightarrow> nat list \<Rightarrow> bool" where
  "mq_history tr s xs \<longleftrightarrow> mq_inv xs s \<and> linked tr = taken tr @ queue_data xs s"

lemma queue_data_set_pc [simp]: "queue_data xs (set_pc t pc s) = queue_data xs s"
  by (simp add: queue_data_def)

lemma queue_data_tail [simp]: "queue_data xs (s\<lparr>q_tail := a\<rparr>) = queue_data xs s"
  by (simp add: queue_data_def)

lemma queue_data_link:
  assumes "nodes s old = Some nd"
  shows "queue_data xs (s\<lparr>nodes := (nodes s)(old \<mapsto> nd\<lparr>node_next := y\<rparr>)\<rparr>) = queue_data xs s"
  using assms by (simp add: queue_data_def)

lemma history_quiet:
  assumes "mq_history tr s xs" and "owns pc = owns (producers s t)" and "\<forall>a\<in>refs pc. public s a"
  shows "mq_history tr (set_pc t pc s) xs"
  using assms mq_inv_set_pc [of xs s pc t] by (auto simp: mq_history_def)

lemma history_move:
  assumes hist: "mq_history tr s xs" and pc: "owns pc = owns (producers s t)" "refs pc = {}" and a: "public s a"
  shows "mq_history tr (set_pc t pc (if q_tail s = old then s\<lparr>q_tail := a\<rparr> else s)) xs"
proof -
  have inv: "mq_inv xs s" using hist by (simp add: mq_history_def)
  have "mq_inv xs (if q_tail s = old then s\<lparr>q_tail := a\<rparr> else s)"
    using mq_inv_set_tail [OF inv a] inv by simp
  from mq_inv_set_pc [OF this, of pc t] pc hist show ?thesis
    by (auto simp: mq_history_def split: if_splits)
qed

lemma history_cas:
  assumes hist: "mq_history tr s xs" and step: "enqueue_step sp t s = Some (ev, s')"
    and pc: "producers s t = ECasNext n old"
  shows "\<exists>ys. mq_history (tr @ ev) s' ys"
proof -
  have inv: "mq_inv xs s" using hist by (simp add: mq_history_def)
  from step pc obtain nd new v where nd: "nodes s old = Some nd" "nodes s n = Some new" "node_data new = Some v"
    by (auto simp: enqueue_step_def)
  show ?thesis
  proof (cases "node_next nd = None \<and> \<not> sp")
    case True
    let ?s = "s\<lparr>nodes := (nodes s)(old \<mapsto> nd\<lparr>node_next := Some n\<rparr>)\<rparr>"
    have res: "ev = [Linked t v]" "s' = set_pc t (ESwing n old) ?s"
      using step pc nd True by (auto simp: enqueue_step_def)
    have "queue_data (xs @ [n]) ?s = queue_data xs s @ [v]"
      using queue_data_link [OF nd(1), of "xs @ [n]" "Some n"] nd(2,3) by (simp add: queue_data_def)
    with mq_inv_link [OF inv pc nd(1)] True hist res show ?thesis
      by (intro exI [of _ "xs @ [n]"]) (simp add: mq_history_def)
  next
    case False
    with step pc nd have "ev = []" "s' = set_pc t (EStart n) s" by (auto simp: enqueue_step_def)
    with history_quiet [OF hist, of "EStart n" t] pc show ?thesis by auto
  qed
qed

lemma enqueue_history:
  assumes hist: "mq_history tr s xs" and step: "enqueue_step sp t s = Some (ev, s')"
  shows "\<exists>ys. mq_history (tr @ ev) s' ys"
proof -
  have inv: "mq_inv xs s" using hist by (simp add: mq_history_def)
  note refs = mq_refs [OF inv, of _ t]
  have quiet: ?thesis
    if "ev = []" "s' = set_pc t pc s" "owns pc = owns (producers s t)" "\<forall>a\<in>refs pc. public s a" for pc
    using that history_quiet [OF hist] by auto
  have move: ?thesis
    if "ev = []" "s' = set_pc t pc (if q_tail s = old then s\<lparr>q_tail := a\<rparr> else s)"
      "owns pc = owns (producers s t)" "refs pc = {}" "public s a" for pc old a
    unfolding that(1,2) append_Nil2 by (rule exI, rule history_move [OF hist that(3-5)])
  show ?thesis
  proof (cases "producers s t")
    case EIdle
    with step hist show ?thesis by (auto simp: enqueue_step_def)
  next
    case (EStart n)
    with step show ?thesis
      by (intro quiet [of "EGotTail n (q_tail s)"]) (auto simp: enqueue_step_def mq_tail [OF inv])
  next
    case (EGotTail n old)
    with step obtain nd where nd: "nodes s old = Some nd" "ev = []"
      "s' = set_pc t (EGotNext n old (node_next nd)) s"
      by (auto simp: enqueue_step_def)
    have "public s old" using refs EGotTail by simp
    with nd EGotTail public_next [OF inv _ nd(1)] show ?thesis
      by (intro quiet [of "EGotNext n old (node_next nd)"]) (auto split: option.splits)
  next
    case (EGotNext n old nx)
    let ?pc = "if old = q_tail s then (case nx of None \<Rightarrow> ECasNext n old | Some x \<Rightarrow> EHelp n old x)
      else EStart n"
    from EGotNext step refs show ?thesis
      by (intro quiet [of ?pc]) (auto simp: enqueue_step_def split: option.splits)
  next
    case (ECasNext n old)
    then show ?thesis by (rule history_cas [OF hist step])
  next
    case (ESwing n old)
    with step refs show ?thesis
      by (intro move [of EIdle old n]) (auto simp: enqueue_step_def)
  next
    case (EHelp n old x)
    with step refs show ?thesis
      by (intro move [of "EStart n" old x]) (auto simp: enqueue_step_def)
  qed
qed

lemma consumer_ok_consumer [simp]: "consumer_ok c xs (s\<lparr>consumer := c'\<rparr>) = consumer_ok c xs s"
  by (cases c) simp_all

lemma mq_inv_consumer:
  assumes "mq_inv xs s" and "doomed (consumer s) = {}" and "doomed c = {}" and "consumer_ok c xs s"
  shows "mq_inv xs (s\<lparr>consumer := c\<rparr>)"
  using assms by (simp add: mq_inv_def public_def has_data_def owned_ok_def)

lemma mq_inv_take:
  assumes inv: "mq_inv (x # ys) s" and c: "consumer s = DMoved h x v"
  shows "mq_inv ys (s\<lparr>q_head := x, consumer := DStored h v\<rparr>)" (is "mq_inv ys ?s")
proof -
  have h: "h = q_head s" using mq_consumer [OF inv] c by simp
  have pub: "public ?s a = public s a" for a by (simp add: public_def)
  have dat: "has_data ?s a = has_data s a" "owned_ok ?s a = owned_ok s a" for a
    by (simp_all add: has_data_def owned_ok_def)
  have "consumer_ok (DStored h v) ys ?s"
    using mq_path [OF inv] mq_distinct [OF inv] h by auto
  then show ?thesis
    using inv c h unfolding mq_inv_def pub dat by auto
qed

lemma mq_inv_delete:
  assumes inv: "mq_inv xs s" and c: "consumer s = DStored h v"
  shows "mq_inv xs (s\<lparr>nodes := (nodes s)(h := None), consumer := DIdle\<rparr>)" (is "mq_inv xs ?s")
proof -
  have h: "h \<notin> set (q_head s # xs)" using mq_consumer [OF inv] c by simp
  have pub: "public ?s a = public s a" for a by (simp add: public_def)
  have "public s h" using mq_public [OF inv] c by simp
  then have own: "owns (producers s t) = Some n \<Longrightarrow> n \<noteq> h" for t n by (auto simp: public_def)
  have dat: "has_data ?s a = has_data s a" "owned_ok ?s a = owned_ok s a" if "a \<noteq> h" for a
    using that by (simp_all add: has_data_def owned_ok_def)
  have "\<forall>a\<in>set xs. has_data ?s a"
  proof
    fix a assume a: "a \<in> set xs"
    with h have "a \<noteq> h" by auto
    from dat(1) [OF this] mq_data [OF inv a] show "has_data ?s a" by (rule iffD2)
  qed
  moreover have "\<forall>t n. owns (producers ?s t) = Some n \<longrightarrow> owned_ok ?s n"
    using mq_owned [OF inv] own dat by simp
  moreover have "path (nodes ?s) (q_head ?s) xs"
    using mq_path [OF inv] by (simp add: path_other [OF h])
  moreover have "\<forall>a. nodes ?s a \<noteq> None \<longrightarrow>
      a \<in> set (q_head ?s # xs) \<union> doomed (consumer ?s) \<or> \<not> public ?s a"
    using mq_live [OF inv] c unfolding pub by auto
  ultimately show ?thesis
    using inv unfolding mq_inv_def pub by auto
qed

lemma history_take:
  assumes hist: "mq_history tr s xs" and step: "dequeue_step s = Some (ev, s')"
    and pc: "consumer s = DMoved h x v"
  shows "\<exists>ys. mq_history (tr @ ev) s' ys"
proof -
  have inv: "mq_inv xs s" using hist by (simp add: mq_history_def)
  obtain ys where ys: "xs = x # ys" using mq_consumer [OF inv] pc by auto
  obtain nd d where d: "nodes s x = Some nd" "node_data nd = Some d" "v = Some d"
    using pc mq_consumer [OF inv] mq_data [OF inv, of x] ys by (auto simp: has_data_def)
  with step pc have "ev = [Taken d]" "s' = s\<lparr>q_head := x, consumer := DStored h v\<rparr>"
    by (auto simp: dequeue_step_def)
  with mq_inv_take [of x ys s h v] hist pc ys d show ?thesis
    by (intro exI [of _ ys]) (auto simp: mq_history_def queue_data_def)
qed

lemma history_free:
  assumes hist: "mq_history tr s xs" and step: "dequeue_step s = Some (ev, s')"
    and pc: "consumer s = DStored h v"
  shows "\<exists>ys. mq_history (tr @ ev) s' ys"
proof -
  have inv: "mq_inv xs s" using hist by (simp add: mq_history_def)
  from step pc have "ev = []" "s' = s\<lparr>nodes := (nodes s)(h := None), consumer := DIdle\<rparr>"
    by (auto simp: dequeue_step_def)
  moreover have "h \<notin> set xs" using mq_consumer [OF inv] pc by simp
  then have "queue_data xs (s\<lparr>nodes := (nodes s)(h := None), consumer := DIdle\<rparr>) = queue_data xs s"
    by (auto simp: queue_data_def)
  ultimately show ?thesis using mq_inv_delete [OF inv pc] hist by (auto simp: mq_history_def)
qed

lemma dequeue_history:
  assumes hist: "mq_history tr s xs" and step: "dequeue_step s = Some (ev, s')"
  shows "\<exists>ys. mq_history (tr @ ev) s' ys"
proof -
  have inv: "mq_inv xs s" using hist by (simp add: mq_history_def)
  note ok = mq_consumer [OF inv]
  have quiet: ?thesis
    if "ev = []" "s' = s\<lparr>consumer := c\<rparr>" "doomed (consumer s) = {}" "doomed c = {}"
      "consumer_ok c xs s" for c
    using that mq_inv_consumer [OF inv] hist by (auto simp: mq_history_def queue_data_def)
  show ?thesis
  proof (cases "consumer s")
    case DIdle
    with step hist show ?thesis by (auto simp: dequeue_step_def)
  next
    case (DHead h)
    with step obtain nd where nd: "nodes s h = Some nd" "ev = []"
      "s' = s\<lparr>consumer := (case node_next nd of None \<Rightarrow> DIdle | Some x \<Rightarrow> DNext h x)\<rparr>"
      by (auto simp: dequeue_step_def)
    with DHead ok mq_path [OF inv] show ?thesis
      by (intro quiet [of "case node_next nd of None \<Rightarrow> DIdle | Some x \<Rightarrow> DNext h x"])
        (cases xs; auto split: option.splits)+
  next
    case (DNext h x)
    with step obtain nd where "nodes s x = Some nd" "ev = []"
      "s' = s\<lparr>consumer := DMoved h x (node_data nd)\<rparr>"
      by (auto simp: dequeue_step_def)
    with DNext ok show ?thesis by (intro quiet [of "DMoved h x (node_data nd)"]) auto
  next
    case (DMoved h x v)
    then show ?thesis by (rule history_take [OF hist step])
  next
    case (DStored h v)
    then show ?thesis by (rule history_free [OF hist step])
  qed
qed

lemma enqueue_call_history:
  assumes h: "mq_history tr s xs" and "producers s t = EIdle"
  shows "mq_history tr (enqueue_call t v s) xs"
proof -
  have "a \<in> set xs \<Longrightarrow> a \<noteq> brk s" for a
    using h mq_public [of xs s a] by (auto simp: mq_history_def public_def)
  then have "queue_data xs (enqueue_call t v s) = queue_data xs s"
    by (auto simp: queue_data_def enqueue_call_def)
  with h mq_inv_call [OF _ assms(2), of xs v] show ?thesis by (auto simp: mq_history_def)
qed

lemma dequeue_call_history:
  "mq_history tr s xs \<Longrightarrow> consumer s = DIdle \<Longrightarrow> mq_history tr (dequeue_call s) xs"
  using mq_inv_consumer [of xs s "DHead (q_head s)"]
  by (auto simp: mq_history_def dequeue_call_def queue_data_def)

lemma new_history: "mq_history [] MPSCQueue_new []"
  by (simp add: mq_history_def mq_inv_def MPSCQueue_new_def public_def queue_data_def)

lemma reach_history: "mq_reach tr s \<Longrightarrow> \<exists>xs. mq_history tr s xs"
proof (induction rule: mq_reach.induct)
  case start
  show ?case using new_history by blast
next
  case (call_enqueue tr s t v)
  then show ?case using enqueue_call_history [OF _ call_enqueue.hyps(2)] by blast
next
  case (run_enqueue tr s sp t ev s')
  then show ?case using enqueue_history [OF _ run_enqueue.hyps(2)] by blast
next
  case (call_dequeue tr s)
  then show ?case using dequeue_call_history [OF _ call_dequeue.hyps(2)] by blast
next
  case (run_dequeue tr s ev s')
  then show ?case using dequeue_history [OF _ run_dequeue.hyps(2)] by blast
qed

lemma reach_inv:
  assumes "mq_reach tr s"
  obtains xs where "mq_inv xs s" and "linked tr = taken tr @ queue_data xs s"
  using reach_history [OF assms] by (auto simp: mq_history_def)

lemma dequeue_live: "mq_inv xs s \<Longrightarrow> dequeue_step s \<noteq> None"
  using mq_consumer [of xs s] mq_path [of xs s] mq_data [of xs s "hd xs"]
  by (cases "consumer s"; cases xs) (auto simp: dequeue_step_def has_data_def)

text \<open>Runs given by a schedule, for concrete executions.\<close>

datatype 'a action = CallEnqueue nat 'a | RunEnqueue nat | CallDequeue | RunDequeue

fun mq_act :: "'a action \<Rightarrow> 'a mevent list \<times> 'a mpsc \<Rightarrow> ('a mevent list \<times> 'a mpsc) option" where
  "mq_act (CallEnqueue t v) (tr, s) =
     (if producers s t = EIdle then Some (tr, enqueue_call t v s) else None)"
| "mq_act (RunEnqueue t) (tr, s) = map_option (\<lambda>(ev, s'). (tr @ ev, s')) (enqueue_step False t s)"
| "mq_act CallDequeue (tr, s) = (if consumer s = DIdle then Some (tr, dequeue_call s) else None)"
| "mq_act RunDequeue (tr, s) = map_option (\<lambda>(ev, s'). (tr @ ev, s')) (dequeue_step s)"

fun mq_exec :: "'a action list \<Rightarrow> 'a mevent list \<times> 'a mpsc \<Rightarrow> ('a mevent list \<times> 'a mpsc) option" where
  "mq_exec [] c = Some c"
| "mq_exec (a # as) c = Option.bind (mq_act a c) (mq_exec as)"

lemma mq_act_reach: "mq_act a (tr, s) = Some (tr', s') \<Longrightarrow> mq_reach tr s \<Longrightarrow> mq_reach tr' s'"
  by (cases a) (auto split: if_splits intro: mq_reach.intros)

lemma mq_exec_reach: "mq_exec as (tr, s) = Some (tr', s') \<Longrightarrow> mq_reach tr s \<Longrightarrow> mq_reach tr' s'"
  by (induction as arbitrary: tr s) (auto dest: mq_act_reach)

text \<open>An enqueue and a dequeue that run without interruption.\<close>

definition whole_enqueue :: "nat \<Rightarrow> 'a \<Rightarrow> 'a action list" where
  "whole_enqueue t v = CallEnqueue t v # replicate 5 (RunEnqueue t)"

definition whole_dequeue :: "'a action list" where
  "whole_dequeue = CallDequeue # replicate 4 RunDequeue"

lemmas mq_run_defs = whole_enqueue_def whole_dequeue_def MPSCQueue_new_def enqueue_call_def
  dequeue_call_def enqueue_step_def dequeue_step_def set_pc_def numeral_eq_Suc

section \<open>Memory safety\<close>

text \<open>Property C31. With two producers the queue reads a deleted node: a producer that has read
  \<open>tail_\<close> can be overtaken by another producer and by the consumer, which deletes the node
  the first one is about to read.\<close>

theorem mpsc_use_after_free:
  "\<exists>(tr :: string mevent list) s t. mq_reach tr s \<and> enqueue_step False t s = None"
proof -
  let ?run = "[CallEnqueue 1 ''a'', RunEnqueue 1] @ whole_enqueue 2 ''b'' @ whole_dequeue"
  obtain tr s where s: "mq_exec ?run ([], MPSCQueue_new) = Some (tr, s)"
    and pc: "producers s 1 = EGotTail 1 0" and gone: "nodes s 0 = None"
    by (simp add: mq_run_defs)
  from pc gone have "enqueue_step False 1 s = None" by (simp add: enqueue_step_def)
  with mq_exec_reach [OF s mq_reach.start] show ?thesis by blast
qed

text \<open>With a single producer \<open>p\<close> it does not.\<close>

inductive sp_reach :: "nat \<Rightarrow> 'a mevent list \<Rightarrow> 'a mpsc \<Rightarrow> bool" for p where
  sp_start: "sp_reach p [] MPSCQueue_new"
| sp_call_enqueue: "sp_reach p tr s \<Longrightarrow> producers s p = EIdle \<Longrightarrow> sp_reach p tr (enqueue_call p v s)"
| sp_run_enqueue: "sp_reach p tr s \<Longrightarrow> enqueue_step sp p s = Some (ev, s') \<Longrightarrow> sp_reach p (tr @ ev) s'"
| sp_call_dequeue: "sp_reach p tr s \<Longrightarrow> consumer s = DIdle \<Longrightarrow> sp_reach p tr (dequeue_call s)"
| sp_run_dequeue: "sp_reach p tr s \<Longrightarrow> dequeue_step s = Some (ev, s') \<Longrightarrow> sp_reach p (tr @ ev) s'"

lemma sp_reach_reach: "sp_reach p tr s \<Longrightarrow> mq_reach tr s"
  by (induction rule: sp_reach.induct) (auto intro: mq_reach.intros)

definition is_end :: "'a mpsc \<Rightarrow> nat \<Rightarrow> bool" where
  "is_end s a \<longleftrightarrow> (\<exists>nd. nodes s a = Some nd \<and> node_next nd = None)"

fun sp_ok :: "enq_pc \<Rightarrow> 'a mpsc \<Rightarrow> bool" where
  "sp_ok EIdle s \<longleftrightarrow> is_end s (q_tail s)"
| "sp_ok (EStart n) s \<longleftrightarrow> is_end s (q_tail s)"
| "sp_ok (EGotTail n old) s \<longleftrightarrow> old = q_tail s \<and> is_end s old"
| "sp_ok (EGotNext n old nx) s \<longleftrightarrow> old = q_tail s \<and> is_end s old \<and> nx = None"
| "sp_ok (ECasNext n old) s \<longleftrightarrow> old = q_tail s \<and> is_end s old"
| "sp_ok (ESwing n old) s \<longleftrightarrow> old = q_tail s \<and> is_end s n"
| "sp_ok (EHelp n old x) s \<longleftrightarrow> False"

lemma sp_ok_mono:
  "sp_ok pc s \<Longrightarrow> q_tail s' = q_tail s \<Longrightarrow> (\<And>a. is_end s a \<Longrightarrow> is_end s' a) \<Longrightarrow> sp_ok pc s'"
  by (cases pc) auto

lemma sp_ok_enqueue:
  assumes inv: "mq_inv xs s" and ok: "sp_ok (producers s p) s"
    and step: "enqueue_step sp p s = Some (ev, s')"
  shows "sp_ok (producers s' p) s'"
proof (cases "producers s p")
  case (ECasNext n old)
  have n: "is_end s n" "\<not> public s n" "public s old"
    using mq_owned [OF inv, of p n] mq_refs [OF inv, of old p] ECasNext
    by (auto simp: is_end_def owned_ok_def public_def) (metis owns.simps(5))
  then have "n \<noteq> old" by auto
  with n(1) ok step ECasNext show ?thesis
    by (auto simp: enqueue_step_def is_end_def split: if_splits)
qed (use ok step in \<open>auto simp: enqueue_step_def is_end_def split: if_splits option.splits\<close>)

lemma sp_reach_ok: "sp_reach p tr s \<Longrightarrow> sp_ok (producers s p) s"
proof (induction rule: sp_reach.induct)
  case sp_start
  show ?case by (simp add: MPSCQueue_new_def is_end_def)
next
  case (sp_call_enqueue tr s v)
  then have "is_end s (q_tail s)" by simp
  moreover obtain xs where "mq_inv xs s"
    by (rule reach_inv [OF sp_reach_reach [OF sp_call_enqueue.hyps(1)]])
  then have "q_tail s \<noteq> brk s" using mq_tail [of xs s] by (auto simp: public_def)
  ultimately show ?case by (simp add: enqueue_call_def is_end_def)
next
  case (sp_run_enqueue tr s sp ev s')
  obtain xs where "mq_inv xs s"
    by (rule reach_inv [OF sp_reach_reach [OF sp_run_enqueue.hyps(1)]])
  from sp_ok_enqueue [OF this sp_run_enqueue.IH sp_run_enqueue.hyps(2)] show ?case .
next
  case (sp_call_dequeue tr s)
  then show ?case by (auto simp: dequeue_call_def is_end_def intro: sp_ok_mono)
next
  case (sp_run_dequeue tr s ev s')
  obtain xs where inv: "mq_inv xs s"
    by (rule reach_inv [OF sp_reach_reach [OF sp_run_dequeue.hyps(1)]])
  have "producers s' = producers s" "q_tail s' = q_tail s"
    using sp_run_dequeue.hyps(2) by (auto simp: dequeue_step_def split: deq_pc.splits)
  moreover have "is_end s' a" if "is_end s a" for a
    using sp_run_dequeue.hyps(2) mq_consumer [OF inv] that
    by (auto simp: dequeue_step_def is_end_def split: deq_pc.splits)
  ultimately show ?case using sp_ok_mono [OF sp_run_dequeue.IH, of s'] by simp
qed

text \<open>Property C30. With one producer and one consumer, under every interleaving neither side
  ever touches a deleted node.\<close>

theorem spsc_memory_safe:
  assumes "sp_reach p tr s"
  shows "enqueue_step sp p s \<noteq> None \<and> dequeue_step s \<noteq> None"
proof -
  obtain xs where inv: "mq_inv xs s"
    by (rule reach_inv [OF sp_reach_reach [OF assms]])
  have "enqueue_step sp p s \<noteq> None"
    using sp_reach_ok [OF assms] mq_owned [OF inv, of p]
    by (cases "producers s p") (auto simp: enqueue_step_def is_end_def owned_ok_def has_data_def)
  then show ?thesis using dequeue_live [OF inv] ..
qed

lemma sp_exec_enqueue:
  "mq_exec (replicate k (RunEnqueue p)) (tr, s) = Some (tr', s') \<Longrightarrow> sp_reach p tr s \<Longrightarrow> sp_reach p tr' s'"
  by (induction k arbitrary: tr s) (auto intro: sp_run_enqueue)

theorem spsc_memory_safe_witness:
  "\<exists>s. mq_exec (replicate 2 (RunEnqueue 3)) ([], enqueue_call 3 (7 :: int) MPSCQueue_new) = Some ([], s) \<and>
    enqueue_step False 3 s \<noteq> None \<and> dequeue_step s \<noteq> None"
proof -
  have r: "sp_reach 3 [] (enqueue_call 3 (7 :: int) MPSCQueue_new)"
    by (rule sp_call_enqueue [OF sp_start]) (simp add: MPSCQueue_new_def)
  obtain s where s: "mq_exec (replicate 2 (RunEnqueue 3))
      ([], enqueue_call 3 (7 :: int) MPSCQueue_new) = Some ([], s)"
    by (simp add: mq_run_defs)
  with spsc_memory_safe [OF sp_exec_enqueue [OF s r], of False] show ?thesis by blast
qed

section \<open>The queue as its clients use it\<close>

definition enqueue :: "'a \<Rightarrow> 'a mpsc \<Rightarrow> 'a mpsc option" where
  "enqueue v s = map_option snd (mq_exec (whole_enqueue 0 v) ([], s))"

definition dequeue :: "'a mpsc \<Rightarrow> ('a option \<times> 'a mpsc) option" where
  "dequeue s =
     do { (ev, s') \<leftarrow> mq_exec whole_dequeue ([], s);
          Some (case taken ev of [] \<Rightarrow> None | v # vs \<Rightarrow> Some v, s') }"

fun dequeue_bulk :: "nat \<Rightarrow> 'a mpsc \<Rightarrow> ('a list \<times> 'a mpsc) option" where
  "dequeue_bulk 0 s = Some ([], s)"
| "dequeue_bulk (Suc max_count) s =
     do { (res, s1) \<leftarrow> dequeue s;
          case res of
            None \<Rightarrow> Some ([], s1)
          | Some v \<Rightarrow> do { (vs, s2) \<leftarrow> dequeue_bulk max_count s1; Some (v # vs, s2) } }"

text \<open>The contract: a first-in-first-out queue that holds the values \<open>vs\<close>.\<close>

locale fifo =
  fixes rep :: "'q \<Rightarrow> 'a list \<Rightarrow> bool"
    and enq :: "'a \<Rightarrow> 'q \<Rightarrow> 'q option"
    and deq :: "'q \<Rightarrow> ('a option \<times> 'q) option"
    and bulk :: "nat \<Rightarrow> 'q \<Rightarrow> ('a list \<times> 'q) option"
  assumes enq_law: "rep q vs \<Longrightarrow> \<exists>q'. enq v q = Some q' \<and> rep q' (vs @ [v])"
    and deq_nil: "rep q [] \<Longrightarrow> \<exists>q'. deq q = Some (None, q') \<and> rep q' []"
    and deq_cons: "rep q (v # vs) \<Longrightarrow> \<exists>q'. deq q = Some (Some v, q') \<and> rep q' vs"
    and bulk_0: "bulk 0 q = Some ([], q)"
    and bulk_Suc: "bulk (Suc n) q =
      do { (r, q1) \<leftarrow> deq q;
           case r of None \<Rightarrow> Some ([], q1)
           | Some v \<Rightarrow> do { (vs, q2) \<leftarrow> bulk n q1; Some (v # vs, q2) } }"
begin

lemma bulk_takes: "rep q vs \<Longrightarrow> \<exists>q'. bulk n q = Some (take n vs, q') \<and> rep q' (drop n vs)"
proof (induction n arbitrary: q vs)
  case (Suc n)
  show ?case
  proof (cases vs)
    case Nil
    then show ?thesis using deq_nil [of q] Suc.prems by (auto simp: bulk_Suc)
  next
    case (Cons v ws)
    with deq_cons Suc.prems obtain q1 where q1: "deq q = Some (Some v, q1)" "rep q1 ws" by blast
    with Suc.IH [OF q1(2)] Cons show ?thesis by (auto simp: bulk_Suc)
  qed
qed (simp add: bulk_0)

end

definition mq_rep :: "'a mpsc \<Rightarrow> 'a list \<Rightarrow> bool" where
  "mq_rep s vs \<longleftrightarrow> producers s 0 = EIdle \<and> consumer s = DIdle \<and> is_end s (q_tail s) \<and>
     (\<exists>xs. mq_inv xs s \<and> queue_data xs s = vs)"

lemma mq_rep_new: "mq_rep MPSCQueue_new []"
  using new_history
  by (auto simp: mq_rep_def mq_history_def is_end_def MPSCQueue_new_def queue_data_def)

lemma mq_act_history:
  "mq_act a (tr, s) = Some (tr', s') \<Longrightarrow> mq_history tr s xs \<Longrightarrow> \<exists>ys. mq_history tr' s' ys"
  by (cases a) (auto split: if_splits intro: enqueue_call_history dequeue_call_history
      dest: enqueue_history dequeue_history)

lemma mq_exec_history:
  "mq_exec as (tr, s) = Some (tr', s') \<Longrightarrow> mq_history tr s xs \<Longrightarrow> \<exists>ys. mq_history tr' s' ys"
  by (induction as arbitrary: tr s xs) (auto dest: mq_act_history)

lemma mq_exec_trace:
  "mq_exec as (tr, s) = Some (tr', s') \<Longrightarrow> mq_exec as (tr0 @ tr, s) = Some (tr0 @ tr', s')"
proof (induction as arbitrary: tr s)
  case (Cons a as)
  then obtain tr1 s1 where "mq_act a (tr, s) = Some (tr1, s1)" "mq_exec as (tr1, s1) = Some (tr', s')"
    by auto
  moreover from this have "mq_act a (tr0 @ tr, s) = Some (tr0 @ tr1, s1)"
    by (cases a) (auto split: if_splits)
  ultimately show ?case using Cons.IH by simp
qed simp

text \<open>A run changes the contents by what it links and takes.\<close>

lemma mq_exec_contents:
  assumes run: "mq_exec as ([], s) = Some (ev, s')" and inv: "mq_inv xs s"
  obtains ys where "mq_inv ys s'" and "queue_data xs s @ linked ev = taken ev @ queue_data ys s'"
proof -
  let ?tr = "map (Linked 0) (queue_data xs s)"
  have "linked (map (Linked 0) vs) = vs" "taken (map (Linked 0) vs) = []" for vs :: "'a list"
    by (induction vs) auto
  then have "mq_history ?tr s xs" using inv by (simp add: mq_history_def)
  moreover have "mq_exec as (?tr, s) = Some (?tr @ ev, s')"
    using mq_exec_trace [OF run, of ?tr] by simp
  ultimately obtain ys where "mq_history (?tr @ ev) s' ys" using mq_exec_history by blast
  with that \<open>\<And>vs. linked (map (Linked 0) vs) = vs\<close> \<open>\<And>vs. taken (map (Linked 0) vs) = []\<close>
  show thesis by (auto simp: mq_history_def)
qed

lemma enqueue_runs:
  assumes idle: "producers s 0 = EIdle" and nd: "nodes s (q_tail s) = Some nd" "node_next nd = None"
    and fresh: "q_tail s \<noteq> brk s"
  obtains s' where "mq_exec (whole_enqueue 0 v) ([], s) = Some ([Linked 0 v], s')"
    and "producers s' 0 = EIdle" and "consumer s' = consumer s" and "is_end s' (q_tail s')"
  using assms
  by (simp add: whole_enqueue_def numeral_eq_Suc enqueue_call_def enqueue_step_def set_pc_def is_end_def)

lemma dequeue_runs:
  assumes inv: "mq_inv xs s" and idle: "consumer s = DIdle"
  obtains s' where "mq_exec whole_dequeue ([], s) =
      Some (map Taken (take 1 (queue_data xs s)), s')"
    and "producers s' = producers s" and "consumer s' = DIdle" and "q_tail s' = q_tail s"
    and "\<And>a. is_end s a \<Longrightarrow> is_end s' a"
proof (cases xs)
  case Nil
  then show thesis
    using that mq_path [OF inv] idle
    by (auto simp: whole_dequeue_def numeral_eq_Suc dequeue_call_def dequeue_step_def queue_data_def
        is_end_def)
next
  case (Cons x ys)
  obtain nd1 nd2 where nd: "nodes s (q_head s) = Some nd1" "node_next nd1 = Some x" "nodes s x = Some nd2"
    using mq_path [OF inv] Cons by (cases ys) auto
  moreover obtain v where "node_data nd2 = Some v"
    using mq_data [OF inv, of x] Cons nd by (auto simp: has_data_def)
  moreover have "q_head s \<noteq> x" using mq_distinct [OF inv] Cons by simp
  ultimately show thesis
    using Cons idle
    by (intro that [of "s\<lparr>nodes := (nodes s)(q_head s := None), q_head := x, consumer := DIdle\<rparr>"])
      (auto simp: whole_dequeue_def numeral_eq_Suc dequeue_call_def dequeue_step_def queue_data_def
        is_end_def)
qed

lemma enqueue_law:
  assumes "mq_rep s vs"
  shows "\<exists>s'. enqueue v s = Some s' \<and> mq_rep s' (vs @ [v])"
proof -
  obtain xs where inv: "mq_inv xs s" "queue_data xs s = vs" using assms by (auto simp: mq_rep_def)
  have "q_tail s \<noteq> brk s" using mq_tail [OF inv(1)] by (auto simp: public_def)
  then obtain s' where s': "mq_exec (whole_enqueue 0 v) ([], s) = Some ([Linked 0 v], s')"
    "producers s' 0 = EIdle" "consumer s' = consumer s" "is_end s' (q_tail s')"
    using assms enqueue_runs [of s] by (auto simp: mq_rep_def is_end_def)
  obtain ys where "mq_inv ys s'" "vs @ [v] = queue_data ys s'"
    by (rule mq_exec_contents [OF s'(1) inv(1)]) (simp add: inv(2))
  with s' assms show ?thesis unfolding enqueue_def mq_rep_def by auto
qed

lemma dequeue_law:
  assumes "mq_rep s vs"
  shows "\<exists>s'. dequeue s = Some (case vs of [] \<Rightarrow> None | v # ws \<Rightarrow> Some v, s') \<and> mq_rep s' (drop 1 vs)"
proof -
  obtain xs where inv: "mq_inv xs s" "queue_data xs s = vs" using assms by (auto simp: mq_rep_def)
  obtain s' where s': "mq_exec whole_dequeue ([], s) = Some (map Taken (take 1 vs), s')"
    "producers s' = producers s" "consumer s' = DIdle" "q_tail s' = q_tail s"
    "\<And>a. is_end s a \<Longrightarrow> is_end s' a"
    using dequeue_runs [OF inv(1)] assms inv(2) by (auto simp: mq_rep_def)
  obtain ys where "mq_inv ys s'"
    "vs @ linked (map Taken (take 1 vs)) = taken (map Taken (take 1 vs)) @ queue_data ys s'"
    by (rule mq_exec_contents [OF s'(1) inv(1)]) (simp add: inv(2))
  with s' assms show ?thesis
    by (cases vs) (auto simp: dequeue_def mq_rep_def)
qed

interpretation mq: fifo mq_rep enqueue dequeue dequeue_bulk
proof
  fix q :: "'a mpsc" and v vs
  show "\<exists>q'. enqueue v q = Some q' \<and> mq_rep q' (vs @ [v])" if "mq_rep q vs"
    using enqueue_law [OF that] .
  show "\<exists>q'. dequeue q = Some (None, q') \<and> mq_rep q' []" if "mq_rep q []"
    using dequeue_law [OF that] by simp
  show "\<exists>q'. dequeue q = Some (Some v, q') \<and> mq_rep q' vs" if "mq_rep q (v # vs)"
    using dequeue_law [OF that] by simp
qed simp_all

fun enqueue_all :: "'a list \<Rightarrow> 'a mpsc \<Rightarrow> 'a mpsc option" where
  "enqueue_all [] s = Some s"
| "enqueue_all (v # vs) s = Option.bind (enqueue v s) (enqueue_all vs)"

lemma enqueue_all_law: "mq_rep s vs \<Longrightarrow> \<exists>s'. enqueue_all ws s = Some s' \<and> mq_rep s' (vs @ ws)"
proof (induction ws arbitrary: s vs)
  case (Cons w ws)
  then obtain s1 where "enqueue w s = Some s1" "mq_rep s1 (vs @ [w])" using mq.enq_law [OF Cons.prems] by blast
  with Cons.IH [of s1 "vs @ [w]"] show ?case by simp
qed simp

text \<open>Whole operations, one after the other, never touch a deleted node and treat
  the queue as a list: after the values \<open>ws\<close> were enqueued into a new queue, a bulk
  dequeue of at most \<open>n\<close> returns the first \<open>n\<close> of them in order and leaves the rest.\<close>

lemma dequeue_bulk_fifo:
  "\<exists>s s'. enqueue_all ws MPSCQueue_new = Some s \<and>
     dequeue_bulk n s = Some (take n ws, s') \<and> mq_rep s' (drop n ws)"
proof -
  obtain s where s: "enqueue_all ws MPSCQueue_new = Some s" "mq_rep s ws"
    using enqueue_all_law [OF mq_rep_new, of ws] by auto
  with mq.bulk_takes [OF s(2), of n] show ?thesis by blast
qed

section \<open>Destruction\<close>

text \<open>The loop of the destructor: it ends when \<open>dequeue\<close> finds nothing.\<close>

partial_function (option) mq_drain :: "'a mpsc \<Rightarrow> 'a mpsc option" where
  "mq_drain s = do { (res, s1) \<leftarrow> dequeue s; case res of None \<Rightarrow> Some s1 | Some v \<Rightarrow> mq_drain s1 }"

definition MPSCQueue_delete :: "'a mpsc \<Rightarrow> 'a mpsc option" where
  "MPSCQueue_delete s =
     do { s1 \<leftarrow> mq_drain s;
          nd \<leftarrow> nodes s1 (q_head s1);
          Some (s1\<lparr>nodes := (nodes s1)(q_head s1 := None)\<rparr>) }"

text \<open>A whole \<open>dequeue\<close> on a queue that holds the values \<open>vs\<close>.\<close>

lemma dequeue_takes:
  assumes inv: "mq_inv xs s" "queue_data xs s = vs" and idle: "consumer s = DIdle"
  obtains ys s' where "dequeue s = Some (case vs of [] \<Rightarrow> None | v # _ \<Rightarrow> Some v, s')" and "mq_inv ys s'"
    and "queue_data ys s' = tl vs" and "producers s' = producers s" and "consumer s' = DIdle"
proof -
  obtain s' where s': "mq_exec whole_dequeue ([], s) = Some (map Taken (take 1 vs), s')"
    "producers s' = producers s" "consumer s' = DIdle"
    using dequeue_runs [OF inv(1) idle] inv(2) by blast
  obtain ys where ys: "mq_inv ys s'" "vs @ linked (map Taken (take 1 vs)) = taken (map Taken (take 1 vs)) @ queue_data ys s'"
    using mq_exec_contents [OF s'(1) inv(1)] inv(2) by blast
  from s' ys show thesis by (cases vs) (auto simp: dequeue_def intro: that)
qed

lemma mq_drain_ends:
  "mq_inv xs s \<Longrightarrow> queue_data xs s = vs \<Longrightarrow> consumer s = DIdle \<Longrightarrow>
   \<exists>s'. mq_drain s = Some s' \<and> mq_inv [] s' \<and> producers s' = producers s \<and> consumer s' = DIdle"
proof (induction vs arbitrary: xs s)
  case Nil
  obtain ys s' where s': "dequeue s = Some (None, s')" "mq_inv ys s'" "queue_data ys s' = []"
    "producers s' = producers s" "consumer s' = DIdle"
    using dequeue_takes [OF Nil] by (metis list.case(1) list.sel(2))
  then have "ys = []" by (simp add: queue_data_def)
  with s' show ?case by (simp add: mq_drain.simps [of s])
next
  case (Cons v vs)
  obtain ys s1 where s1: "dequeue s = Some (Some v, s1)" "mq_inv ys s1" "queue_data ys s1 = vs"
    "producers s1 = producers s" "consumer s1 = DIdle"
    using dequeue_takes [OF Cons.prems] by (metis list.case(2) list.sel(3))
  from Cons.IH [OF s1(2,3,5)] s1(1,4) show ?case by (simp add: mq_drain.simps [of s])
qed

lemma mq_delete_frees:
  assumes inv: "mq_inv xs s" and idle: "\<And>t. producers s t = EIdle" "consumer s = DIdle"
  shows "\<exists>s'. MPSCQueue_delete s = Some s' \<and> nodes s' = Map.empty"
proof -
  obtain s1 where s1: "mq_drain s = Some s1" "mq_inv [] s1" "producers s1 = producers s" "consumer s1 = DIdle"
    using mq_drain_ends [OF inv refl idle(2)] by blast
  have "a = q_head s1" if "nodes s1 a \<noteq> None" for a
    using mq_live [OF s1(2) that] mq_brk [OF s1(2) that] s1(3,4) idle(1) by (simp add: public_def)
  then have "(nodes s1)(q_head s1 := None) = Map.empty" by (metis ext fun_upd_apply)
  moreover obtain nd where "nodes s1 (q_head s1) = Some nd" using mq_path [OF s1(2)] by auto
  ultimately show ?thesis using s1(1) by (simp add: MPSCQueue_delete_def)
qed

text \<open>Property C12. The queue is first in first out under every interleaving: the values handed
  out are a prefix, in order, of the values linked, so nothing is lost, duplicated or reordered;
  \<open>empty()\<close> answers, and answers true exactly when everything linked has been handed out;
  and the consumer never touches a deleted node. The destructor of a queue that nobody uses any more
  ends and deletes every node that is left, none of them twice.\<close>

theorem mpsc_linearisable:
  assumes "mq_reach tr s"
  shows "\<exists>rest. linked tr = taken tr @ rest \<and> mq_empty s = Some (rest = []) \<and>
    dequeue_step s \<noteq> None \<and>
    ((\<forall>t. producers s t = EIdle) \<and> consumer s = DIdle \<longrightarrow>
       (\<exists>s'. MPSCQueue_delete s = Some s' \<and> nodes s' = Map.empty))"
proof -
  obtain xs where inv: "mq_inv xs s" and tr: "linked tr = taken tr @ queue_data xs s"
    by (rule reach_inv [OF assms])
  have "mq_empty s = Some (queue_data xs s = [])"
    using mq_path [OF inv] by (cases xs) (auto simp: mq_empty_def queue_data_def)
  then show ?thesis using tr dequeue_live [OF inv] mq_delete_frees [OF inv] by blast
qed

theorem mpsc_linearisable_witness:
  "\<exists>s rest. mq_exec (whole_enqueue 1 ''a'' @ whole_enqueue 2 ''b'' @ whole_dequeue)
      ([], MPSCQueue_new) = Some ([Linked 1 ''a'', Linked 2 ''b'', Taken ''a''], s) \<and>
    [''a'', ''b''] = [''a''] @ rest \<and> mq_empty s = Some (rest = []) \<and> dequeue_step s \<noteq> None \<and>
    (\<exists>s'. MPSCQueue_delete s = Some s' \<and> nodes s' = Map.empty)"
proof -
  obtain s where s: "mq_exec (whole_enqueue 1 ''a'' @ whole_enqueue 2 ''b'' @ whole_dequeue)
      ([], MPSCQueue_new) = Some ([Linked 1 ''a'', Linked 2 ''b'', Taken ''a''], s)" "\<forall>t. producers s t = EIdle" "consumer s = DIdle"
    by (simp add: mq_run_defs)
  from mpsc_linearisable [OF mq_exec_reach [OF s(1) mq_reach.start]] s show ?thesis by auto
qed

end
