(* ===== verification/Tcp_Connection.thy ===== *)
theory Tcp_Connection
  imports Http_Response Wire_Codec Mpsc_Queue
begin

text \<open>
  One connection (\<open>server/src/core/tcp_connection.*\<close>): its buffers, the choice of protocol,
  reading, and writing of buffered bytes and mapped files.

  Model. The results of the system calls are arguments: a list with one entry per call, and
  \<open>EAGAIN\<close> when it is used up. A result larger than what was offered to the kernel, a failed
  assertion or an access through a dangling pointer is the result \<open>None\<close>. The writing
  operations also return the bytes the kernel accepted. The queue of outgoing frames is a list:
  \<open>Mpsc_Queue\<close> shows that its whole operations are those of a list. When \<open>writev\<close> accepts no
  byte the code stores the \<open>errno\<close> of some earlier call; the model reports no error there.
\<close>

section \<open>State\<close>

datatype ConnType = HTTP | PROTOBUF

datatype handler = HttpH http_handler | ProtobufH

record tcp_conn =
  c_fd :: int
  c_is_close :: bool
  c_read_buff :: buffer
  c_write_buff :: buffer
  c_handler :: "handler option"
  c_iov0 :: "nat \<times> nat"
  c_iov1 :: "nat \<times> nat"
  c_iov_cnt :: nat
  c_determined :: bool
  c_type :: ConnType
  c_outgoing :: "bytes list"
  c_user_id :: u64
  c_events :: u32

definition TcpConnection_new :: tcp_conn where
  "TcpConnection_new = \<lparr>c_fd = -1, c_is_close = True, c_read_buff = Buffer_new INIT_BUFFER_SIZE,
     c_write_buff = Buffer_new INIT_BUFFER_SIZE, c_handler = None, c_iov0 = (0, 0), c_iov1 = (0, 0),
     c_iov_cnt = 0, c_determined = False, c_type = HTTP, c_outgoing = [], c_user_id = 0, c_events = 0\<rparr>"

definition conn_init :: "int \<Rightarrow> tcp_conn \<Rightarrow> tcp_conn option" where
  "conn_init socket_fd c =
     (if socket_fd > 0
      then Some (c\<lparr>c_fd := socket_fd, c_write_buff := retrieve_all (c_write_buff c),
        c_read_buff := retrieve_all (c_read_buff c), c_is_close := False, c_determined := False,
        c_handler := None, c_iov_cnt := 0, c_user_id := 0, c_events := 0\<rparr>)
      else None)"

definition is_logged_in :: "tcp_conn \<Rightarrow> bool" where
  "is_logged_in c \<longleftrightarrow> c_user_id c \<noteq> 0"

definition has_pending_messages :: "tcp_conn \<Rightarrow> bool" where
  "has_pending_messages c \<longleftrightarrow> c_outgoing c \<noteq> []"

definition conn_keep_alive :: "tcp_conn \<Rightarrow> bool" where
  "conn_keep_alive c =
     (case c_handler c of
        None \<Rightarrow> False
      | Some (HttpH h) \<Rightarrow> IsKeepAlive (hh_request h)
      | Some ProtobufH \<Rightarrow> True)"

section \<open>Choice of the protocol\<close>

definition is_http_request :: "bytes \<Rightarrow> bool" where
  "is_http_request data \<longleftrightarrow>
     (if length data < 4 then False
      else take 4 data \<in> {''GET '', ''POST'', ''HEAD'', ''PUT '', ''DELE''})"

text \<open>The first part of \<open>process\<close>; \<open>False\<close> is the early return on an empty buffer.\<close>

definition determine_protocol :: "tcp_conn \<Rightarrow> bool \<times> tcp_conn" where
  "determine_protocol c =
     (if c_determined c then (True, c)
      else if readable_bytes (c_read_buff c) = 0 then (False, c)
      else let data = bytes_at (c_read_buff c) (peek (c_read_buff c)) (readable_bytes (c_read_buff c)) in
        if is_http_request data
        then (True, c\<lparr>c_handler := Some (HttpH HttpHandler_new), c_type := HTTP, c_determined := True\<rparr>)
        else (True, c\<lparr>c_handler := Some ProtobufH, c_type := PROTOBUF, c_determined := True\<rparr>))"

definition setup_iov_for_http :: "tcp_conn \<Rightarrow> tcp_conn" where
  "setup_iov_for_http c =
     (case c_handler c of
        Some (HttpH h) \<Rightarrow>
          let c1 = c\<lparr>c_iov0 := ToIovec (c_write_buff c), c_iov_cnt := 1\<rparr> in
          if FileLen (hh_response h) > 0 \<and> File (hh_response h) \<noteq> None
          then c1\<lparr>c_iov1 := (0, FileLen (hh_response h)), c_iov_cnt := 2\<rparr>
          else c1
      | _ \<Rightarrow> c)"

definition to_write_bytes :: "tcp_conn \<Rightarrow> nat" where
  "to_write_bytes c =
     (if c_type c = HTTP \<and> c_iov_cnt c > 0
      then snd (c_iov0 c) + (if c_iov_cnt c > 1 then snd (c_iov1 c) else 0)
      else readable_bytes (c_write_buff c))"

section \<open>Reading\<close>

fun read_loop ::
  "bool \<Rightarrow> bytes sysret list \<Rightarrow> int option \<Rightarrow> buffer \<Rightarrow> (int \<times> int option \<times> buffer) option" where
  "read_loop is_et [] err b = Some (-1, Some EAGAIN, b)"
| "read_loop is_et (r # rs) err b =
     do { (len, e, b1) \<leftarrow> read_fd r b;
          let err1 = (case e of None \<Rightarrow> err | Some x \<Rightarrow> Some x) in
          if len \<le> 0 \<or> \<not> is_et then Some (len, err1, b1)
          else read_loop is_et rs err1 b1 }"

definition conn_read ::
  "bool \<Rightarrow> bytes sysret list \<Rightarrow> tcp_conn \<Rightarrow> (int \<times> int option \<times> tcp_conn) option" where
  "conn_read is_et rs c =
     do { (len, err, b) \<leftarrow> read_loop is_et rs None (c_read_buff c);
          Some (len, err, c\<lparr>c_read_buff := b\<rparr>) }"

section \<open>Writing\<close>

definition flush_pending_to_buffer :: "tcp_conn \<Rightarrow> (bool \<times> tcp_conn) option" where
  "flush_pending_to_buffer c =
     do { b \<leftarrow> fold (\<lambda>msg ob. Option.bind ob (buf_append msg)) (c_outgoing c) (Some (c_write_buff c));
          Some (c_outgoing c \<noteq> [], c\<lparr>c_write_buff := b, c_outgoing := []\<rparr>) }"

text \<open>The loop for buffered bytes. Result: last length, error, buffer, bytes accepted.\<close>

fun write_buff_loop ::
  "bool \<Rightarrow> nat sysret list \<Rightarrow> int \<Rightarrow> buffer \<Rightarrow> (int \<times> int option \<times> buffer \<times> bytes) option" where
  "write_buff_loop is_et rs len b =
     (if readable_bytes b > 0
      then (case rs of
          [] \<Rightarrow> Some (-1, Some EAGAIN, b, [])
        | r # rs' \<Rightarrow>
            (case write_fd r b of (n, e, b1) \<Rightarrow>
               if n > int (readable_bytes b) then None
               else if n \<le> 0 then Some (n, e, b1, [])
               else let out = bytes_at b (peek b) (nat n) in
                 if \<not> is_et \<and> readable_bytes b1 < 10240 then Some (n, None, b1, out)
                 else do { (n', e', b', out') \<leftarrow> write_buff_loop is_et rs' n b1;
                           Some (n', e', b', out @ out') }))
      else Some (len, None, b, []))"

declare write_buff_loop.simps [simp del]

text \<open>
  The loop for a header and a mapped file \<open>f\<close>; \<open>(p0, l0)\<close> and \<open>(p1, l1)\<close> are the two
  vectors, \<open>l1\<close> being 0 when there is only one.
\<close>

fun writev_loop ::
  "bool \<Rightarrow> nat sysret list \<Rightarrow> bytes \<Rightarrow> nat \<times> nat \<Rightarrow> nat \<times> nat \<Rightarrow> buffer \<Rightarrow>
   (int \<times> int option \<times> (nat \<times> nat) \<times> (nat \<times> nat) \<times> buffer \<times> bytes) option" where
  "writev_loop is_et [] f (p0, l0) (p1, l1) b = Some (-1, Some EAGAIN, (p0, l0), (p1, l1), b, [])"
| "writev_loop is_et (Fail e # rs) f (p0, l0) (p1, l1) b = Some (-1, Some e, (p0, l0), (p1, l1), b, [])"
| "writev_loop is_et (Ok n # rs) f (p0, l0) (p1, l1) b =
     (if n > l0 + l1 then None
      else if n = 0 then Some (0, None, (p0, l0), (p1, l1), b, [])
      else let out = take n (bytes_at b p0 l0 @ take l1 (drop p1 f)) in
        do { (v0, v1, b1) \<leftarrow>
               (if n > l0
                then let file_sent = n - l0 in
                  Some ((p0, 0), (p1 + file_sent, l1 - file_sent), if l0 > 0 then retrieve_all b else b)
                else do { b1 \<leftarrow> retrieve n b; Some ((p0 + n, l0 - n), (p1, l1), b1) });
             let remaining = snd v0 + snd v1 in
             if remaining = 0 \<or> \<not> is_et \<and> remaining < 10240 then Some (int n, None, v0, v1, b1, out)
             else do { (n', e', w0, w1, b', out') \<leftarrow> writev_loop is_et rs f v0 v1 b1;
                       Some (n', e', w0, w1, b', out @ out') } })"

definition mapped_file :: "tcp_conn \<Rightarrow> bytes" where
  "mapped_file c =
     (case c_handler c of
        Some (HttpH h) \<Rightarrow> (case File (hh_response h) of Some f \<Rightarrow> f | None \<Rightarrow> [])
      | _ \<Rightarrow> [])"

definition conn_write ::
  "bool \<Rightarrow> nat sysret list \<Rightarrow> tcp_conn \<Rightarrow> (int \<times> int option \<times> tcp_conn \<times> bytes) option" where
  "conn_write is_et rs c0 =
     do { (_, c) \<leftarrow> flush_pending_to_buffer c0;
          if c_type c = HTTP \<and> c_iov_cnt c > 0
          then do {
            (len, err, v0, v1, b, out) \<leftarrow> writev_loop is_et rs (mapped_file c) (c_iov0 c)
               (if c_iov_cnt c > 1 then c_iov1 c else (fst (c_iov1 c), 0)) (c_write_buff c);
            Some (len, err, c\<lparr>c_iov0 := v0, c_iov1 := (if c_iov_cnt c > 1 then v1 else c_iov1 c),
              c_write_buff := b\<rparr>, out) }
          else do {
            (len, err, b, out) \<leftarrow> write_buff_loop is_et rs (-1) (c_write_buff c);
            Some (len, err, c\<lparr>c_write_buff := b\<rparr>, out) } }"

section \<open>Nothing is lost on the way out\<close>

lemma fold_append:
  "buf_ok b \<Longrightarrow> \<exists>b'. fold (\<lambda>msg ob. Option.bind ob (buf_append msg)) ms (Some b) = Some b' \<and> buf_ok b' \<and>
   contents b' = contents b @ concat ms"
proof (induction ms arbitrary: b)
  case (Cons x ms)
  obtain b1 where b1: "buf_append x b = Some b1" "buf_ok b1" "contents b1 = contents b @ x"
    by (rule buf_append_Some [OF Cons.prems])
  with Cons.IH [OF b1(2)] show ?case by auto
qed simp

lemma flush_Some:
  assumes "buf_ok (c_write_buff c)"
  obtains b where "flush_pending_to_buffer c =
      Some (c_outgoing c \<noteq> [], c\<lparr>c_write_buff := b, c_outgoing := []\<rparr>)"
    and "buf_ok b" and "contents b = contents (c_write_buff c) @ concat (c_outgoing c)"
  using fold_append [OF assms, of "c_outgoing c"] by (auto simp: flush_pending_to_buffer_def)

lemma write_buff_loop_prefix:
  "write_buff_loop is_et rs len b = Some (n, e, b', out) \<Longrightarrow> buf_ok b \<Longrightarrow>
   buf_ok b' \<and> out @ contents b' = contents b"
proof (induction is_et rs len b arbitrary: n e b' out rule: write_buff_loop.induct)
  case (1 is_et rs len b)
  show ?case
  proof (cases "readable_bytes b > 0 \<and> rs \<noteq> []")
    case False
    with "1.prems" show ?thesis
      by (cases rs) (auto simp: write_buff_loop.simps [of is_et _ len b] split: if_splits)
  next
    case True
    then obtain r rs' where rs: "rs = r # rs'" by (cases rs) auto
    show ?thesis
    proof (cases r)
      case (Fail x)
      with True rs "1.prems" show ?thesis
        by (auto simp: write_buff_loop.simps [of is_et "_ # _" len b] write_fd_def)
    next
      case (Ok k)
      let ?b1 = "b\<lparr>readPos := readPos b + k\<rparr>"
      have k: "k \<le> readable_bytes b"
        using "1.prems"(1) True rs Ok
        by (auto simp: write_buff_loop.simps [of is_et "_ # _" len b] write_fd_def split: if_splits)
      have b1: "buf_ok ?b1" "contents ?b1 = drop k (contents b)"
        using write_fd_ok [OF "1.prems"(2) k] by (simp_all add: write_fd_def)
      have out: "bytes_at b (peek b) k = take k (contents b)" by (rule bytes_at_peek_take [OF k])
      then have id: "bytes_at b (peek b) k @ drop k (contents b) = contents b" by simp
      show ?thesis
      proof (cases "k = 0 \<or> \<not> is_et \<and> readable_bytes ?b1 < 10240")
        case True
        with \<open>readable_bytes b > 0 \<and> rs \<noteq> []\<close> rs Ok "1.prems" k b1 id show ?thesis
          by (auto simp: write_buff_loop.simps [of is_et "_ # _" len b] write_fd_def Let_def split: if_splits)
      next
        case more: False
        then obtain n' e' out' where rec: "write_buff_loop is_et rs' (int k) ?b1 = Some (n', e', b', out')"
          "out = take k (contents b) @ out'"
          using "1.prems"(1) True rs Ok k out
          by (auto simp: write_buff_loop.simps [of is_et "_ # _" len b] write_fd_def Let_def split: if_splits)
        have "buf_ok b' \<and> out' @ contents b' = contents ?b1"
          by (rule "1.IH" [OF _ rs _ _ _ _ _ _ rec(1) b1(1)])
            (use True Ok k more in \<open>auto simp: write_fd_def\<close>)
        with rec(2) b1(2) show ?thesis by simp
      qed
    qed
  qed
qed

text \<open>The vectors of a response: the header is the readable part of the buffer until it is sent.\<close>

definition iov_ok :: "nat \<times> nat \<Rightarrow> buffer \<Rightarrow> bool" where
  "iov_ok v b \<longleftrightarrow> buf_ok b \<and> (snd v = 0 \<or> v = (peek b, readable_bytes b))"

definition iov_bytes :: "nat \<times> nat \<Rightarrow> nat \<times> nat \<Rightarrow> bytes \<Rightarrow> buffer \<Rightarrow> bytes" where
  "iov_bytes v0 v1 f b = take (snd v0) (contents b) @ take (snd v1) (drop (fst v1) f)"

lemma iov_out:
  assumes "iov_ok (p0, l0) b"
  shows "bytes_at b p0 l0 = take l0 (contents b)" and "length (take l0 (contents b)) = l0"
proof -
  have b: "buf_ok b" using assms by (simp add: iov_ok_def)
  show "bytes_at b p0 l0 = take l0 (contents b)"
    using assms bytes_at_peek_take [of l0 b] by (auto simp: iov_ok_def bytes_at_def)
  show "length (take l0 (contents b)) = l0"
    using assms readable_bytes_contents [OF b] by (auto simp: iov_ok_def)
qed

lemma writev_file:
  assumes "iov_ok (p0, l0) b" and "l0 < n"
  shows "take n (take l0 (contents b) @ take l1 (drop p1 f)) @ take (l1 - (n - l0)) (drop (p1 + (n - l0)) f) =
    take l0 (contents b) @ take l1 (drop p1 f)"
proof -
  have "take n (take l0 (contents b) @ take l1 (drop p1 f)) =
      take l0 (contents b) @ take (n - l0) (take l1 (drop p1 f))"
    using iov_out(2) [OF assms(1)] assms(2) by simp
  moreover have "take (l1 - (n - l0)) (drop (p1 + (n - l0)) f) = drop (n - l0) (take l1 (drop p1 f))"
    by (simp add: drop_take add.commute)
  ultimately show ?thesis by (metis append_assoc append_take_drop_id)
qed

text \<open>What one \<open>writev\<close> of \<open>k\<close> bytes does to the vectors and the buffer.\<close>

lemma writev_advance:
  assumes adv: "(if k > l0
        then let file_sent = k - l0 in
          Some ((p0, 0), (p1 + file_sent, l1 - file_sent), if l0 > 0 then retrieve_all b else b)
        else do { b1 \<leftarrow> retrieve k b; Some ((p0 + k, l0 - k), (p1, l1), b1) }) = Some (u0, u1, b1)"
    and v: "iov_ok (p0, l0) b" and k: "k > 0"
  shows "iov_ok u0 b1 \<and> take k (take l0 (contents b) @ take l1 (drop p1 f)) @ iov_bytes u0 u1 f b1 =
    iov_bytes (p0, l0) (p1, l1) f b"
proof (cases "k > l0")
  case True
  have b: "buf_ok b" using v by (simp add: iov_ok_def)
  from adv True have "u0 = (p0, 0)" "u1 = (p1 + (k - l0), l1 - (k - l0))"
    "b1 = (if l0 > 0 then retrieve_all b else b)" by (auto simp: Let_def)
  with writev_file [OF v True, of l1 p1 f] b retrieve_all_ok [of b] show ?thesis
    by (simp add: iov_ok_def iov_bytes_def)
next
  case le: False
  have b: "buf_ok b" using v by (simp add: iov_ok_def)
  from adv le have u: "u0 = (p0 + k, l0 - k)" "u1 = (p1, l1)" "retrieve k b = Some b1" by auto
  have l0: "p0 = peek b" "l0 = readable_bytes b" using v le k by (auto simp: iov_ok_def)
  note r = retrieve_ok [OF b u(3)]
  have "peek b1 = peek b + k" "readable_bytes b1 = readable_bytes b - k"
    using u(3) by (auto simp: retrieve_def buffer_defs split: if_splits)
  with u l0 r le iov_out [OF v] readable_bytes_contents [OF b] show ?thesis
    by (simp add: iov_ok_def iov_bytes_def)
qed

lemma writev_loop_prefix:
  "writev_loop is_et rs f v0 v1 b = Some (n, e, w0, w1, b', out) \<Longrightarrow> iov_ok v0 b \<Longrightarrow>
   iov_ok w0 b' \<and> out @ iov_bytes w0 w1 f b' = iov_bytes v0 v1 f b"
proof (induction is_et rs f v0 v1 b arbitrary: n e w0 w1 b' out rule: writev_loop.induct)
  case (3 is_et k rs f p0 l0 p1 l1 b)
  note iov = iov_out [OF "3.prems"(2)]
  have k: "k \<le> l0 + l1" using "3.prems"(1) by (auto split: if_splits)
  show ?case
  proof (cases "k = 0")
    case True
    with "3.prems" show ?thesis by auto
  next
    case False
    let ?out = "take k (take l0 (contents b) @ take l1 (drop p1 f))"
    obtain u0 u1 b1 where adv: "(if k > l0
        then let file_sent = k - l0 in
          Some ((p0, 0), (p1 + file_sent, l1 - file_sent), if l0 > 0 then retrieve_all b else b)
        else do { b1 \<leftarrow> retrieve k b; Some ((p0 + k, l0 - k), (p1, l1), b1) }) = Some (u0, u1, b1)"
      using "3.prems"(1) False k by (auto simp: Let_def split: if_splits)
    have one: "iov_ok u0 b1 \<and> ?out @ iov_bytes u0 u1 f b1 = iov_bytes (p0, l0) (p1, l1) f b"
      using writev_advance [OF adv "3.prems"(2)] False by simp
    show ?thesis
    proof (cases "snd u0 + snd u1 = 0 \<or> \<not> is_et \<and> snd u0 + snd u1 < 10240")
      case True
      with "3.prems"(1) False k adv iov one show ?thesis by (auto simp: Let_def split: if_splits)
    next
      case more: False
      then obtain n' e' out' where rec: "writev_loop is_et rs f u0 u1 b1 = Some (n', e', w0, w1, b', out')"
        "out = ?out @ out'"
        using "3.prems"(1) False k adv iov by (auto simp: Let_def split: if_splits)
      have "iov_ok w0 b' \<and> out' @ iov_bytes w0 w1 f b' = iov_bytes u0 u1 f b1"
        by (rule "3.IH" [of ?out "(u0, u1, b1)" u0 "(u1, b1)" u1 b1])
          (use False k adv iov more rec(1) one in \<open>auto simp: Let_def\<close>)
      with one rec(2) show ?thesis by simp
    qed
  qed
qed (auto simp: iov_ok_def)


lemma write_buff_loop_et:
  "write_buff_loop is_et rs len b = Some (n, e, b', out) \<Longrightarrow> is_et \<Longrightarrow> n > 0 \<Longrightarrow> readable_bytes b' = 0"
proof (induction is_et rs len b arbitrary: n e b' out rule: write_buff_loop.induct)
  case (1 is_et rs len b)
  show ?case
  proof (cases "readable_bytes b > 0")
    case False
    with "1.prems" show ?thesis by (simp add: write_buff_loop.simps [of _ rs len b])
  next
    case True
    then obtain r rs' where rs: "rs = r # rs'"
      using "1.prems" by (cases rs) (auto simp: write_buff_loop.simps [of _ "[]" len b])
    obtain k e1 b1 where w: "write_fd r b = (k, e1, b1)" by (metis prod_cases3)
    then have ok: "k \<le> int (readable_bytes b)" "k > 0"
      using "1.prems" True rs
      by (auto simp: write_buff_loop.simps [of _ "_ # _" len b] split: if_splits)
    with "1.prems" True rs w obtain out' where "write_buff_loop is_et rs' k b1 = Some (n, e, b', out')"
      by (auto simp: write_buff_loop.simps [of _ "_ # _" len b] Let_def)
    with "1.IH" [OF True rs w [symmetric] refl _ _ refl] ok "1.prems"(2,3) show ?thesis by simp
  qed
qed

lemma writev_loop_et:
  "writev_loop is_et rs f v0 v1 b = Some (n, e, w0, w1, b', out) \<Longrightarrow> is_et \<Longrightarrow> n > 0 \<Longrightarrow> snd w0 + snd w1 = 0"
proof (induction is_et rs f v0 v1 b arbitrary: n e w0 w1 b' out rule: writev_loop.induct)
  case (3 is_et k rs f p0 l0 p1 l1 b)
  have k: "k \<le> l0 + l1" "k \<noteq> 0" using "3.prems" by (auto split: if_splits)
  obtain u0 u1 b1 where adv: "(if k > l0
      then let file_sent = k - l0 in
        Some ((p0, 0), (p1 + file_sent, l1 - file_sent), if l0 > 0 then retrieve_all b else b)
      else do { b1 \<leftarrow> retrieve k b; Some ((p0 + k, l0 - k), (p1, l1), b1) }) = Some (u0, u1, b1)"
    using "3.prems"(1) k by (auto simp: Let_def split: if_splits)
  show ?case
  proof (cases "snd u0 + snd u1 = 0")
    case True
    with "3.prems" k adv show ?thesis by (auto simp: Let_def split: if_splits)
  next
    case more: False
    then obtain out' where rec: "writev_loop is_et rs f u0 u1 b1 = Some (n, e, w0, w1, b', out')"
      using "3.prems" k adv by (auto simp: Let_def split: if_splits)
    show ?thesis
      by (rule "3.IH" [of "take k (bytes_at b p0 l0 @ take l1 (drop p1 f))" "(u0, u1, b1)" u0 "(u1, b1)" u1 b1
          "snd u0 + snd u1" n])
        (use k adv more rec "3.prems"(2,3) in \<open>auto simp: Let_def\<close>)
  qed
qed auto

definition second_iov :: "tcp_conn \<Rightarrow> nat \<times> nat" where
  "second_iov c = (if c_iov_cnt c > 1 then c_iov1 c else (fst (c_iov1 c), 0))"

definition sends_iov :: "tcp_conn \<Rightarrow> bool" where
  "sends_iov c \<longleftrightarrow> c_type c = HTTP \<and> c_iov_cnt c > 0"

text \<open>The bytes a connection still owes its peer, and when its parts fit together.\<close>

definition pending_out :: "tcp_conn \<Rightarrow> bytes" where
  "pending_out c =
     (if sends_iov c then iov_bytes (c_iov0 c) (second_iov c) (mapped_file c) (c_write_buff c)
      else contents (c_write_buff c) @ concat (c_outgoing c))"

definition out_ok :: "tcp_conn \<Rightarrow> bool" where
  "out_ok c \<longleftrightarrow> buf_ok (c_write_buff c) \<and>
     (sends_iov c \<longrightarrow> iov_ok (c_iov0 c) (c_write_buff c) \<and> c_outgoing c = [] \<and>
        fst (second_iov c) + snd (second_iov c) \<le> length (mapped_file c))"

lemma buf_ok_empty: "buf_ok b \<Longrightarrow> readable_bytes b = 0 \<longleftrightarrow> contents b = []"
  using readable_bytes_contents by auto

lemma mapped_file_update [simp]:
  "mapped_file (c\<lparr>c_write_buff := b\<rparr>) = mapped_file c" "mapped_file (c\<lparr>c_outgoing := q\<rparr>) = mapped_file c"
  "mapped_file (c\<lparr>c_iov0 := v\<rparr>) = mapped_file c" "mapped_file (c\<lparr>c_iov1 := v\<rparr>) = mapped_file c"
  by (simp_all add: mapped_file_def)

lemma conn_write_buffered:
  assumes "out_ok c" and "\<not> sends_iov c" and "conn_write is_et rs c = Some (len, err, c', out)"
  shows "out_ok c' \<and> out @ pending_out c' = pending_out c \<and> (is_et \<longrightarrow> len > 0 \<longrightarrow> pending_out c' = [])"
proof -
  obtain b where b: "flush_pending_to_buffer c =
      Some (c_outgoing c \<noteq> [], c\<lparr>c_write_buff := b, c_outgoing := []\<rparr>)" "buf_ok b"
      "contents b = contents (c_write_buff c) @ concat (c_outgoing c)"
    using flush_Some [of c] assms(1) unfolding out_ok_def by metis
  then obtain b' where w: "write_buff_loop is_et rs (-1) b = Some (len, err, b', out)"
      "c' = c\<lparr>c_write_buff := b', c_outgoing := []\<rparr>"
    using assms(2,3) by (auto simp: conn_write_def sends_iov_def)
  note p = write_buff_loop_prefix [OF w(1) b(2)]
  have "is_et \<Longrightarrow> len > 0 \<Longrightarrow> contents b' = []"
    using write_buff_loop_et [OF w(1)] p buf_ok_empty by blast
  moreover have "\<not> sends_iov c'" using assms(2) w(2) by (simp add: sends_iov_def)
  ultimately show ?thesis using p b(3) w(2) assms(2) by (simp add: out_ok_def pending_out_def)
qed

lemma iov_bytes_empty: "snd v0 + snd v1 = 0 \<Longrightarrow> iov_bytes v0 v1 f b = []"
  by (simp add: iov_bytes_def)

lemma flush_nothing:
  "c_outgoing c = [] \<Longrightarrow> flush_pending_to_buffer c = Some (False, c)"
  by (simp add: flush_pending_to_buffer_def)

lemma writev_loop_bound:
  "writev_loop is_et rs f v0 v1 b = Some (n, e, w0, w1, b', out) \<Longrightarrow> fst v1 + snd v1 \<le> length f \<Longrightarrow>
   fst w1 + snd w1 \<le> length f \<and> (snd v1 = 0 \<longrightarrow> w1 = v1)"
proof (induction is_et rs f v0 v1 b arbitrary: n e w0 w1 b' out rule: writev_loop.induct)
  case (3 is_et k rs f p0 l0 p1 l1 b)
  have k: "k \<le> l0 + l1" using "3.prems" by (auto split: if_splits)
  show ?case
  proof (cases "k = 0")
    case True
    with "3.prems" show ?thesis by auto
  next
    case False
    obtain u0 u1 b1 where adv: "(if k > l0
        then let file_sent = k - l0 in
          Some ((p0, 0), (p1 + file_sent, l1 - file_sent), if l0 > 0 then retrieve_all b else b)
        else do { b1 \<leftarrow> retrieve k b; Some ((p0 + k, l0 - k), (p1, l1), b1) }) = Some (u0, u1, b1)"
      using "3.prems"(1) False k by (auto simp: Let_def split: if_splits)
    then have one: "fst u1 + snd u1 \<le> length f \<and> (l1 = 0 \<longrightarrow> u1 = (p1, l1))"
      using k "3.prems"(2) by (auto simp: Let_def split: if_splits bind_splits)
    show ?thesis
    proof (cases "snd u0 + snd u1 = 0 \<or> \<not> is_et \<and> snd u0 + snd u1 < 10240")
      case True
      with "3.prems"(1) False k adv have "w1 = u1" by (auto simp: Let_def split: if_splits)
      with one show ?thesis by simp
    next
      case more: False
      then obtain out' where rec: "writev_loop is_et rs f u0 u1 b1 = Some (n, e, w0, w1, b', out')"
        using "3.prems"(1) False k adv by (auto simp: Let_def split: if_splits)
      have "fst w1 + snd w1 \<le> length f \<and> (snd u1 = 0 \<longrightarrow> w1 = u1)"
        by (rule "3.IH" [of "take k (bytes_at b p0 l0 @ take l1 (drop p1 f))" "(u0, u1, b1)" u0 "(u1, b1)"
              u1 b1 "snd u0 + snd u1" n])
          (use False k adv more rec one in \<open>auto simp: Let_def\<close>)
      with one show ?thesis by auto
    qed
  qed
qed auto

lemma conn_write_iov:
  assumes "out_ok c" and "sends_iov c" and "conn_write is_et rs c = Some (len, err, c', out)"
  shows "out_ok c' \<and> out @ pending_out c' = pending_out c \<and> (is_et \<longrightarrow> len > 0 \<longrightarrow> pending_out c' = [])"
proof -
  have c: "iov_ok (c_iov0 c) (c_write_buff c)" "c_outgoing c = []"
    "fst (second_iov c) + snd (second_iov c) \<le> length (mapped_file c)"
    using assms(1,2) by (auto simp: out_ok_def)
  obtain v0 v1 b where w: "writev_loop is_et rs (mapped_file c) (c_iov0 c) (second_iov c) (c_write_buff c) =
        Some (len, err, v0, v1, b, out)"
      "c' = c\<lparr>c_iov0 := v0, c_iov1 := (if c_iov_cnt c > 1 then v1 else c_iov1 c), c_write_buff := b\<rparr>"
    using assms(2,3) c(2) by (auto simp: conn_write_def flush_nothing second_iov_def sends_iov_def)
  note p = writev_loop_prefix [OF w(1) c(1)]
  note q = writev_loop_bound [OF w(1) c(3)]
  have s: "sends_iov c'" using assms(2) w(2) by (simp add: sends_iov_def)
  have v1: "second_iov c' = v1"
  proof (cases "c_iov_cnt c > 1")
    case False
    with q have "v1 = second_iov c" by (simp add: second_iov_def)
    with False w(2) show ?thesis by (simp add: second_iov_def)
  qed (simp add: w(2) second_iov_def)
  have pend: "pending_out c' = iov_bytes v0 v1 (mapped_file c) b"
    using s v1 w(2) by (simp add: pending_out_def)
  have "is_et \<Longrightarrow> len > 0 \<Longrightarrow> pending_out c' = []"
    using writev_loop_et [OF w(1)] pend iov_bytes_empty by simp
  moreover have "out_ok c'"
    using p q s v1 c(2) w(2) by (simp add: out_ok_def iov_ok_def)
  ultimately show ?thesis using p pend assms(2) by (simp add: pending_out_def)
qed

lemma write_buff_all:
  assumes "buf_ok b" and "contents b \<noteq> []"
  shows "\<exists>b'. write_buff_loop is_et (Ok (length (contents b)) # rs) (-1) b =
      Some (int (length (contents b)), None, b', contents b) \<and> buf_ok b' \<and> contents b' = []"
proof -
  let ?n = "readable_bytes b" and ?b = "b\<lparr>readPos := readPos b + readable_bytes b\<rparr>"
  have n: "?n = length (contents b)" by (rule readable_bytes_contents [OF assms(1)])
  have b': "buf_ok ?b" "contents ?b = []"
    using write_fd_ok [OF assms(1) order_refl] n by (simp_all add: write_fd_def)
  then have r: "readable_bytes ?b = 0" by (simp add: buf_ok_empty)
  have "write_buff_loop is_et (Ok ?n # rs) (-1) b = Some (int ?n, None, ?b, contents b)"
    using assms(2) n r bytes_at_peek [of b]
    by (simp add: write_buff_loop.simps [of _ "_ # _"] write_buff_loop.simps [of _ rs] write_fd_def Let_def)
  with b' n show ?thesis by auto
qed

lemma writev_all:
  assumes "iov_ok (p0, l0) b" and "p1 + l1 \<le> length f" and "l0 + l1 > 0"
  shows "\<exists>w0 w1 b'. writev_loop is_et (Ok (l0 + l1) # rs) f (p0, l0) (p1, l1) b =
      Some (int (l0 + l1), None, w0, w1, b', iov_bytes (p0, l0) (p1, l1) f b) \<and> snd w0 + snd w1 = 0"
proof (cases "l1 > 0")
  case True
  then show ?thesis using iov_out [OF assms(1)] assms(2) by (simp add: iov_bytes_def)
next
  case False
  have b: "buf_ok b" using assms(1) by (simp add: iov_ok_def)
  from False assms(1,3) have l0: "l0 = readable_bytes b" by (auto simp: iov_ok_def)
  obtain b' where "retrieve l0 b = Some b'"
    using l0 retrieve_None [OF b, of l0] readable_bytes_contents [OF b] by (cases "retrieve l0 b") auto
  then show ?thesis using False assms(3) iov_out [OF assms(1)] by (simp add: iov_bytes_def)
qed

lemma conn_write_all:
  assumes "out_ok c" and "pending_out c \<noteq> []"
  shows "\<exists>c'. conn_write is_et (Ok (length (pending_out c)) # rs) c =
      Some (int (length (pending_out c)), None, c', pending_out c) \<and> pending_out c' = []"
proof (cases "sends_iov c")
  case True
  obtain p0 l0 p1 l1 where v: "c_iov0 c = (p0, l0)" "second_iov c = (p1, l1)" by (metis surj_pair)
  have c: "iov_ok (p0, l0) (c_write_buff c)" "c_outgoing c = []" "p1 + l1 \<le> length (mapped_file c)"
    using assms(1) True v by (auto simp: out_ok_def)
  have p: "pending_out c = iov_bytes (p0, l0) (p1, l1) (mapped_file c) (c_write_buff c)"
    using True v by (simp add: pending_out_def)
  have len: "length (pending_out c) = l0 + l1"
    using p iov_out(2) [OF c(1)] c(3) by (simp add: iov_bytes_def)
  then have "l0 + l1 > 0" using assms(2) by (metis length_greater_0_conv)
  from writev_all [OF c(1,3) this, of is_et rs] obtain w0 w1 b' where
    w: "writev_loop is_et (Ok (l0 + l1) # rs) (mapped_file c) (p0, l0) (p1, l1) (c_write_buff c) =
      Some (int (l0 + l1), None, w0, w1, b', pending_out c)" "snd w0 + snd w1 = 0"
    unfolding p by (elim exE conjE)
  let ?c = "c\<lparr>c_iov0 := w0, c_iov1 := (if c_iov_cnt c > 1 then w1 else c_iov1 c), c_write_buff := b'\<rparr>"
  have "conn_write is_et (Ok (l0 + l1) # rs) c = Some (int (l0 + l1), None, ?c, pending_out c)"
    using True c(2) w(1) v by (simp add: conn_write_def flush_nothing sends_iov_def second_iov_def)
  moreover have "pending_out ?c = []"
    using True w(2) by (simp add: pending_out_def sends_iov_def iov_bytes_def second_iov_def)
  ultimately show ?thesis using len by metis
next
  case False
  obtain b where b: "flush_pending_to_buffer c =
      Some (c_outgoing c \<noteq> [], c\<lparr>c_write_buff := b, c_outgoing := []\<rparr>)" "buf_ok b"
      "contents b = contents (c_write_buff c) @ concat (c_outgoing c)"
    using flush_Some [of c] assms(1) unfolding out_ok_def by metis
  have p: "pending_out c = contents b" using False b(3) by (simp add: pending_out_def)
  from write_buff_all [OF b(2), of is_et rs] assms(2) p obtain b' where
    w: "write_buff_loop is_et (Ok (length (contents b)) # rs) (-1) b =
      Some (int (length (contents b)), None, b', contents b)" "contents b' = []"
    by auto
  let ?c = "c\<lparr>c_write_buff := b', c_outgoing := []\<rparr>"
  have "conn_write is_et (Ok (length (contents b)) # rs) c =
      Some (int (length (contents b)), None, ?c, contents b)"
    using False b(1) w(1) by (auto simp: conn_write_def sends_iov_def)
  moreover have "pending_out ?c = []" using False w(2) by (auto simp: pending_out_def sends_iov_def)
  ultimately show ?thesis using p by metis
qed

definition ex_conn :: tcp_conn where
  "ex_conn = TcpConnection_new\<lparr>c_type := PROTOBUF, c_outgoing := [''ab'', ''cde'']\<rparr>"

lemma ex_conn_ok: "out_ok ex_conn" "\<not> sends_iov ex_conn" "pending_out ex_conn = ''abcde''"
  by (simp_all add: ex_conn_def TcpConnection_new_def out_ok_def sends_iov_def pending_out_def)

text \<open>
  Property C10. Writing loses, repeats and reorders nothing: what the kernel accepted, followed by
  what the connection still has to send, is what it had to send before, for buffered frames
  (those in the write buffer and then those in the queue) as for a response header with its mapped
  file, and whatever partial amounts the kernel accepts. In edge-triggered mode a
  positive result means that everything was sent. When the kernel takes all that is offered, one
  call sends everything.
\<close>

theorem conn_write_conserves:
  assumes "out_ok c"
  shows "(conn_write is_et rs c = Some (len, err, c', out) \<longrightarrow>
       out_ok c' \<and> out @ pending_out c' = pending_out c \<and> (is_et \<longrightarrow> len > 0 \<longrightarrow> pending_out c' = [])) \<and>
     (pending_out c \<noteq> [] \<longrightarrow>
       (\<exists>c'. conn_write is_et (Ok (length (pending_out c)) # rs) c =
          Some (int (length (pending_out c)), None, c', pending_out c) \<and> pending_out c' = []))"
  using conn_write_buffered [OF assms] conn_write_iov [OF assms] conn_write_all [OF assms] by blast

theorem conn_write_conserves_witness:
  "out_ok ex_conn \<and> pending_out ex_conn = ''abcde'' \<and>
   (\<exists>c'. conn_write True [Ok 5] ex_conn = Some (5, None, c', ''abcde'') \<and> out_ok c' \<and> pending_out c' = [])"
proof -
  obtain c' where "conn_write True [Ok 5] ex_conn = Some (5, None, c', ''abcde'')" "pending_out c' = []"
    using conn_write_conserves [OF ex_conn_ok(1), of True "[]" 0 None ex_conn "[]"] ex_conn_ok(3)
    by (auto simp: numeral_nat)
  with conn_write_conserves [OF ex_conn_ok(1), of True "[Ok 5]" 5 None c' "''abcde''"] ex_conn_ok
  show ?thesis by auto
qed

end
