(* ===== verification/Msg_Store.thy ===== *)
theory Msg_Store
  imports Protocol Id_Generator
begin

text \<open>
  Message persistence: \<open>dao/msg_scylla_dao.cpp\<close>, \<open>dao/async_msg_writer.*\<close> and
  \<open>pool/scylla_session.cpp\<close>.

  Model. The Cassandra driver and the database are the argument \<open>sc\<close>: whether a session
  exists, the effect of a logged batch, and the rows of a query. \<open>scylla_ok\<close> states what
  the documentation and the schema (\<open>.devcontainer/init_scylla.sh\<close>) promise. The worker's
  queue is a list, which \<open>Mpsc_Queue\<close> justifies.
\<close>

section \<open>Statements and rows\<close>

record msg_row =
  r_sender :: u64
  r_receiver :: u64
  r_type :: int
  r_content :: bytes

datatype cql_insert =
    InsertHistory string int u64 msg_row
  | InsertInbox u64 int u64 msg_row

record 'sc scylla =
  has_session :: "'sc \<Rightarrow> bool"
  run_batch :: "cql_insert list \<Rightarrow> 'sc \<Rightarrow> bool \<times> 'sc"
  select_latest :: "u64 \<Rightarrow> 'sc \<Rightarrow> (u64 \<times> int \<times> msg_row) list option"

definition row_of :: "P2PMessage \<Rightarrow> msg_row" where
  "row_of msg = \<lparr>r_sender = sender_id msg, r_receiver = receiver_id msg,
     r_type = content_type msg, r_content = content msg\<rparr>"

text \<open>The three statements of one message.\<close>

definition message_statements :: "P2PMessage \<Rightarrow> cql_insert list" where
  "message_statements msg =
     [InsertHistory (GenerateP2PConvId (sender_id msg) (receiver_id msg)) (timestamp msg) (msg_id msg)
        (row_of msg),
      InsertInbox (receiver_id msg) (timestamp msg) (msg_id msg) (row_of msg),
      InsertInbox (sender_id msg) (timestamp msg) (msg_id msg) (row_of msg)]"

section \<open>MsgScyllaDao\<close>

definition InsertMessage :: "'sc scylla \<Rightarrow> P2PMessage \<Rightarrow> 'sc \<Rightarrow> bool \<times> 'sc" where
  "InsertMessage sc msg s =
     (if \<not> has_session sc s then (False, s)
      else run_batch sc (message_statements msg) s)"

definition InsertBatch :: "'sc scylla \<Rightarrow> P2PMessage list \<Rightarrow> 'sc \<Rightarrow> bool \<times> 'sc" where
  "InsertBatch sc msgs s =
     (if msgs = [] then (True, s)
      else if \<not> has_session sc s then (False, s)
      else run_batch sc (concat (map message_statements msgs)) s)"

definition message_of_row :: "u64 \<times> int \<times> msg_row \<Rightarrow> P2PMessage" where
  "message_of_row = (\<lambda>(mid, ts, row). \<lparr>msg_id = mid, sender_id = r_sender row,
     receiver_id = r_receiver row, content_type = r_type row, content = r_content row, timestamp = ts\<rparr>)"

definition GetMessagesForUser :: "'sc scylla \<Rightarrow> u64 \<Rightarrow> 'sc \<Rightarrow> P2PMessage list" where
  "GetMessagesForUser sc user_id s =
     (if \<not> has_session sc s then []
      else case select_latest sc user_id s of
        None \<Rightarrow> []
      | Some rows \<Rightarrow> map message_of_row rows)"

section \<open>AsyncMsgWriter\<close>

record 'sc msg_writer =
  wr_running :: bool
  wr_queue :: "P2PMessage list"
  wr_store :: 'sc

definition kBatchSize :: nat where
  "kBatchSize = 100"

definition kMaxRetries :: nat where
  "kMaxRetries = 3"

definition kBaseWaitMs :: nat where
  "kBaseWaitMs = 50"

definition kMaxWaitMs :: nat where
  "kMaxWaitMs = 1000"

definition writer_Enqueue :: "P2PMessage \<Rightarrow> 'sc msg_writer \<Rightarrow> 'sc msg_writer" where
  "writer_Enqueue msg w = w\<lparr>wr_queue := wr_queue w @ [msg]\<rparr>"

text \<open>The retry loop: success, the waits in milliseconds, and the store.\<close>

function insert_retry ::
  "'sc scylla \<Rightarrow> nat \<Rightarrow> P2PMessage list \<Rightarrow> 'sc \<Rightarrow> bool \<times> nat list \<times> 'sc" where
  "insert_retry sc retry_count batch s =
     (if retry_count \<le> kMaxRetries
      then case InsertBatch sc batch s of
          (True, s1) \<Rightarrow> (True, [], s1)
        | (False, s1) \<Rightarrow>
            let retry = retry_count + 1 in
            if retry > kMaxRetries then (False, [], s1)
            else let wait_ms = min (kBaseWaitMs * 2 ^ (retry - 1)) kMaxWaitMs;
                     (ok, waits, s2) = insert_retry sc retry batch s1
              in (ok, wait_ms # waits, s2)
      else (False, [], s))"
  by pat_completeness auto
termination
  by (relation "measure (\<lambda>(sc, r, batch, s). kMaxRetries + 1 - r)") auto

declare insert_retry.simps [simp del]

text \<open>One pass of the loop that runs while \<open>running_\<close>: the waits (1 ms when idle) and the writer.\<close>

definition worker_pass :: "'sc scylla \<Rightarrow> 'sc msg_writer \<Rightarrow> nat list \<times> 'sc msg_writer" where
  "worker_pass sc w =
     (let batch = take kBatchSize (wr_queue w); w1 = w\<lparr>wr_queue := drop kBatchSize (wr_queue w)\<rparr> in
      if batch \<noteq> []
      then let (success, waits, s1) = insert_retry sc 0 batch (wr_store w1) in (waits, w1\<lparr>wr_store := s1\<rparr>)
      else ([1], w1))"

text \<open>The loop after \<open>Stop\<close>.\<close>

function writer_drain :: "'sc scylla \<Rightarrow> 'sc msg_writer \<Rightarrow> 'sc msg_writer" where
  "writer_drain sc w =
     (if wr_queue w \<noteq> []
      then let batch = take kBatchSize (wr_queue w) in
        writer_drain sc (w\<lparr>wr_queue := drop kBatchSize (wr_queue w),
          wr_store := snd (InsertBatch sc batch (wr_store w))\<rparr>)
      else w)"
  by pat_completeness auto
termination
  by (relation "measure (\<lambda>(sc, w). length (wr_queue w))") (auto simp: kBatchSize_def)

declare writer_drain.simps [simp del]

definition writer_Start :: "'sc msg_writer \<Rightarrow> 'sc msg_writer" where
  "writer_Start w = w\<lparr>wr_running := True\<rparr>"

text \<open>\<open>Stop\<close> clears the flag and joins the worker, which drains the queue; later calls do nothing.\<close>

definition writer_Stop :: "'sc scylla \<Rightarrow> 'sc msg_writer \<Rightarrow> 'sc msg_writer" where
  "writer_Stop sc w = (if wr_running w then writer_drain sc (w\<lparr>wr_running := False\<rparr>) else w)"

section \<open>What the database promises\<close>

datatype table_key = HistoryKey string int u64 | InboxKey u64 int u64

fun cql_key :: "cql_insert \<Rightarrow> table_key" where
  "cql_key (InsertHistory c ts mid row) = HistoryKey c ts mid"
| "cql_key (InsertInbox u ts mid row) = InboxKey u ts mid"

fun cql_row :: "cql_insert \<Rightarrow> msg_row" where
  "cql_row (InsertHistory c ts mid row) = row"
| "cql_row (InsertInbox u ts mid row) = row"

text \<open>
  A batch is applied whole or not at all; an error leaves open which. A key that the batch does
  not write keeps its row, and a key to which the batch writes one and the same row gets it. A
  query returns the rows of one user, newest first, and all of them when there are at most 500.
\<close>

definition batch_applied :: "cql_insert list \<Rightarrow> (table_key \<Rightarrow> msg_row option) \<Rightarrow> (table_key \<Rightarrow> msg_row option) \<Rightarrow> bool"
where
  "batch_applied sts v v' \<longleftrightarrow>
     (\<forall>k. k \<notin> cql_key ` set sts \<longrightarrow> v' k = v k) \<and>
     (\<forall>st\<in>set sts. (\<forall>st'\<in>set sts. cql_key st' = cql_key st \<longrightarrow> cql_row st' = cql_row st) \<longrightarrow>
        v' (cql_key st) = Some (cql_row st))"

definition inbox :: "(table_key \<Rightarrow> msg_row option) \<Rightarrow> u64 \<Rightarrow> (u64 \<times> int \<times> msg_row) set" where
  "inbox v u = {(mid, ts, row). v (InboxKey u ts mid) = Some row}"

definition scylla_ok :: "'sc scylla \<Rightarrow> ('sc \<Rightarrow> table_key \<Rightarrow> msg_row option) \<Rightarrow> bool" where
  "scylla_ok sc view \<longleftrightarrow>
     (\<forall>sts s s'. run_batch sc sts s = (True, s') \<longrightarrow> batch_applied sts (view s) (view s')) \<and>
     (\<forall>sts s s'. run_batch sc sts s = (False, s') \<longrightarrow> view s' = view s \<or> batch_applied sts (view s) (view s')) \<and>
     (\<forall>u s rows. select_latest sc u s = Some rows \<longrightarrow> set rows \<subseteq> inbox (view s) u \<and>
        sorted_wrt (\<lambda>a b. fst (snd a) \<ge> fst (snd b)) rows \<and> length rows \<le> 500 \<and>
        (length rows < 500 \<longrightarrow> set rows = inbox (view s) u))"

text \<open>A message is stored when its conversation and both inboxes have it.\<close>

definition stored :: "(table_key \<Rightarrow> msg_row option) \<Rightarrow> P2PMessage \<Rightarrow> bool" where
  "stored v msg \<longleftrightarrow> (\<forall>st\<in>set (message_statements msg). v (cql_key st) = Some (cql_row st))"

text \<open>
  Two messages share a key when a row of one is written where a row of the other is. The client
  sends every message with \<open>msg_id\<close> 0 and a time in seconds, so two messages of one user within a
  second share a key, and the later one overwrites the earlier. A message of a batch is not
  overwritten by it when no other message of the batch shares a key with it.
\<close>

definition shares_key :: "P2PMessage \<Rightarrow> P2PMessage \<Rightarrow> bool" where
  "shares_key a b \<longleftrightarrow> (\<exists>st\<in>set (message_statements a). \<exists>st'\<in>set (message_statements b). cql_key st = cql_key st')"

definition unrivalled :: "P2PMessage list \<Rightarrow> P2PMessage \<Rightarrow> bool" where
  "unrivalled ms m \<longleftrightarrow> (\<forall>b\<in>set ms. shares_key b m \<longrightarrow> b = m)"

lemma message_of_row_of [simp]: "message_of_row (msg_id m, timestamp m, row_of m) = m"
  by (simp add: message_of_row_def row_of_def)

lemma statement_key:
  "st \<in> set (message_statements a) \<Longrightarrow> st' \<in> set (message_statements b) \<Longrightarrow> cql_key st = cql_key st' \<Longrightarrow>
   timestamp a = timestamp b \<and> msg_id a = msg_id b"
  by (auto simp: message_statements_def)

lemma statement_row: "st \<in> set (message_statements a) \<Longrightarrow> cql_row st = row_of a"
  by (auto simp: message_statements_def)

lemma shares_key_iff:
  "shares_key a b \<longleftrightarrow> timestamp a = timestamp b \<and> msg_id a = msg_id b \<and>
     {sender_id a, receiver_id a} \<inter> {sender_id b, receiver_id b} \<noteq> {}"
proof -
  have "GenerateP2PConvId (sender_id a) (receiver_id a) = GenerateP2PConvId (sender_id b) (receiver_id b) \<Longrightarrow>
      {sender_id a, receiver_id a} \<inter> {sender_id b, receiver_id b} \<noteq> {}"
    using conv_id_users by blast
  then show ?thesis by (auto simp: shares_key_def message_statements_def)
qed

lemma stored_unique: "stored v a \<Longrightarrow> stored v b \<Longrightarrow> shares_key a b \<Longrightarrow> a = b"
proof -
  assume a: "stored v a" and b: "stored v b" and "shares_key a b"
  then obtain st st' where st: "st \<in> set (message_statements a)" "st' \<in> set (message_statements b)"
    "cql_key st = cql_key st'" by (auto simp: shares_key_def)
  then have "row_of a = row_of b" using a b by (metis stored_def statement_row option.inject)
  moreover have "timestamp a = timestamp b" "msg_id a = msg_id b" using statement_key [OF st] by auto
  ultimately show "a = b" by (metis message_of_row_of)
qed

lemma batch_applied_stored:
  assumes app: "batch_applied (concat (map message_statements ms)) v v'"
    and un: "unrivalled ms m" and m: "m \<in> set ms \<or> stored v m"
  shows "stored v' m"
  unfolding stored_def
proof
  fix st assume st: "st \<in> set (message_statements m)"
  have same: "cql_row st' = cql_row st" and mem: "m \<in> set ms"
    if in_ms: "st' \<in> set (concat (map message_statements ms))" and key: "cql_key st' = cql_key st" for st'
  proof -
    obtain b where b: "b \<in> set ms" "st' \<in> set (message_statements b)" using in_ms by auto
    then have "b = m" using un key st by (auto simp: unrivalled_def shares_key_def)
    with b st show "cql_row st' = cql_row st" "m \<in> set ms" by (simp_all add: statement_row)
  qed
  show "v' (cql_key st) = Some (cql_row st)"
  proof (cases "m \<in> set ms")
    case True
    with st have "st \<in> set (concat (map message_statements ms))" by auto
    with app same show ?thesis unfolding batch_applied_def by blast
  next
    case False
    with mem have "cql_key st \<notin> cql_key ` set (concat (map message_statements ms))"
      by (metis imageE)
    moreover from False m st have "v (cql_key st) = Some (cql_row st)" by (simp add: stored_def)
    ultimately show ?thesis using app unfolding batch_applied_def by metis
  qed
qed

lemma stored_inbox:
  assumes "stored v m"
  shows "(msg_id m, timestamp m, row_of m) \<in> inbox v (sender_id m)"
    and "(msg_id m, timestamp m, row_of m) \<in> inbox v (receiver_id m)"
  using assms by (auto simp: stored_def message_statements_def inbox_def)


section \<open>What the writer guarantees\<close>

lemma InsertBatch_cases:
  assumes "scylla_ok sc view" and "InsertBatch sc ms s = (ok, s')"
  shows "view s' = view s \<and> (ok \<longrightarrow> ms = []) \<or>
    batch_applied (concat (map message_statements ms)) (view s) (view s')"
  using assms by (cases ok) (auto simp: InsertBatch_def scylla_ok_def split: if_splits)

lemma InsertBatch_stored:
  assumes sc: "scylla_ok sc view" and ins: "InsertBatch sc ms s = (ok, s')" and un: "unrivalled ms m"
  shows "stored (view s) m \<Longrightarrow> stored (view s') m" and "ok \<Longrightarrow> m \<in> set ms \<Longrightarrow> stored (view s') m"
proof -
  consider "view s' = view s" "ok \<longrightarrow> ms = []" | "batch_applied (concat (map message_statements ms)) (view s) (view s')"
    using InsertBatch_cases [OF sc ins] by blast
  then have "(stored (view s) m \<longrightarrow> stored (view s') m) \<and> (ok \<longrightarrow> m \<in> set ms \<longrightarrow> stored (view s') m)"
    by cases (use batch_applied_stored [OF _ un] in auto)
  then show "stored (view s) m \<Longrightarrow> stored (view s') m" "ok \<Longrightarrow> m \<in> set ms \<Longrightarrow> stored (view s') m" by blast+
qed

lemma insert_retry_stored:
  "insert_retry sc r ms s = (ok, waits, s') \<Longrightarrow> scylla_ok sc view \<Longrightarrow> unrivalled ms m \<Longrightarrow>
   (stored (view s) m \<longrightarrow> stored (view s') m) \<and> (ok \<longrightarrow> m \<in> set ms \<longrightarrow> stored (view s') m)"
proof (induction sc r ms s arbitrary: ok waits s' rule: insert_retry.induct [case_names retry])
  case (retry sc r ms s)
  obtain b s1 where i: "InsertBatch sc ms s = (b, s1)" by (cases "InsertBatch sc ms s")
  note st = InsertBatch_stored [OF retry.prems(2) i retry.prems(3)]
  show ?case
  proof (cases "r \<le> kMaxRetries \<and> \<not> b \<and> r + 1 \<le> kMaxRetries")
    case False
    with retry.prems(1) i st show ?thesis
      by (auto simp: insert_retry.simps [of sc r] Let_def split: if_splits bool.splits)
  next
    case True
    obtain ok' waits' where rec: "insert_retry sc (r + 1) ms s1 = (ok', waits', s')" "ok = ok'"
      using retry.prems(1) True i
      by (auto simp: insert_retry.simps [of sc r] Let_def split: prod.splits)
    have "(stored (view s1) m \<longrightarrow> stored (view s') m) \<and> (ok' \<longrightarrow> m \<in> set ms \<longrightarrow> stored (view s') m)"
      by (rule retry.IH [OF _ i [symmetric] _ refl _ refl rec(1) retry.prems(2,3)]) (use True in auto)
    with rec(2) st(1) show ?thesis by blast
  qed
qed

lemma insert_retry_step:
  "r < 3 \<Longrightarrow> insert_retry sc r ms s = (let (ok, s1) = InsertBatch sc ms s in
     if ok then (True, [], s1)
     else let (ok2, waits, s2) = insert_retry sc (r + 1) ms s1 in (ok2, min (50 * 2 ^ r) 1000 # waits, s2))"
  by (simp add: insert_retry.simps [of sc r] kMaxRetries_def kBaseWaitMs_def kMaxWaitMs_def split: prod.splits bool.splits)

lemma insert_retry_last:
  "insert_retry sc 3 ms s = (let (ok, s1) = InsertBatch sc ms s in (ok, [], s1))"
  by (simp add: insert_retry.simps [of sc 3] kMaxRetries_def split: prod.splits bool.splits)

lemma insert_retry_waits:
  "r \<le> 3 \<Longrightarrow> \<exists>k. fst (snd (insert_retry sc r ms s)) = take k (drop r [50, 100, 200])"
proof (induction "3 - r" arbitrary: r s)
  case 0
  then have "r = 3" by simp
  then show ?case by (simp add: insert_retry_last split_def Let_def)
next
  case (Suc n)
  then have r: "r < 3" by simp
  have n: "n = 3 - (r + 1)" using Suc.hyps(2) by simp
  obtain ok s1 where i: "InsertBatch sc ms s = (ok, s1)" by (cases "InsertBatch sc ms s")
  obtain k where k: "fst (snd (insert_retry sc (r + 1) ms s1)) = take k (drop (r + 1) [50, 100, 200])"
    using Suc.hyps(1) [OF n, of s1] r by auto
  have d: "drop r [50, 100, 200] = min (50 * 2 ^ r) 1000 # drop (r + 1) [50, 100, 200 :: nat]"
    using r by (auto simp: less_Suc_eq numeral_3_eq_3)
  show ?case
  proof (cases ok)
    case True
    then show ?thesis using i r by (simp add: insert_retry_step exI [of _ 0])
  next
    case False
    with i r k have "fst (snd (insert_retry sc r ms s)) = take (Suc k) (drop r [50, 100, 200])"
      unfolding d by (simp add: insert_retry_step split_def Let_def)
    then show ?thesis by blast
  qed
qed

lemma insert_retry_unavailable:
  assumes "\<And>s. \<not> has_session sc s" and "ms \<noteq> []"
  shows "insert_retry sc 0 ms s = (False, [50, 100, 200], s)"
  using assms by (simp add: insert_retry_step insert_retry_last [unfolded numeral_3_eq_3] InsertBatch_def)

lemma worker_pass_eq:
  "worker_pass sc w =
     (let batch = take kBatchSize (wr_queue w) in
      if batch = [] then ([1], w\<lparr>wr_queue := drop kBatchSize (wr_queue w)\<rparr>)
      else (fst (snd (insert_retry sc 0 batch (wr_store w))),
        w\<lparr>wr_queue := drop kBatchSize (wr_queue w), wr_store := snd (snd (insert_retry sc 0 batch (wr_store w)))\<rparr>))"
  by (simp add: worker_pass_def Let_def split_def)


lemma stored_readable:
  assumes sc: "scylla_ok sc view" and m: "stored (view s) m" and u: "u \<in> {sender_id m, receiver_id m}"
    and "has_session sc s" and sel: "select_latest sc u s = Some rows" and "length rows < 500"
  shows "m \<in> set (GetMessagesForUser sc u s)"
proof -
  have "set rows = inbox (view s) u" using sc sel \<open>length rows < 500\<close> by (auto simp: scylla_ok_def)
  with stored_inbox [OF m] u have "(msg_id m, timestamp m, row_of m) \<in> set rows" by auto
  then have "message_of_row (msg_id m, timestamp m, row_of m) \<in> set (GetMessagesForUser sc u s)"
    using sel \<open>has_session sc s\<close> by (force simp: GetMessagesForUser_def)
  then show ?thesis by simp
qed

text \<open>
  Property C19. A pass of the writer takes the first hundred queued messages and keeps the order of
  the rest; the waits between its attempts are 50, 100 and 200 ms. If one of its four attempts
  succeeds, then every message of the batch and every message stored before it that shares its key
  with no other message of the batch (no other message with the same time, the same \<open>msg_id\<close> and a
  user in common) is stored in its conversation and in both inboxes, and whoever of its two users
  then synchronises gets it back unchanged, when the query succeeds and returns fewer than 500 rows.
  Of two different messages that share a key at most one is stored.
\<close>

theorem writer_persists:
  assumes sc: "scylla_ok sc view" and q: "wr_queue w \<noteq> []"
    and ok: "fst (insert_retry sc 0 (take 100 (wr_queue w)) (wr_store w))"
    and pass: "worker_pass sc w = (waits, w')"
  shows "wr_queue w = take 100 (wr_queue w) @ wr_queue w' \<and> (\<exists>k. waits = take k [50, 100, 200]) \<and>
    (\<forall>m. (m \<in> set (take 100 (wr_queue w)) \<or> stored (view (wr_store w)) m) \<and>
        unrivalled (take 100 (wr_queue w)) m \<longrightarrow>
      stored (view (wr_store w')) m \<and>
      (\<forall>u rows. u \<in> {sender_id m, receiver_id m} \<and> has_session sc (wr_store w') \<and>
          select_latest sc u (wr_store w') = Some rows \<and> length rows < 500 \<longrightarrow>
          m \<in> set (GetMessagesForUser sc u (wr_store w')))) \<and>
    (\<forall>a b. shares_key a b \<and> stored (view (wr_store w')) a \<and> stored (view (wr_store w')) b \<longrightarrow> a = b)"
proof -
  let ?b = "take 100 (wr_queue w)"
  obtain ok' ws s' where r: "insert_retry sc 0 ?b (wr_store w) = (ok', ws, s')" by (metis prod_cases3)
  have w': "waits = ws" "w' = w\<lparr>wr_queue := drop 100 (wr_queue w), wr_store := s'\<rparr>"
    using pass q r by (auto simp: worker_pass_eq kBatchSize_def)
  have st: "stored (view s') m" if "m \<in> set ?b \<or> stored (view (wr_store w)) m" "unrivalled ?b m" for m
    using insert_retry_stored [OF r sc that(2)] that(1) ok r by auto
  have "\<exists>k. ws = take k [50, 100, 200]" using insert_retry_waits [of 0 sc ?b "wr_store w"] r by simp
  moreover have "wr_queue w = ?b @ wr_queue w'" using w'(2) by simp
  ultimately show ?thesis using st stored_readable [OF sc] stored_unique unfolding w' by simp blast
qed

lemma writer_drain_empties: "wr_queue (writer_drain sc w) = [] \<and> wr_running (writer_drain sc w) = wr_running w"
proof (induction sc w rule: writer_drain.induct [case_names drain])
  case (drain sc w)
  show ?case
  proof (cases "wr_queue w = []")
    case False
    with drain.IH [OF False refl] show ?thesis by (simp add: writer_drain.simps [of sc w] Let_def)
  qed (simp add: writer_drain.simps [of sc w])
qed

lemma writer_drain_stored:
  "scylla_ok sc view \<Longrightarrow> unrivalled (wr_queue w) m \<Longrightarrow> (\<forall>ms s. fst (InsertBatch sc ms s)) \<Longrightarrow>
   m \<in> set (wr_queue w) \<or> stored (view (wr_store w)) m \<Longrightarrow> stored (view (wr_store (writer_drain sc w))) m"
proof (induction sc w rule: writer_drain.induct [case_names drain])
  case (drain sc w)
  show ?case
  proof (cases "wr_queue w = []")
    case True
    with drain.prems show ?thesis by (simp add: writer_drain.simps [of sc w])
  next
    case False
    let ?b = "take kBatchSize (wr_queue w)" and ?r = "drop kBatchSize (wr_queue w)"
    let ?s = "snd (InsertBatch sc ?b (wr_store w))"
    let ?w = "w\<lparr>wr_queue := ?r, wr_store := ?s\<rparr>"
    have ins: "InsertBatch sc ?b (wr_store w) = (True, ?s)" using drain.prems(3) by (simp add: prod_eq_iff)
    have q: "set (wr_queue w) = set ?b \<union> set ?r" by (metis append_take_drop_id set_append)
    have un: "unrivalled ?b m" "unrivalled ?r m" using drain.prems(2) unfolding unrivalled_def q by auto
    have st: "m \<in> set ?r \<or> stored (view ?s) m"
      using InsertBatch_stored [OF drain.prems(1) ins un(1)] drain.prems(4) unfolding q by auto
    have "stored (view (wr_store (writer_drain sc ?w))) m"
      by (rule drain.IH [OF False refl drain.prems(1) _ drain.prems(3)]) (use un(2) st in simp_all)
    with False show ?thesis by (simp add: writer_drain.simps [of sc w] Let_def)
  qed
qed

text \<open>
  Property C32. \<open>Stop\<close> of a running writer returns with the queue empty and the writer stopped,
  whatever the database does. When the database accepts every batch, each message still queued,
  and each stored before, is stored afterwards unless another queued message shares its key.
\<close>

theorem stop_flushes:
  assumes "wr_running w"
  shows "wr_queue (writer_Stop sc w) = [] \<and> \<not> wr_running (writer_Stop sc w) \<and>
    (scylla_ok sc view \<and> (\<forall>ms s. fst (InsertBatch sc ms s)) \<longrightarrow>
      (\<forall>m. (m \<in> set (wr_queue w) \<or> stored (view (wr_store w)) m) \<and> unrivalled (wr_queue w) m \<longrightarrow>
        stored (view (wr_store (writer_Stop sc w))) m))"
  using writer_drain_empties [of sc "w\<lparr>wr_running := False\<rparr>"]
    writer_drain_stored [of sc view "w\<lparr>wr_running := False\<rparr>"] assms
  by (simp add: writer_Stop_def)

lemma writer_drain_unavailable: "(\<And>s. \<not> has_session sc s) \<Longrightarrow> writer_drain sc w = w\<lparr>wr_queue := []\<rparr>"
proof (induction sc w rule: writer_drain.induct [case_names drain])
  case (drain sc w)
  show ?case
  proof (cases "wr_queue w = []")
    case False
    with drain.IH [OF False refl] drain.prems show ?thesis
      by (simp add: writer_drain.simps [of sc w] InsertBatch_def Let_def kBatchSize_def)
  qed (simp add: writer_drain.simps [of sc w])
qed

text \<open>
  A batch that fails four times is lost: with no session the pass removes up to a hundred messages
  from the queue, waits 50, 100 and 200 ms and leaves the database as it was, and \<open>Stop\<close>
  empties the whole queue without writing anything.
\<close>

lemma failed_batch_lost:
  assumes "\<And>s. \<not> has_session sc s"
  shows "wr_queue w \<noteq> [] \<Longrightarrow> worker_pass sc w = ([50, 100, 200], w\<lparr>wr_queue := drop 100 (wr_queue w)\<rparr>)"
    and "wr_running w \<Longrightarrow> writer_Stop sc w = w\<lparr>wr_running := False, wr_queue := []\<rparr>"
  using insert_retry_unavailable [OF assms] writer_drain_unavailable [OF assms]
  by (simp_all add: worker_pass_eq kBatchSize_def Let_def writer_Stop_def)

section \<open>A database in memory\<close>

type_synonym mem_store = "(table_key \<times> msg_row) list"

definition mem_rows :: "u64 \<Rightarrow> mem_store \<Rightarrow> (u64 \<times> int \<times> msg_row) list" where
  "mem_rows u s = concat (map (\<lambda>(k, row). case k of
       InboxKey u' ts mid \<Rightarrow> if u' = u \<and> map_of s k = Some row then [(mid, ts, row)] else []
     | _ \<Rightarrow> []) s)"

definition mem_scylla :: "mem_store scylla" where
  "mem_scylla = \<lparr>has_session = \<lambda>_. True,
     run_batch = \<lambda>sts s. (True, map (\<lambda>st. (cql_key st, cql_row st)) sts @ s),
     select_latest = \<lambda>u s. Some (take 500 (sort_key (\<lambda>r. - fst (snd r)) (remdups (mem_rows u s))))\<rparr>"

lemma mem_rows_inbox: "set (mem_rows u s) = inbox (map_of s) u"
proof
  show "set (mem_rows u s) \<subseteq> inbox (map_of s) u"
    by (auto simp: mem_rows_def inbox_def split: table_key.splits if_splits)
  have "(mid, ts, row) \<in> set (mem_rows u s)" if v: "map_of s (InboxKey u ts mid) = Some row" for mid ts row
  proof -
    have "(InboxKey u ts mid, row) \<in> set s" by (rule map_of_SomeD [OF v])
    with v show ?thesis unfolding mem_rows_def by force
  qed
  then show "inbox (map_of s) u \<subseteq> set (mem_rows u s)" by (auto simp: inbox_def)
qed

lemma mem_batch_applied:
  "batch_applied sts (map_of s) (map_of (map (\<lambda>st. (cql_key st, cql_row st)) sts @ s))"
proof -
  have "map_of (map (\<lambda>st. (cql_key st, cql_row st)) sts @ s) k = map_of s k" if "k \<notin> cql_key ` set sts" for k
    using that by (auto simp: map_add_def map_of_eq_None_iff image_image split: option.splits
        dest!: map_of_SomeD)
  moreover have "map_of (map (\<lambda>st. (cql_key st, cql_row st)) sts @ s) (cql_key st) = Some (cql_row st)"
    if st: "st \<in> set sts" and same: "\<forall>st'\<in>set sts. cql_key st' = cql_key st \<longrightarrow> cql_row st' = cql_row st" for st
  proof -
    obtain row where row: "map_of (map (\<lambda>st. (cql_key st, cql_row st)) sts) (cql_key st) = Some row"
      using st by (cases "map_of (map (\<lambda>st. (cql_key st, cql_row st)) sts) (cql_key st)")
        (auto simp: map_of_eq_None_iff image_image)
    from map_of_SomeD [OF this] same have "row = cql_row st" by auto
    with row show ?thesis by (simp add: map_add_def)
  qed
  ultimately show ?thesis unfolding batch_applied_def by blast
qed

lemma mem_scylla_ok: "scylla_ok mem_scylla map_of"
proof -
  have "sorted_wrt (\<lambda>a b. fst (snd a) \<ge> fst (snd b)) (sort_key (\<lambda>r. - fst (snd r)) xs)"
    for xs :: "(u64 \<times> int \<times> msg_row) list"
    using sorted_sort_key [of "\<lambda>r. - fst (snd r)" xs] by (simp add: sorted_wrt_map)
  then show ?thesis
    by (auto simp: scylla_ok_def mem_scylla_def mem_batch_applied mem_rows_inbox [symmetric]
        sorted_wrt_take min_def simp del: map_of_append dest: in_set_takeD split: if_splits)
qed

definition ex_msg :: "u64 \<Rightarrow> P2PMessage" where
  "ex_msg i = \<lparr>msg_id = i, sender_id = 11, receiver_id = 22, content_type = 0, content = ''hi'', timestamp = 5\<rparr>"

definition ex_writer :: "mem_store msg_writer" where
  "ex_writer = \<lparr>wr_running = True, wr_queue = [ex_msg 1, ex_msg 2], wr_store = []\<rparr>"

lemma ex_writer_keys: "unrivalled [ex_msg 1, ex_msg 2] (ex_msg 1)" "unrivalled [ex_msg 1, ex_msg 2] (ex_msg 2)"
  by (simp_all add: unrivalled_def shares_key_iff ex_msg_def)

lemma mem_InsertBatch: "fst (InsertBatch mem_scylla ms s)"
  by (simp add: InsertBatch_def mem_scylla_def)

lemma mem_retry: "fst (insert_retry mem_scylla 0 ms s)"
  using mem_InsertBatch [of ms s] by (simp add: insert_retry_step split_def Let_def)

theorem writer_persists_witness:
  "\<exists>waits w'. worker_pass mem_scylla ex_writer = (waits, w') \<and> wr_queue w' = [] \<and>
     stored (map_of (wr_store w')) (ex_msg 1) \<and> stored (map_of (wr_store w')) (ex_msg 2)"
proof -
  obtain waits w' where w': "worker_pass mem_scylla ex_writer = (waits, w')" by fastforce
  have q: "wr_queue ex_writer \<noteq> []" "take 100 (wr_queue ex_writer) = [ex_msg 1, ex_msg 2]"
    by (simp_all add: ex_writer_def)
  note p = writer_persists [OF mem_scylla_ok q(1) mem_retry w', unfolded q(2)]
  from conjunct1 [OF p] have "wr_queue w' = []" by (simp add: ex_writer_def)
  moreover have "stored (map_of (wr_store w')) (ex_msg 1)" "stored (map_of (wr_store w')) (ex_msg 2)"
    using spec [OF conjunct1 [OF conjunct2 [OF conjunct2 [OF p]]], of "ex_msg 1"]
      spec [OF conjunct1 [OF conjunct2 [OF conjunct2 [OF p]]], of "ex_msg 2"] ex_writer_keys by simp_all
  ultimately show ?thesis using w' by blast
qed

theorem stop_flushes_witness:
  "wr_queue (writer_Stop mem_scylla ex_writer) = [] \<and>
   stored (map_of (wr_store (writer_Stop mem_scylla ex_writer))) (ex_msg 1) \<and>
   stored (map_of (wr_store (writer_Stop mem_scylla ex_writer))) (ex_msg 2)"
  using stop_flushes [of ex_writer mem_scylla map_of] mem_scylla_ok mem_InsertBatch ex_writer_keys
  by (simp add: ex_writer_def)

section \<open>ScyllaSession\<close>

text \<open>
  The session object with its mutex. The caller is the only thread that can hold the mutex, so
  locking it while it is held never returns: \<open>None\<close>. The results of the driver are arguments.
\<close>

record scylla_session =
  ss_locked :: bool
  ss_cluster :: bool
  ss_session :: bool
  ss_initialized :: bool

definition ss_lock :: "scylla_session \<Rightarrow> scylla_session option" where
  "ss_lock s = (if ss_locked s then None else Some (s\<lparr>ss_locked := True\<rparr>))"

definition ss_unlock :: "scylla_session \<Rightarrow> scylla_session" where
  "ss_unlock s = s\<lparr>ss_locked := False\<rparr>"

definition ScyllaSession_Close :: "scylla_session \<Rightarrow> scylla_session option" where
  "ScyllaSession_Close s =
     do { s1 \<leftarrow> ss_lock s;
          Some (ss_unlock (s1\<lparr>ss_session := False, ss_cluster := False, ss_initialized := False\<rparr>)) }"

definition ScyllaSession_Init ::
  "bool \<Rightarrow> bool \<Rightarrow> bool \<Rightarrow> scylla_session \<Rightarrow> (bool \<times> scylla_session) option" where
  "ScyllaSession_Init cluster_ok session_ok connect_ok s =
     do { s1 \<leftarrow> ss_lock s;
          if ss_initialized s1 then Some (True, ss_unlock s1)
          else let s2 = s1\<lparr>ss_cluster := cluster_ok, ss_session := session_ok\<rparr> in
            if \<not> cluster_ok \<or> \<not> session_ok
            then do { s3 \<leftarrow> ScyllaSession_Close s2; Some (False, ss_unlock s3) }
            else if \<not> connect_ok
            then do { s3 \<leftarrow> ScyllaSession_Close s2; Some (False, ss_unlock s3) }
            else Some (True, ss_unlock (s2\<lparr>ss_initialized := True\<rparr>)) }"

definition ss_IsInitialized :: "scylla_session \<Rightarrow> (bool \<times> scylla_session) option" where
  "ss_IsInitialized s = do { s1 \<leftarrow> ss_lock s; Some (ss_initialized s1, ss_unlock s1) }"

text \<open>
  \<open>Init\<close> never reports failure: on an object whose mutex is free it returns,
  with \<open>true\<close>, exactly when a session was there already or the driver connected. Otherwise
  it calls \<open>Close\<close>, which locks the mutex that \<open>Init\<close> holds, and the server's constructor
  blocks for ever instead of going on without persistence.
\<close>

lemma session_init_blocks:
  assumes "\<not> ss_locked s"
  shows "ScyllaSession_Init cluster_ok session_ok connect_ok s =
    (if ss_initialized s then Some (True, s)
     else if cluster_ok \<and> session_ok \<and> connect_ok
     then Some (True, s\<lparr>ss_cluster := True, ss_session := True, ss_initialized := True\<rparr>)
     else None)"
  using assms by (auto simp: ScyllaSession_Init_def ScyllaSession_Close_def ss_lock_def ss_unlock_def Let_def)

lemma session_init_blocks_witness:
  "ScyllaSession_Init True True False
     \<lparr>ss_locked = False, ss_cluster = False, ss_session = False, ss_initialized = False\<rparr> = None"
  by (subst session_init_blocks) simp_all

text \<open>After an \<open>Init\<close> that returned the session counts as initialised, until \<open>Close\<close>; both leave
  the mutex free.\<close>

lemma session_initialized:
  assumes "ScyllaSession_Init cluster_ok session_ok connect_ok s = Some (r, s1)"
  shows "r" and "ss_IsInitialized s1 = Some (True, s1)"
    and "\<exists>s2. ScyllaSession_Close s1 = Some s2 \<and> ss_IsInitialized s2 = Some (False, s2) \<and> \<not> ss_session s2"
proof -
  have "\<not> ss_locked s" using assms by (auto simp: ScyllaSession_Init_def ss_lock_def)
  then have "r \<and> \<not> ss_locked s1 \<and> ss_initialized s1"
    using assms session_init_blocks [of s cluster_ok session_ok connect_ok] by (auto split: if_splits)
  then show "r" "ss_IsInitialized s1 = Some (True, s1)"
    "\<exists>s2. ScyllaSession_Close s1 = Some s2 \<and> ss_IsInitialized s2 = Some (False, s2) \<and> \<not> ss_session s2"
    by (simp_all add: ss_IsInitialized_def ScyllaSession_Close_def ss_lock_def ss_unlock_def)
qed

end
