(* ===== verification/Push_Service.thy ===== *)
theory Push_Service
  imports Tcp_Connection Msg_Store
begin

text \<open>
  The state that connections share, and the operations on it: the push service
  (\<open>service/push_service.cpp\<close>), the epoll wrapper (\<open>core/epoller.cpp\<close>) and the parts
  of \<open>core/tcp_connection.cpp\<close> that use them.

  Model. A \<open>TcpConnection*\<close> is an address; \<open>w_objs\<close> maps the addresses of live objects
  to their state, so that a destroyed object is absent and access through a stale pointer is
  the result \<open>None\<close>. Sockets are the set \<open>w_open\<close> of open descriptors, and
  \<open>epoll_ctl\<close> acts on the map \<open>w_interest\<close> from registered descriptors to event masks.
  Every operation is one step, except that a push is two: it looks the connection up under the
  mutex of the registry (\<open>find_client\<close>) and uses the pointer after it has released the mutex
  (\<open>send_found\<close>, \<open>push_found\<close>), so that another thread may act in between; \<open>send_envelope\<close>
  and \<open>push_to_user\<close> are the two in sequence. The thread pool is the list of the tasks that have
  been added.
\<close>

unbundle bit_operations_syntax

section \<open>State\<close>

datatype task = OnReadTask nat | OnWriteTask nat | PushPendingTask u64

record ('db, 'sc) world =
  w_objs :: "nat \<Rightarrow> tcp_conn option"
  w_connections :: "int \<Rightarrow> nat option"
  w_online :: "u64 \<Rightarrow> nat option"
  w_user_count :: int
  w_open :: "int set"
  w_interest :: "int \<Rightarrow> u32 option"
  w_tasks :: "task list"
  w_db :: 'db
  w_writer :: "'sc msg_writer"

text \<open>What the server is given: libraries, configuration and the clock.\<close>

record ('db, 'sc) server_env =
  e_mysql :: "'db mysql"
  e_scylla :: "'sc scylla"
  e_serialize :: "Envelope \<Rightarrow> bytes option"
  e_parse :: "bytes \<Rightarrow> Envelope option"
  e_fs :: file_system
  e_src_dir :: string
  e_token :: "u64 \<Rightarrow> string \<Rightarrow> string"
  e_is_et :: bool
  e_time :: int
  e_rand_id :: u64

section \<open>Epoll\<close>

definition EPOLLIN :: u32 where "EPOLLIN = 0x001"
definition EPOLLOUT :: u32 where "EPOLLOUT = 0x004"
definition EPOLLERR :: u32 where "EPOLLERR = 0x008"
definition EPOLLHUP :: u32 where "EPOLLHUP = 0x010"
definition EPOLLRDHUP :: u32 where "EPOLLRDHUP = 0x2000"
definition EPOLLONESHOT :: u32 where "EPOLLONESHOT = 0x40000000"
definition EPOLLET :: u32 where "EPOLLET = 0x80000000"

definition addFd :: "int \<Rightarrow> u32 \<Rightarrow> ('db, 'sc) world \<Rightarrow> bool \<times> ('db, 'sc) world" where
  "addFd fd events w =
     (if fd < 0 then (False, w)
      else if fd \<in> w_open w \<and> w_interest w fd = None
      then (True, w\<lparr>w_interest := (w_interest w)(fd \<mapsto> events)\<rparr>)
      else (False, w))"

definition modFd :: "int \<Rightarrow> u32 \<Rightarrow> ('db, 'sc) world \<Rightarrow> bool \<times> ('db, 'sc) world" where
  "modFd fd events w =
     (if fd < 0 then (False, w)
      else if fd \<in> w_open w \<and> w_interest w fd \<noteq> None
      then (True, w\<lparr>w_interest := (w_interest w)(fd \<mapsto> events)\<rparr>)
      else (False, w))"

definition delFd :: "int \<Rightarrow> ('db, 'sc) world \<Rightarrow> bool \<times> ('db, 'sc) world" where
  "delFd fd w =
     (if fd < 0 then (False, w)
      else if fd \<in> w_open w \<and> w_interest w fd \<noteq> None
      then (True, w\<lparr>w_interest := (w_interest w)(fd := None)\<rparr>)
      else (False, w))"

text \<open>\<open>close\<close>: the descriptor also leaves the epoll set.\<close>

definition close_fd :: "int \<Rightarrow> ('db, 'sc) world \<Rightarrow> ('db, 'sc) world" where
  "close_fd fd w = w\<lparr>w_open := w_open w - {fd}, w_interest := (w_interest w)(fd := None)\<rparr>"

section \<open>Objects\<close>

definition deref :: "nat \<Rightarrow> ('db, 'sc) world \<Rightarrow> tcp_conn option" where
  "deref p w = w_objs w p"

definition put_conn :: "nat \<Rightarrow> tcp_conn \<Rightarrow> ('db, 'sc) world \<Rightarrow> ('db, 'sc) world" where
  "put_conn p c w = w\<lparr>w_objs := (w_objs w)(p \<mapsto> c)\<rparr>"

section \<open>Sessions\<close>

definition add_client :: "u64 \<Rightarrow> nat \<Rightarrow> ('db, 'sc) world \<Rightarrow> ('db, 'sc) world" where
  "add_client user_id p w = w\<lparr>w_online := (w_online w)(user_id \<mapsto> p)\<rparr>"

definition remove_client :: "u64 \<Rightarrow> ('db, 'sc) world \<Rightarrow> ('db, 'sc) world" where
  "remove_client user_id w =
     (if w_online w user_id \<noteq> None then w\<lparr>w_online := (w_online w)(user_id := None)\<rparr> else w)"

definition set_user_id :: "nat \<Rightarrow> u64 \<Rightarrow> ('db, 'sc) world \<Rightarrow> ('db, 'sc) world option" where
  "set_user_id p user_id w =
     do { c \<leftarrow> deref p w; Some (add_client user_id p (put_conn p (c\<lparr>c_user_id := user_id\<rparr>) w)) }"

definition close_conn :: "nat \<Rightarrow> ('db, 'sc) world \<Rightarrow> ('db, 'sc) world option" where
  "close_conn p w =
     do { c \<leftarrow> deref p w;
          if \<not> c_is_close c
          then let w1 = put_conn p (c\<lparr>c_is_close := True\<rparr>) w;
                   w2 = w1\<lparr>w_user_count := w_user_count w1 - 1\<rparr>;
                   w3 = (if c_user_id c \<noteq> 0 then remove_client (c_user_id c) w2 else w2)
            in Some (close_fd (c_fd c) w3)
          else Some w }"

section \<open>Pushing\<close>

definition notify_writable :: "bool \<Rightarrow> nat \<Rightarrow> ('db, 'sc) world \<Rightarrow> ('db, 'sc) world option" where
  "notify_writable is_et p w =
     do { c \<leftarrow> deref p w;
          let events = EPOLLIN OR EPOLLOUT OR EPOLLRDHUP OR EPOLLONESHOT OR (if is_et then EPOLLET else 0) in
          if c_events c = events then Some w
          else let (ok, w1) = modFd (c_fd c) events w in
            if ok then Some (put_conn p (c\<lparr>c_events := events\<rparr>) w1) else Some w1 }"

definition enqueue_message :: "bool \<Rightarrow> nat \<Rightarrow> bytes \<Rightarrow> ('db, 'sc) world \<Rightarrow> ('db, 'sc) world option" where
  "enqueue_message is_et p data w =
     do { c \<leftarrow> deref p w;
          notify_writable is_et p (put_conn p (c\<lparr>c_outgoing := c_outgoing c @ [frame data]\<rparr>) w) }"

text \<open>The lookup under the mutex, and the use of its result.\<close>

definition find_client :: "u64 \<Rightarrow> ('db, 'sc) world \<Rightarrow> nat option" where
  "find_client user_id w = w_online w user_id"

definition push_found ::
  "('db, 'sc) server_env \<Rightarrow> nat option \<Rightarrow> bytes \<Rightarrow> ('db, 'sc) world \<Rightarrow> ('db, 'sc) world option" where
  "push_found e conn data w = (case conn of None \<Rightarrow> Some w | Some p \<Rightarrow> enqueue_message (e_is_et e) p data w)"

definition send_found ::
  "('db, 'sc) server_env \<Rightarrow> nat option \<Rightarrow> Envelope \<Rightarrow> ('db, 'sc) world \<Rightarrow> ('db, 'sc) world option" where
  "send_found e conn envelope w =
     (case conn of
        None \<Rightarrow> Some w
      | Some p \<Rightarrow>
          (case e_serialize e envelope of
             None \<Rightarrow> Some w
           | Some serialized \<Rightarrow> enqueue_message (e_is_et e) p serialized w))"

definition send_envelope ::
  "('db, 'sc) server_env \<Rightarrow> u64 \<Rightarrow> Envelope \<Rightarrow> ('db, 'sc) world \<Rightarrow> ('db, 'sc) world option" where
  "send_envelope e target_id envelope w = (let conn = find_client target_id w in send_found e conn envelope w)"

definition friend_req_envelope :: "int \<Rightarrow> u64 \<Rightarrow> u64 \<Rightarrow> string \<Rightarrow> string \<Rightarrow> Envelope" where
  "friend_req_envelope now req_id sender sender_name verify_msg =
     \<lparr>env_seq = 0, env_cmd = CMD_FRIEND_REQ_PUSH, env_timestamp = now,
      env_payload = friend_req_push \<lparr>fp_req_id = req_id, fp_sender_id = sender, fp_sender_name = sender_name,
        fp_verify_msg = verify_msg, fp_timestamp = now\<rparr>\<rparr>"

definition push_friend_req ::
  "('db, 'sc) server_env \<Rightarrow> u64 \<Rightarrow> u64 \<Rightarrow> string \<Rightarrow> u64 \<Rightarrow> string \<Rightarrow> ('db, 'sc) world \<Rightarrow> ('db, 'sc) world option"
where
  "push_friend_req e req_id sender sender_name receiver verify_msg =
     send_envelope e receiver (friend_req_envelope (e_time e) req_id sender sender_name verify_msg)"

definition friend_status_envelope :: "int \<Rightarrow> u64 \<Rightarrow> string \<Rightarrow> int \<Rightarrow> Envelope" where
  "friend_status_envelope now receiver receiver_name action =
     \<lparr>env_seq = 0, env_cmd = CMD_FRIEND_STATUS_PUSH, env_timestamp = now,
      env_payload = friend_status_push \<lparr>sp_receiver_id = receiver, sp_receiver_name = receiver_name,
        sp_action = action\<rparr>\<rparr>"

definition push_friend_status ::
  "('db, 'sc) server_env \<Rightarrow> u64 \<Rightarrow> u64 \<Rightarrow> string \<Rightarrow> int \<Rightarrow> ('db, 'sc) world \<Rightarrow> ('db, 'sc) world option" where
  "push_friend_status e sender receiver receiver_name action =
     send_envelope e sender (friend_status_envelope (e_time e) receiver receiver_name action)"

definition p2p_envelope :: "int \<Rightarrow> P2PMessage \<Rightarrow> Envelope" where
  "p2p_envelope now msg =
     \<lparr>env_seq = 0, env_cmd = CMD_P2P_MSG_PUSH, env_timestamp = now, env_payload = p2p_msg_push msg\<rparr>"

definition push_p2p_message ::
  "('db, 'sc) server_env \<Rightarrow> P2PMessage \<Rightarrow> ('db, 'sc) world \<Rightarrow> ('db, 'sc) world option" where
  "push_p2p_message e msg = send_envelope e (receiver_id msg) (p2p_envelope (e_time e) msg)"

definition push_to_user ::
  "('db, 'sc) server_env \<Rightarrow> u64 \<Rightarrow> bytes \<Rightarrow> ('db, 'sc) world \<Rightarrow> ('db, 'sc) world option" where
  "push_to_user e user_id data w = (let conn = find_client user_id w in push_found e conn data w)"


section \<open>What pushing does to the connections\<close>

text \<open>
  \<open>live\<close>: every registered connection is an object that exists, is open and belongs to the
  user it is registered for. \<open>quiet\<close>: an operation that touches no more of any connection
  than its queue of outgoing frames, which it extends, and its event mask.
\<close>

definition live :: "('db, 'sc) world \<Rightarrow> bool" where
  "live w \<longleftrightarrow> (\<forall>u p. w_online w u = Some p \<longrightarrow>
     (\<exists>c. w_objs w p = Some c \<and> \<not> c_is_close c \<and> c_user_id c = u))"

definition conn_grows :: "tcp_conn \<Rightarrow> tcp_conn \<Rightarrow> bool" where
  "conn_grows c c' \<longleftrightarrow> (\<exists>q ev. c' = c\<lparr>c_outgoing := c_outgoing c @ q, c_events := ev\<rparr>)"

definition quiet :: "('db, 'sc) world \<Rightarrow> ('db, 'sc) world \<Rightarrow> bool" where
  "quiet w w' \<longleftrightarrow> w_connections w' = w_connections w \<and> w_online w' = w_online w \<and>
     w_user_count w' = w_user_count w \<and> w_open w' = w_open w \<and>
     dom (w_interest w') = dom (w_interest w) \<and>
     rel_fun (=) (rel_option conn_grows) (w_objs w) (w_objs w')"

lemma conn_grows_refl [simp]: "conn_grows c c"
proof -
  have "c = c\<lparr>c_outgoing := c_outgoing c @ [], c_events := c_events c\<rparr>" by simp
  then show ?thesis unfolding conn_grows_def by blast
qed

lemma conn_grows_trans [trans]: "conn_grows a b \<Longrightarrow> conn_grows b c \<Longrightarrow> conn_grows a c"
  by (fastforce simp: conn_grows_def)

lemma conn_grows_same:
  "conn_grows c c' \<Longrightarrow> c_read_buff c' = c_read_buff c \<and> c_write_buff c' = c_write_buff c \<and> c_fd c' = c_fd c \<and>
   c_is_close c' = c_is_close c \<and> c_handler c' = c_handler c \<and> c_user_id c' = c_user_id c \<and>
   c_type c' = c_type c \<and> c_determined c' = c_determined c \<and> (\<exists>q. c_outgoing c' = c_outgoing c @ q)"
  by (auto simp: conn_grows_def)

lemma quiet_refl [simp]: "quiet w w"
  by (simp add: quiet_def rel_fun_def option.rel_refl)

lemma quiet_trans [trans]: "quiet a b \<Longrightarrow> quiet b c \<Longrightarrow> quiet a c"
  unfolding quiet_def rel_fun_def
  by (smt (verit, ccfv_threshold) conn_grows_trans option.rel_cases option.rel_intros option.inject option.simps(3))

lemma quiet_deref:
  assumes "quiet w w'"
  shows "deref p w = Some c \<Longrightarrow> \<exists>c'. deref p w' = Some c' \<and> conn_grows c c'"
    and "deref p w = None \<Longrightarrow> deref p w' = None"
  using assms by (auto simp: quiet_def rel_fun_def deref_def option_rel_Some1 dest: spec [of _ p])

lemma quiet_live:
  assumes q: "quiet w w'" and l: "live w"
  shows "live w'"
  unfolding live_def
proof (intro allI impI)
  fix u p assume "w_online w' u = Some p"
  with q l obtain c where c: "w_objs w p = Some c" "\<not> c_is_close c" "c_user_id c = u"
    by (auto simp: quiet_def live_def)
  with quiet_deref(1) [OF q, of p c] show "\<exists>c. w_objs w' p = Some c \<and> \<not> c_is_close c \<and> c_user_id c = u"
    by (auto simp: deref_def dest!: conn_grows_same)
qed

lemma quiet_db [simp]: "quiet w (w\<lparr>w_db := s\<rparr>)" "quiet w (w\<lparr>w_writer := x\<rparr>)" "quiet w (w\<lparr>w_tasks := ts\<rparr>)"
  by (simp_all add: quiet_def rel_fun_def option.rel_refl)

text \<open>The exact effect of queueing a frame.\<close>

definition pushed :: "nat \<Rightarrow> bytes \<Rightarrow> ('db, 'sc) world \<Rightarrow> ('db, 'sc) world \<Rightarrow> bool" where
  "pushed p data w w' \<longleftrightarrow>
     (\<exists>c ev. w_objs w p = Some c \<and>
        w_objs w' = (w_objs w)(p \<mapsto> c\<lparr>c_outgoing := c_outgoing c @ [frame data], c_events := ev\<rparr>)) \<and>
     w_connections w' = w_connections w \<and> w_online w' = w_online w \<and> w_user_count w' = w_user_count w \<and>
     w_open w' = w_open w \<and> dom (w_interest w') = dom (w_interest w) \<and> w_tasks w' = w_tasks w \<and>
     w_db w' = w_db w \<and> w_writer w' = w_writer w"

lemma enqueue_message_pushed:
  assumes "deref p w = Some c"
  shows "\<exists>w'. enqueue_message is_et p data w = Some w' \<and> pushed p data w w'"
proof -
  let ?ev = "EPOLLIN OR EPOLLOUT OR EPOLLRDHUP OR EPOLLONESHOT OR (if is_et then EPOLLET else 0)"
  let ?c = "c\<lparr>c_outgoing := c_outgoing c @ [frame data]\<rparr>"
  let ?w = "put_conn p ?c w"
  obtain ok w1 where m: "modFd (c_fd c) ?ev ?w = (ok, w1)" by fastforce
  then have w1: "w_objs w1 = (w_objs w)(p \<mapsto> ?c)" "w_connections w1 = w_connections w" "w_online w1 = w_online w"
    "w_user_count w1 = w_user_count w" "w_open w1 = w_open w" "dom (w_interest w1) = dom (w_interest w)"
    "w_tasks w1 = w_tasks w" "w_db w1 = w_db w" "w_writer w1 = w_writer w"
    by (auto simp: modFd_def put_conn_def split: if_splits)
  have c: "w_objs w p = Some c" using assms by (simp add: deref_def)
  have ev: "?c = c\<lparr>c_outgoing := c_outgoing c @ [frame data], c_events := c_events c\<rparr>" by simp
  let ?w2 = "if c_events c = ?ev then ?w else if ok then put_conn p (?c\<lparr>c_events := ?ev\<rparr>) w1 else w1"
  have run: "enqueue_message is_et p data w = Some ?w2"
    using c m by (simp add: enqueue_message_def notify_writable_def put_conn_def deref_def Let_def)
  have "\<exists>ev. w_objs ?w2 = (w_objs w)(p \<mapsto> c\<lparr>c_outgoing := c_outgoing c @ [frame data], c_events := ev\<rparr>)"
  proof (cases "c_events c \<noteq> ?ev \<and> ok")
    case True
    then show ?thesis using w1(1) by (auto simp: put_conn_def)
  next
    case False
    then have "w_objs ?w2 = (w_objs w)(p \<mapsto> ?c)" using w1(1) by (auto simp: put_conn_def)
    then show ?thesis using ev by metis
  qed
  with c w1 run show ?thesis unfolding pushed_def by (auto simp: put_conn_def)
qed

lemma pushed_quiet: "pushed p data w w' \<Longrightarrow> quiet w w'"
  by (fastforce simp: pushed_def quiet_def rel_fun_def option.rel_refl conn_grows_def)

lemma pushed_rest:
  "pushed p data w w' \<Longrightarrow> w_db w' = w_db w \<and> w_writer w' = w_writer w \<and> w_tasks w' = w_tasks w \<and>
   (\<forall>q. q \<noteq> p \<longrightarrow> w_objs w' q = w_objs w q)"
  by (auto simp: pushed_def)

lemma live_deref: "live w \<Longrightarrow> w_online w u = Some p \<Longrightarrow> \<exists>c. deref p w = Some c"
  by (auto simp: live_def deref_def)

text \<open>Where a push returns, it has queued a frame or done nothing.\<close>

lemma enqueue_message_defined: "(\<exists>w'. enqueue_message is_et p data w = Some w') \<longleftrightarrow> deref p w \<noteq> None"
  using enqueue_message_pushed [of p w _ is_et data] by (cases "deref p w") (auto simp: enqueue_message_def)

lemma enqueue_message_quiet:
  assumes "enqueue_message is_et p data w = Some w'"
  shows "quiet w w'"
proof -
  obtain c where "deref p w = Some c" using assms by (cases "deref p w") (auto simp: enqueue_message_def)
  from enqueue_message_pushed [OF this, of is_et data] assms show ?thesis by (auto intro: pushed_quiet)
qed

lemma push_found_quiet: "push_found e conn data w = Some w' \<Longrightarrow> quiet w w'"
  by (auto simp: push_found_def split: option.splits dest: enqueue_message_quiet)

lemma push_to_user_quiet: "push_to_user e u data w = Some w' \<Longrightarrow> quiet w w'"
  by (simp add: push_to_user_def push_found_quiet)

lemma send_envelope_quiet: "send_envelope e u env w = Some w' \<Longrightarrow> quiet w w'"
  by (auto simp: send_envelope_def send_found_def split: option.splits dest: enqueue_message_quiet)

text \<open>A registered user gets the frame, an unregistered one nothing.\<close>

lemma push_to_user_pushed:
  assumes "live w"
  shows "\<exists>w'. push_to_user e u data w = Some w' \<and>
    (case w_online w u of None \<Rightarrow> w' = w | Some p \<Rightarrow> pushed p data w w')"
  using assms live_deref [OF assms] enqueue_message_pushed
  by (fastforce simp: push_to_user_def push_found_def find_client_def split: option.splits)

lemma send_envelope_eq:
  "send_envelope e u env w = (case e_serialize e env of None \<Rightarrow> Some w | Some d \<Rightarrow> push_to_user e u d w)"
  by (auto simp: send_envelope_def send_found_def push_to_user_def push_found_def split: option.splits)

section \<open>Operations that cannot go wrong\<close>

text \<open>
  The contract that pushing offers to the services: from a state that satisfies \<open>ok\<close> a step
  returns, in a state that satisfies \<open>ok\<close> and is related to the first by \<open>rel\<close>. It
  extends to every sequence of steps.
\<close>

locale safe_step =
  fixes step :: "'a \<Rightarrow> 'w \<Rightarrow> 'w option" and ok :: "'w \<Rightarrow> bool" and rel :: "'w \<Rightarrow> 'w \<Rightarrow> bool"
  assumes rel_refl: "rel w w"
    and rel_trans: "rel w w1 \<Longrightarrow> rel w1 w2 \<Longrightarrow> rel w w2"
    and step_ok: "ok w \<Longrightarrow> \<exists>w'. step a w = Some w' \<and> rel w w' \<and> ok w'"
begin

fun steps :: "'a list \<Rightarrow> 'w \<Rightarrow> 'w option" where
  "steps [] w = Some w"
| "steps (a # as) w = Option.bind (step a w) (steps as)"

lemma steps_ok: "ok w \<Longrightarrow> \<exists>w'. steps as w = Some w' \<and> rel w w' \<and> ok w'"
proof (induction as arbitrary: w)
  case Nil
  then show ?case using rel_refl by simp
next
  case (Cons a as)
  obtain w1 where w1: "step a w = Some w1" "rel w w1" "ok w1" using step_ok [OF Cons.prems] by blast
  with Cons.IH [OF w1(3)] rel_trans show ?case by fastforce
qed

end

lemma push_to_user_safe: "live w \<Longrightarrow> \<exists>w'. push_to_user e u d w = Some w' \<and> quiet w w' \<and> live w'"
  using push_to_user_pushed [of w e u d] quiet_live
  by (fastforce split: option.splits dest: pushed_quiet)

lemma send_envelope_safe: "live w \<Longrightarrow> \<exists>w'. send_envelope e u env w = Some w' \<and> quiet w w' \<and> live w'"
  using push_to_user_safe by (fastforce simp: send_envelope_eq split: option.splits)

interpretation pushes: safe_step "\<lambda>(u, d). push_to_user e u d" live quiet
  for e :: "('db, 'sc) server_env"
  by unfold_locales (auto intro: quiet_trans push_to_user_safe)

end
