(* ===== verification/Chat_Services.thy ===== *)
theory Chat_Services
  imports Push_Service
begin

text \<open>
  The services (\<open>service/auth_service.cpp\<close>, \<open>service/friend_service.cpp\<close>,
  \<open>service/msg_service.cpp\<close>) and the handler that dispatches the requests of a connection to
  them (\<open>handler/protobuf_handler.cpp\<close>), on the shared state of \<open>Push_Service\<close>.

  Model. A response object that a function fills in is a value it returns; it starts from the
  default of its message type. \<open>time(nullptr)\<close> and \<open>GenerateRandId()\<close> are constant
  during one call of the handler.
\<close>

section \<open>Access to the database\<close>

definition with_db ::
  "('db \<Rightarrow> 'a \<times> 'db) \<Rightarrow> ('db, 'sc) world \<Rightarrow> 'a \<times> ('db, 'sc) world" where
  "with_db f w = (case f (w_db w) of (x, s) \<Rightarrow> (x, w\<lparr>w_db := s\<rparr>))"

section \<open>AuthService\<close>

definition user_register ::
  "('db, 'sc) server_env \<Rightarrow> RegisterReq \<Rightarrow> ('db, 'sc) world \<Rightarrow> RegisterResp \<times> ('db, 'sc) world" where
  "user_register e req w =
     (let resp = RegisterResp_default; username = rq_username req; password = rq_password req in
      if username = [] \<or> password = []
      then (resp\<lparr>rr_success := False, rr_error_msg := ''Username or password cannot be empty''\<rparr>, w)
      else let (used, w1) = with_db (QueryExist (e_mysql e) username) w in
        if used then (resp\<lparr>rr_success := False, rr_error_msg := ''Username already exists''\<rparr>, w1)
        else let user_id = e_rand_id e;
                 (ok, w2) = with_db (UserDao_Insert (e_mysql e) user_id username password) w1 in
          if ok then (resp\<lparr>rr_success := True, rr_user_id := user_id\<rparr>, w2)
          else (resp\<lparr>rr_success := False, rr_error_msg := ''Database internal error''\<rparr>, w2))"

definition user_login ::
  "('db, 'sc) server_env \<Rightarrow> nat \<Rightarrow> LoginReq \<Rightarrow> ('db, 'sc) world \<Rightarrow> (LoginResp \<times> ('db, 'sc) world) option"
where
  "user_login e conn req w =
     (let resp = LoginResp_default; username = lq_username req; password = lq_password req in
      if username = [] \<or> password = []
      then Some (resp\<lparr>lr_success := False, lr_error_msg := ''Username or password cannot be empty''\<rparr>, w)
      else let (known, w1) = with_db (QueryExist (e_mysql e) username) w in
        if \<not> known then Some (resp\<lparr>lr_success := False, lr_error_msg := ''Username not found''\<rparr>, w1)
        else let (valid, w2) = with_db (VerifyUser (e_mysql e) username password) w1 in
          if valid
          then let (user, w3) = with_db (FindByUsername (e_mysql e) username) w2;
                   token = e_token e (usr_user_id user) (usr_username user)
            in do { w4 \<leftarrow> set_user_id conn (usr_user_id user) w3;
                    Some (resp\<lparr>lr_success := True, lr_user_info := Some user, lr_token := token\<rparr>, w4) }
          else Some (resp\<lparr>lr_success := False, lr_error_msg := ''Database internal error''\<rparr>, w2))"

section \<open>FriendService\<close>

definition AddFriend ::
  "('db, 'sc) server_env \<Rightarrow> u64 \<Rightarrow> AddFriendReq \<Rightarrow> ('db, 'sc) world \<Rightarrow>
   (AddFriendResp \<times> ('db, 'sc) world) option" where
  "AddFriend e sender req w =
     (let resp = AddFriendResp_default;
          ((result, req_id), w1) =
            with_db (FriendDao_AddFriend (e_mysql e) sender (aq_receiver_id req) (aq_verify_msg req)) w
      in case result of
        SUCCESS \<Rightarrow>
          let (user, w2) = with_db (FindById (e_mysql e) sender) w1 in
          do { w3 \<leftarrow> push_friend_req e req_id sender (usr_username user) (aq_receiver_id req)
                 (aq_verify_msg req) w2;
               Some (resp\<lparr>ar_success := True\<rparr>, w3) }
      | ALREADY_EXISTS \<Rightarrow>
          Some (resp\<lparr>ar_success := False, ar_error_msg := ''Friend request already sent or exists''\<rparr>, w1)
      | DB_ERROR \<Rightarrow>
          Some (resp\<lparr>ar_success := False, ar_error_msg := ''Internal Database Error''\<rparr>, w1))"

definition HandleFriend ::
  "('db, 'sc) server_env \<Rightarrow> u64 \<Rightarrow> HandleFriendReq \<Rightarrow> ('db, 'sc) world \<Rightarrow>
   (HandleFriendResp \<times> ('db, 'sc) world) option" where
  "HandleFriend e receiver req w =
     (let resp = HandleFriendResp_default; accept = (hq_action req = ACTION_ACCEPT);
          (result, w1) = with_db (FriendDao_HandleFriend (e_mysql e) receiver (hq_sender_id req) accept) w
      in case result of
        Some sender \<Rightarrow>
          let (user, w2) = with_db (FindById (e_mysql e) receiver) w1 in
          do { w3 \<leftarrow> push_friend_status e (hq_sender_id req) receiver (usr_username user) (hq_action req) w2;
               Some (resp\<lparr>hr_success := True, hr_sender_id := sender\<rparr>, w3) }
      | None \<Rightarrow> Some (resp\<lparr>hr_success := False, hr_error_msg := ''Transaction Failed''\<rparr>, w1))"

definition GetFriendList ::
  "('db, 'sc) server_env \<Rightarrow> u64 \<Rightarrow> ('db, 'sc) world \<Rightarrow> GetFriendListResp \<times> ('db, 'sc) world" where
  "GetFriendList e user_id w =
     (let resp = GetFriendListResp_default;
          (success, w1) = with_db (FriendDao_GetFriendList (e_mysql e) user_id) w
      in case success of
        Some users \<Rightarrow> (resp\<lparr>gr_success := True, gr_friend_list := users\<rparr>, w1)
      | None \<Rightarrow> (resp\<lparr>gr_success := False, gr_error_msg := ''Internal Database Error''\<rparr>, w1))"

definition GetPendingRequests ::
  "('db, 'sc) server_env \<Rightarrow> u64 \<Rightarrow> ('db, 'sc) world \<Rightarrow> FriendReqPush list \<times> ('db, 'sc) world" where
  "GetPendingRequests e user_id = with_db (FriendDao_GetPendingRequests (e_mysql e) user_id)"

section \<open>MsgService\<close>

definition send_p2p_message ::
  "('db, 'sc) server_env \<Rightarrow> u64 \<Rightarrow> P2PMessage \<Rightarrow> ('db, 'sc) world \<Rightarrow> (MessageAck \<times> ('db, 'sc) world) option"
where
  "send_p2p_message e sender req w =
     (let resp = MessageAck_default in
      if sender = 0
      then Some (resp\<lparr>ack_success := False, ack_error_msg := ''Sender ID is empty''\<rparr>, w)
      else if receiver_id req = 0
      then Some (resp\<lparr>ack_success := False, ack_error_msg := ''Receiver ID is empty''\<rparr>, w)
      else if timestamp req = 0
      then Some (resp\<lparr>ack_success := False, ack_error_msg := ''Timestamp is empty''\<rparr>, w)
      else let w1 = w\<lparr>w_writer := writer_Enqueue req (w_writer w)\<rparr>;
               msg1 = req\<lparr>sender_id := sender\<rparr>;
               msg_to_push = (if timestamp msg1 = 0 then msg1\<lparr>timestamp := e_time e\<rparr> else msg1)
        in do { w2 \<leftarrow> push_p2p_message e msg_to_push w1;
                Some (resp\<lparr>ack_msg_id := msg_id req, ack_success := True, ack_ref_seq := 0\<rparr>, w2) })"

definition sync_messages ::
  "('db, 'sc) server_env \<Rightarrow> u64 \<Rightarrow> SyncMessagesReq \<Rightarrow> ('db, 'sc) world \<Rightarrow>
   SyncMessagesResp \<times> ('db, 'sc) world" where
  "sync_messages e user_id req w =
     (let resp = SyncMessagesResp_default in
      if user_id = 0 then (resp\<lparr>sr_success := False, sr_error_msg := ''User ID is empty''\<rparr>, w)
      else (resp\<lparr>sr_success := True,
              sr_messages := GetMessagesForUser (e_scylla e) user_id (wr_store (w_writer w))\<rparr>, w))"

section \<open>Dispatch\<close>

definition RequireAuth :: "nat \<Rightarrow> Envelope \<Rightarrow> CommandType \<Rightarrow> ('db, 'sc) world \<Rightarrow> (bool \<times> Envelope) option" where
  "RequireAuth conn response resp_cmd w =
     do { c \<leftarrow> deref conn w;
          if \<not> is_logged_in c then Some (True, response\<lparr>env_cmd := resp_cmd\<rparr>) else Some (False, response) }"

definition CurrentUserId :: "nat \<Rightarrow> ('db, 'sc) world \<Rightarrow> u64 option" where
  "CurrentUserId conn w = do { c \<leftarrow> deref conn w; Some (c_user_id c) }"

definition HandleRegister ::
  "('db, 'sc) server_env \<Rightarrow> Envelope \<Rightarrow> Envelope \<Rightarrow> ('db, 'sc) world \<Rightarrow> (Envelope \<times> ('db, 'sc) world) option"
where
  "HandleRegister e request response w =
     (case env_payload request of
        register_req req \<Rightarrow>
          let (resp, w1) = user_register e req w in
          Some (response\<lparr>env_cmd := CMD_REGISTER_RES, env_payload := register_res resp\<rparr>, w1)
      | _ \<Rightarrow> Some (response\<lparr>env_cmd := CMD_REGISTER_RES, env_payload := register_res
            (RegisterResp_default\<lparr>rr_success := False,
               rr_error_msg := ''Invalid request: missing register payload''\<rparr>)\<rparr>, w))"

definition HandleLogin ::
  "('db, 'sc) server_env \<Rightarrow> nat \<Rightarrow> Envelope \<Rightarrow> Envelope \<Rightarrow> ('db, 'sc) world \<Rightarrow>
   (Envelope \<times> ('db, 'sc) world) option" where
  "HandleLogin e conn request response w =
     (case env_payload request of
        login_req req \<Rightarrow>
          do { (resp, w1) \<leftarrow> user_login e conn req w;
               let response1 = response\<lparr>env_cmd := CMD_LOGIN_RES, env_payload := login_res resp\<rparr>;
                   w2 = (if lr_success resp
                         then let user_id = (case lr_user_info resp of Some u \<Rightarrow> usr_user_id u | None \<Rightarrow> 0)
                           in w1\<lparr>w_tasks := w_tasks w1 @ [PushPendingTask user_id]\<rparr>
                         else w1)
               in Some (response1, w2) }
      | _ \<Rightarrow> Some (response\<lparr>env_cmd := CMD_LOGIN_RES, env_payload := login_res
            (LoginResp_default\<lparr>lr_success := False,
               lr_error_msg := ''Invalid request: missing login payload''\<rparr>)\<rparr>, w))"

text \<open>The task that \<open>HandleLogin\<close> adds.\<close>

definition pending_envelope :: "int \<Rightarrow> FriendReqPush \<Rightarrow> Envelope" where
  "pending_envelope now req =
     \<lparr>env_seq = 0, env_cmd = CMD_FRIEND_REQ_PUSH, env_timestamp = now, env_payload = friend_req_push req\<rparr>"

fun push_pending ::
  "('db, 'sc) server_env \<Rightarrow> u64 \<Rightarrow> FriendReqPush list \<Rightarrow> ('db, 'sc) world \<Rightarrow> ('db, 'sc) world option" where
  "push_pending e user_id [] w = Some w"
| "push_pending e user_id (req # reqs) w =
     (case e_serialize e (pending_envelope (e_time e) req) of
        None \<Rightarrow> push_pending e user_id reqs w
      | Some serialized \<Rightarrow>
          do { w1 \<leftarrow> push_to_user e user_id serialized w; push_pending e user_id reqs w1 })"

definition pending_task ::
  "('db, 'sc) server_env \<Rightarrow> u64 \<Rightarrow> ('db, 'sc) world \<Rightarrow> ('db, 'sc) world option" where
  "pending_task e user_id w =
     (let (pending_reqs, w1) = GetPendingRequests e user_id w in push_pending e user_id pending_reqs w1)"

definition HandleAddFriend ::
  "('db, 'sc) server_env \<Rightarrow> nat \<Rightarrow> Envelope \<Rightarrow> Envelope \<Rightarrow> ('db, 'sc) world \<Rightarrow>
   (Envelope \<times> ('db, 'sc) world) option" where
  "HandleAddFriend e conn request response w =
     do { (denied, response1) \<leftarrow> RequireAuth conn response CMD_ADD_FRIEND_RES w;
          if denied then Some (response1, w)
          else case env_payload request of
             add_friend_req req \<Rightarrow>
               do { user \<leftarrow> CurrentUserId conn w;
                    (resp, w1) \<leftarrow> AddFriend e user req w;
                    Some (response1\<lparr>env_cmd := CMD_ADD_FRIEND_RES, env_payload := add_friend_res resp\<rparr>, w1) }
           | _ \<Rightarrow> Some (response1\<lparr>env_cmd := CMD_ADD_FRIEND_RES, env_payload := add_friend_res
                 (AddFriendResp_default\<lparr>ar_success := False,
                    ar_error_msg := ''Invalid request: missing add friend payload''\<rparr>)\<rparr>, w) }"

definition HandleHandleFriend ::
  "('db, 'sc) server_env \<Rightarrow> nat \<Rightarrow> Envelope \<Rightarrow> Envelope \<Rightarrow> ('db, 'sc) world \<Rightarrow>
   (Envelope \<times> ('db, 'sc) world) option" where
  "HandleHandleFriend e conn request response w =
     do { (denied, response1) \<leftarrow> RequireAuth conn response CMD_HANDLE_FRIEND_RES w;
          if denied then Some (response1, w)
          else case env_payload request of
             handle_friend_req req \<Rightarrow>
               do { user \<leftarrow> CurrentUserId conn w;
                    (resp, w1) \<leftarrow> HandleFriend e user req w;
                    Some (response1\<lparr>env_cmd := CMD_HANDLE_FRIEND_RES, env_payload := handle_friend_res resp\<rparr>, w1) }
           | _ \<Rightarrow> Some (response1\<lparr>env_cmd := CMD_HANDLE_FRIEND_RES, env_payload := handle_friend_res
                 (HandleFriendResp_default\<lparr>hr_success := False,
                    hr_error_msg := ''Invalid request: missing handle friend payload''\<rparr>)\<rparr>, w) }"

definition HandleGetFriendList ::
  "('db, 'sc) server_env \<Rightarrow> nat \<Rightarrow> Envelope \<Rightarrow> Envelope \<Rightarrow> ('db, 'sc) world \<Rightarrow>
   (Envelope \<times> ('db, 'sc) world) option" where
  "HandleGetFriendList e conn request response w =
     do { (denied, response1) \<leftarrow> RequireAuth conn response CMD_GET_FRIEND_LIST_RES w;
          if denied then Some (response1, w)
          else case env_payload request of
             get_friend_list_req \<Rightarrow>
               do { user \<leftarrow> CurrentUserId conn w;
                    let (resp, w1) = GetFriendList e user w in
                    Some (response1\<lparr>env_cmd := CMD_GET_FRIEND_LIST_RES, env_payload := get_friend_list_res resp\<rparr>, w1) }
           | _ \<Rightarrow> Some (response1\<lparr>env_cmd := CMD_GET_FRIEND_LIST_RES, env_payload := get_friend_list_res
                 (GetFriendListResp_default\<lparr>gr_success := False,
                    gr_error_msg := ''Invalid request: missing get friend list payload''\<rparr>)\<rparr>, w) }"

definition HandleP2PMsg ::
  "('db, 'sc) server_env \<Rightarrow> nat \<Rightarrow> Envelope \<Rightarrow> Envelope \<Rightarrow> ('db, 'sc) world \<Rightarrow>
   (Envelope \<times> ('db, 'sc) world) option" where
  "HandleP2PMsg e conn request response w =
     do { (denied, response1) \<leftarrow> RequireAuth conn response CMD_MSG_ACK w;
          if denied then Some (response1, w)
          else case env_payload request of
             p2p_msg_req req \<Rightarrow>
               do { user \<leftarrow> CurrentUserId conn w;
                    (resp, w1) \<leftarrow> send_p2p_message e user req w;
                    Some (response1\<lparr>env_cmd := CMD_MSG_ACK, env_payload := msg_ack resp\<rparr>, w1) }
           | _ \<Rightarrow> Some (response1\<lparr>env_cmd := CMD_MSG_ACK, env_payload := msg_ack
                 (MessageAck_default\<lparr>ack_success := False,
                    ack_error_msg := ''Invalid request: missing p2p message payload''\<rparr>)\<rparr>, w) }"

definition HandleSyncMessages ::
  "('db, 'sc) server_env \<Rightarrow> nat \<Rightarrow> Envelope \<Rightarrow> Envelope \<Rightarrow> ('db, 'sc) world \<Rightarrow>
   (Envelope \<times> ('db, 'sc) world) option" where
  "HandleSyncMessages e conn request response w =
     do { (denied, response1) \<leftarrow> RequireAuth conn response CMD_SYNC_MSGS_RES w;
          if denied then Some (response1, w)
          else case env_payload request of
             sync_msgs_req req \<Rightarrow>
               do { user \<leftarrow> CurrentUserId conn w;
                    let (resp, w1) = sync_messages e user req w in
                    Some (response1\<lparr>env_cmd := CMD_SYNC_MSGS_RES, env_payload := sync_msgs_res resp\<rparr>, w1) }
           | _ \<Rightarrow> Some (response1\<lparr>env_cmd := CMD_SYNC_MSGS_RES, env_payload := sync_msgs_res
                 (SyncMessagesResp_default\<lparr>sr_success := False,
                    sr_error_msg := ''Invalid request: missing sync messages payload''\<rparr>)\<rparr>, w) }"

definition HandleUnknown :: "Envelope \<Rightarrow> ('db, 'sc) world \<Rightarrow> (Envelope \<times> ('db, 'sc) world) option" where
  "HandleUnknown response w = Some (response\<lparr>env_cmd := CMD_UNKNOWN\<rparr>, w)"

definition Dispatch ::
  "('db, 'sc) server_env \<Rightarrow> nat \<Rightarrow> Envelope \<Rightarrow> Envelope \<Rightarrow> ('db, 'sc) world \<Rightarrow>
   (Envelope \<times> ('db, 'sc) world) option" where
  "Dispatch e conn request response w =
     (case env_cmd request of
        CMD_REGISTER_REQ \<Rightarrow> HandleRegister e request response w
      | CMD_LOGIN_REQ \<Rightarrow> HandleLogin e conn request response w
      | CMD_ADD_FRIEND_REQ \<Rightarrow> HandleAddFriend e conn request response w
      | CMD_HANDLE_FRIEND_REQ \<Rightarrow> HandleHandleFriend e conn request response w
      | CMD_GET_FRIEND_LIST_REQ \<Rightarrow> HandleGetFriendList e conn request response w
      | CMD_P2P_MSG_REQ \<Rightarrow> HandleP2PMsg e conn request response w
      | CMD_SYNC_MSGS_REQ \<Rightarrow> HandleSyncMessages e conn request response w
      | CMD_HEARTBEAT \<Rightarrow> Some (response, w)
      | _ \<Rightarrow> HandleUnknown response w)"

section \<open>Processing of a connection's input\<close>

definition new_response :: "('db, 'sc) server_env \<Rightarrow> Envelope \<Rightarrow> Envelope" where
  "new_response e request = Envelope_default\<lparr>env_seq := env_seq request, env_timestamp := e_time e\<rparr>"

definition ProtobufHandler_Process ::
  "('db, 'sc) server_env \<Rightarrow> nat \<Rightarrow> ('db, 'sc) world \<Rightarrow> (bool \<times> ('db, 'sc) world) option" where
  "ProtobufHandler_Process e conn w =
     do { c \<leftarrow> deref conn w;
          (msg, rb) \<leftarrow> TryDecodeMessage (e_parse e) (c_read_buff c);
          let w1 = put_conn conn (c\<lparr>c_read_buff := rb\<rparr>) w in
          case msg of
            None \<Rightarrow> Some (False, w1)
          | Some request \<Rightarrow>
              do { (response, w2) \<leftarrow> Dispatch e conn request (new_response e request) w1;
                   c2 \<leftarrow> deref conn w2;
                   wb \<leftarrow> EncodeMessage (e_serialize e) response (c_write_buff c2);
                   Some (True, put_conn conn (c2\<lparr>c_write_buff := wb\<rparr>) w2) } }"

text \<open>\<open>TcpConnection::process\<close>.\<close>

definition conn_process ::
  "('db, 'sc) server_env \<Rightarrow> nat \<Rightarrow> ('db, 'sc) world \<Rightarrow> (bool \<times> ('db, 'sc) world) option" where
  "conn_process e conn w =
     do { c0 \<leftarrow> deref conn w;
          let (go, c) = determine_protocol c0; w0 = put_conn conn c w in
          if \<not> go then Some (False, w0)
          else case c_handler c of
            None \<Rightarrow> Some (False, w0)
          | Some ProtobufH \<Rightarrow> ProtobufHandler_Process e conn w0
          | Some (HttpH h) \<Rightarrow>
              do { (ok, h1, rb, wb, s) \<leftarrow> HttpHandler_Process (e_mysql e) (e_rand_id e) (e_fs e) (e_src_dir e) h
                     (c_read_buff c) (c_write_buff c) (w_db w0);
                   let c1 = c\<lparr>c_handler := Some (HttpH h1), c_read_buff := rb, c_write_buff := wb\<rparr>;
                       c2 = (if ok \<and> c_type c1 = HTTP then setup_iov_for_http c1 else c1)
                   in Some (ok, put_conn conn c2 (w0\<lparr>w_db := s\<rparr>)) } }"


section \<open>Every request returns\<close>

lemma with_db_eq: "with_db f w = (fst (f (w_db w)), w\<lparr>w_db := snd (f (w_db w))\<rparr>)"
  by (simp add: with_db_def split_def)

lemma live_update [simp]:
  "live (w\<lparr>w_db := s\<rparr>) = live w" "live (w\<lparr>w_writer := x\<rparr>) = live w" "live (w\<lparr>w_tasks := ts\<rparr>) = live w"
  by (simp_all add: live_def)

lemma deref_update [simp]:
  "deref p (w\<lparr>w_db := s\<rparr>) = deref p w" "deref p (w\<lparr>w_writer := x\<rparr>) = deref p w"
  "deref p (w\<lparr>w_tasks := ts\<rparr>) = deref p w" "deref p (add_client u q w) = deref p w"
  "deref p (put_conn q c w) = (if p = q then Some c else deref p w)"
  by (simp_all add: deref_def add_client_def put_conn_def)

lemma live_put:
  assumes "live w" and "deref p w = Some c" and "c_is_close c' = c_is_close c" and "c_user_id c' = c_user_id c"
  shows "live (put_conn p c' w)"
  using assms unfolding live_def put_conn_def deref_def by fastforce

lemma push_step:
  assumes "live w" and "quiet w0 w"
  shows "\<exists>w'. send_envelope e u env w = Some w' \<and> quiet w0 w' \<and> live w'"
  using send_envelope_safe [OF assms(1), of e u env] quiet_trans [OF assms(2)] by blast

lemma AddFriend_safe:
  assumes "live w"
  shows "\<exists>resp w'. AddFriend e u req w = Some (resp, w') \<and> quiet w w'"
proof -
  have "\<exists>w'. push_friend_req e rid u nm (aq_receiver_id req) (aq_verify_msg req) (w\<lparr>w_db := s\<rparr>) = Some w' \<and>
      quiet w w'" for rid nm s
    using push_step [of "w\<lparr>w_db := s\<rparr>" w] assms by (simp add: push_friend_req_def) blast
  then show ?thesis
    by (auto simp: AddFriend_def with_db_eq Let_def split_def split: AddFriendResult.splits)
      (metis bind.bind_lunit)+
qed

lemma HandleFriend_safe:
  assumes "live w"
  shows "\<exists>resp w'. HandleFriend e u req w = Some (resp, w') \<and> quiet w w'"
proof -
  have "\<exists>w'. push_friend_status e (hq_sender_id req) u nm (hq_action req) (w\<lparr>w_db := s\<rparr>) = Some w' \<and>
      quiet w w'" for nm s
    using push_step [of "w\<lparr>w_db := s\<rparr>" w] assms by (simp add: push_friend_status_def) blast
  then show ?thesis
    by (auto simp: HandleFriend_def with_db_eq Let_def split_def split: option.splits)
      (metis bind.bind_lunit)+
qed

lemma send_p2p_safe:
  assumes "live w"
  shows "\<exists>resp w'. send_p2p_message e u req w = Some (resp, w') \<and> quiet w w'"
proof -
  have "\<exists>w'. push_p2p_message e m (w\<lparr>w_writer := x\<rparr>) = Some w' \<and> quiet w w'" for m x
    using push_step [of "w\<lparr>w_writer := x\<rparr>" w] assms by (simp add: push_p2p_message_def) blast
  then show ?thesis
    by (auto simp: send_p2p_message_def Let_def) (metis bind.bind_lunit)+
qed

text \<open>\<open>kept conn\<close> is \<open>quiet\<close> up to the user that \<open>conn\<close> belongs to and its registration.\<close>

definition conn_kept :: "tcp_conn \<Rightarrow> tcp_conn \<Rightarrow> bool" where
  "conn_kept c c' \<longleftrightarrow> (\<exists>q ev u. c' = c\<lparr>c_outgoing := c_outgoing c @ q, c_events := ev, c_user_id := u\<rparr>)"

definition kept :: "nat \<Rightarrow> ('db, 'sc) world \<Rightarrow> ('db, 'sc) world \<Rightarrow> bool" where
  "kept conn w w' \<longleftrightarrow> w_connections w' = w_connections w \<and> w_user_count w' = w_user_count w \<and>
     w_open w' = w_open w \<and> dom (w_interest w') = dom (w_interest w) \<and>
     (\<forall>p. rel_option conn_kept (deref p w) (deref p w')) \<and>
     (\<forall>u p. w_online w' u = Some p \<longrightarrow> w_online w u = Some p \<or>
        p = conn \<and> (\<exists>c. deref conn w' = Some c \<and> c_user_id c = u))"

lemma conn_kept_grows: "conn_grows c c' \<Longrightarrow> conn_kept c c'"
proof -
  assume "conn_grows c c'"
  then obtain q ev where "c' = c\<lparr>c_outgoing := c_outgoing c @ q, c_events := ev, c_user_id := c_user_id c\<rparr>"
    by (auto simp: conn_grows_def)
  then show ?thesis unfolding conn_kept_def by blast
qed

lemma quiet_kept: "quiet w w' \<Longrightarrow> kept conn w w'"
proof -
  assume q: "quiet w w'"
  have "rel_option conn_kept (deref p w) (deref p w')" for p
    using quiet_deref [OF q, of p] by (cases "deref p w") (auto intro: conn_kept_grows)
  with q show ?thesis by (simp add: kept_def quiet_def)
qed

lemma set_user_id_kept:
  assumes "deref conn w = Some c"
  shows "\<exists>w'. set_user_id conn u w = Some w' \<and> kept conn w w'"
proof -
  have "c\<lparr>c_user_id := u\<rparr> = c\<lparr>c_outgoing := c_outgoing c @ [], c_events := c_events c, c_user_id := u\<rparr>" by simp
  then have "conn_kept c (c\<lparr>c_user_id := u\<rparr>)" unfolding conn_kept_def by blast
  moreover have "rel_option conn_kept x x" for x
    by (cases x) (auto intro: conn_kept_grows)
  ultimately show ?thesis using assms by (simp add: set_user_id_def kept_def) (simp add: add_client_def put_conn_def)
qed

lemma user_login_kept:
  assumes "deref conn w = Some c"
  shows "\<exists>resp w'. user_login e conn req w = Some (resp, w') \<and> kept conn w w'"
proof -
  have "\<exists>w'. set_user_id conn u (w\<lparr>w_db := s\<rparr>) = Some w' \<and> kept conn w w'" for u s
    using set_user_id_kept [of conn "w\<lparr>w_db := s\<rparr>"] assms by (simp add: kept_def)
  moreover have "kept conn w (w\<lparr>w_db := s\<rparr>)" for s by (simp add: quiet_kept)
  ultimately show ?thesis
    by (auto simp: user_login_def with_db_eq Let_def quiet_kept) (metis bind.bind_lunit)+
qed


lemma HandleRegister_kept:
  "\<exists>resp w'. HandleRegister e request r w = Some (resp, w') \<and> kept conn w w' \<and> env_seq resp = env_seq r"
  by (auto simp: HandleRegister_def user_register_def with_db_eq Let_def quiet_kept split: payload.splits)

lemma HandleLogin_kept:
  assumes "deref conn w = Some c"
  shows "\<exists>resp w'. HandleLogin e conn request r w = Some (resp, w') \<and> kept conn w w' \<and> env_seq resp = env_seq r"
proof (cases "env_payload request")
  case (login_req req)
  obtain resp w1 where "user_login e conn req w = Some (resp, w1)" "kept conn w w1"
    using user_login_kept [OF assms] by blast
  with login_req show ?thesis by (auto simp: HandleLogin_def Let_def kept_def)
qed (auto simp: HandleLogin_def quiet_kept)

lemma auth_simps:
  assumes "deref conn w = Some c"
  shows "RequireAuth conn r cmd w = Some (if is_logged_in c then (False, r) else (True, r\<lparr>env_cmd := cmd\<rparr>))"
    and "CurrentUserId conn w = Some (c_user_id c)"
  using assms by (simp_all add: RequireAuth_def CurrentUserId_def)

lemma HandleAddFriend_kept:
  assumes c: "deref conn w = Some c" and l: "live w"
  shows "\<exists>resp w'. HandleAddFriend e conn request r w = Some (resp, w') \<and> kept conn w w' \<and> env_seq resp = env_seq r"
proof (cases "env_payload request")
  case (add_friend_req req)
  obtain resp w' where "AddFriend e (c_user_id c) req w = Some (resp, w')" "quiet w w'"
    using AddFriend_safe [OF l] by blast
  with add_friend_req show ?thesis by (auto simp: HandleAddFriend_def auth_simps [OF c] quiet_kept)
qed (auto simp: HandleAddFriend_def auth_simps [OF c] quiet_kept)

lemma HandleHandleFriend_kept:
  assumes c: "deref conn w = Some c" and l: "live w"
  shows "\<exists>resp w'. HandleHandleFriend e conn request r w = Some (resp, w') \<and> kept conn w w' \<and> env_seq resp = env_seq r"
proof (cases "env_payload request")
  case (handle_friend_req req)
  obtain resp w' where "HandleFriend e (c_user_id c) req w = Some (resp, w')" "quiet w w'"
    using HandleFriend_safe [OF l] by blast
  with handle_friend_req show ?thesis by (auto simp: HandleHandleFriend_def auth_simps [OF c] quiet_kept)
qed (auto simp: HandleHandleFriend_def auth_simps [OF c] quiet_kept)

lemma HandleP2PMsg_kept:
  assumes c: "deref conn w = Some c" and l: "live w"
  shows "\<exists>resp w'. HandleP2PMsg e conn request r w = Some (resp, w') \<and> kept conn w w' \<and> env_seq resp = env_seq r"
proof (cases "env_payload request")
  case (p2p_msg_req req)
  obtain resp w' where "send_p2p_message e (c_user_id c) req w = Some (resp, w')" "quiet w w'"
    using send_p2p_safe [OF l] by blast
  with p2p_msg_req show ?thesis by (auto simp: HandleP2PMsg_def auth_simps [OF c] quiet_kept)
qed (auto simp: HandleP2PMsg_def auth_simps [OF c] quiet_kept)

lemma HandleGetFriendList_kept:
  assumes c: "deref conn w = Some c"
  shows "\<exists>resp w'. HandleGetFriendList e conn request r w = Some (resp, w') \<and> kept conn w w' \<and>
    env_seq resp = env_seq r"
proof -
  have "quiet w (snd (GetFriendList e u w))" for u
    by (simp add: GetFriendList_def with_db_eq Let_def split: option.splits)
  then show ?thesis
    by (cases "env_payload request")
      (auto simp: HandleGetFriendList_def auth_simps [OF c] quiet_kept split_def Let_def)
qed

lemma HandleSyncMessages_kept:
  assumes c: "deref conn w = Some c"
  shows "\<exists>resp w'. HandleSyncMessages e conn request r w = Some (resp, w') \<and> kept conn w w' \<and>
    env_seq resp = env_seq r"
proof -
  have "snd (sync_messages e u q w) = w" for u q by (simp add: sync_messages_def Let_def)
  then show ?thesis
    by (cases "env_payload request")
      (auto simp: HandleSyncMessages_def auth_simps [OF c] quiet_kept split_def Let_def)
qed

lemma Dispatch_kept:
  assumes c: "deref conn w = Some c" and l: "live w"
  shows "\<exists>resp w'. Dispatch e conn request r w = Some (resp, w') \<and> kept conn w w' \<and> env_seq resp = env_seq r"
  using HandleRegister_kept [of e request r w conn] HandleLogin_kept [OF c, of e request r]
    HandleAddFriend_kept [OF c l, of e request r] HandleHandleFriend_kept [OF c l, of e request r]
    HandleGetFriendList_kept [OF c, of e request r] HandleP2PMsg_kept [OF c l, of e request r]
    HandleSyncMessages_kept [OF c, of e request r]
  by (cases "env_cmd request") (simp_all add: Dispatch_def HandleUnknown_def quiet_kept)


text \<open>The same of every request that returns, without a condition on the registrations.\<close>

lemma quiet_after_db:
  "quiet (w\<lparr>w_db := s\<rparr>) w' \<Longrightarrow> quiet w w'" "quiet (w\<lparr>w_writer := x\<rparr>) w' \<Longrightarrow> quiet w w'"
  by (rule quiet_trans [OF quiet_db(1) [of w s]], assumption) (rule quiet_trans [OF quiet_db(2) [of w x]])

lemma AddFriend_quiet: "AddFriend e u req w = Some (resp, w') \<Longrightarrow> quiet w w'"
  by (auto simp: AddFriend_def with_db_eq Let_def split_def push_friend_req_def bind_eq_Some_conv
      split: AddFriendResult.splits dest!: send_envelope_quiet dest: quiet_after_db)

lemma HandleFriend_quiet: "HandleFriend e u req w = Some (resp, w') \<Longrightarrow> quiet w w'"
  by (auto simp: HandleFriend_def with_db_eq Let_def split_def push_friend_status_def bind_eq_Some_conv
      split: option.splits dest!: send_envelope_quiet dest: quiet_after_db)

lemma send_p2p_quiet: "send_p2p_message e u req w = Some (resp, w') \<Longrightarrow> quiet w w'"
  by (auto simp: send_p2p_message_def Let_def push_p2p_message_def bind_eq_Some_conv
      split: if_splits dest!: send_envelope_quiet dest: quiet_after_db)

lemma push_pending_quiet: "push_pending e u reqs w = Some w' \<Longrightarrow> quiet w w'"
proof (induction e u reqs w rule: push_pending.induct)
  case (2 e u req reqs w)
  then show ?case
    by (auto simp: bind_eq_Some_conv split: option.splits dest: push_to_user_quiet intro: quiet_trans)
qed simp

lemma pending_task_quiet: "pending_task e u w = Some w' \<Longrightarrow> quiet w w'"
  by (auto simp: pending_task_def GetPendingRequests_def with_db_eq dest!: push_pending_quiet dest: quiet_after_db)

lemma Dispatch_keeps:
  assumes c: "deref conn w = Some c" and run: "Dispatch e conn request r w = Some (resp, w')"
  shows "kept conn w w'"
proof -
  have "quiet w w'" if "HandleAddFriend e conn request r w = Some (resp, w') \<or>
      HandleHandleFriend e conn request r w = Some (resp, w') \<or> HandleP2PMsg e conn request r w = Some (resp, w')"
    using that
    by (cases "env_payload request")
      (auto simp: HandleAddFriend_def HandleHandleFriend_def HandleP2PMsg_def auth_simps [OF c] bind_eq_Some_conv
        split: if_splits dest: AddFriend_quiet HandleFriend_quiet send_p2p_quiet)
  then show ?thesis
    using run HandleRegister_kept [of e request r w conn] HandleLogin_kept [OF c, of e request r]
      HandleGetFriendList_kept [OF c, of e request r] HandleSyncMessages_kept [OF c, of e request r]
    by (cases "env_cmd request") (auto simp: Dispatch_def HandleUnknown_def quiet_kept)
qed

section \<open>One response per request\<close>

lemma kept_deref:
  "kept conn w w' \<Longrightarrow> deref p w = Some c \<Longrightarrow> \<exists>c'. deref p w' = Some c' \<and> conn_kept c c'"
  by (auto simp: kept_def option_rel_Some1 dest!: spec [of _ p])

lemma conn_kept_buffs: "conn_kept c c' \<Longrightarrow> c_read_buff c' = c_read_buff c \<and> c_write_buff c' = c_write_buff c"
  by (auto simp: conn_kept_def)

text \<open>The kind of answer to each kind of request, and what makes an envelope an answer to a request.\<close>

definition response_cmd :: "CommandType \<Rightarrow> CommandType" where
  "response_cmd cmd =
     (case cmd of
        CMD_REGISTER_REQ \<Rightarrow> CMD_REGISTER_RES
      | CMD_LOGIN_REQ \<Rightarrow> CMD_LOGIN_RES
      | CMD_ADD_FRIEND_REQ \<Rightarrow> CMD_ADD_FRIEND_RES
      | CMD_HANDLE_FRIEND_REQ \<Rightarrow> CMD_HANDLE_FRIEND_RES
      | CMD_GET_FRIEND_LIST_REQ \<Rightarrow> CMD_GET_FRIEND_LIST_RES
      | CMD_P2P_MSG_REQ \<Rightarrow> CMD_MSG_ACK
      | CMD_SYNC_MSGS_REQ \<Rightarrow> CMD_SYNC_MSGS_RES
      | _ \<Rightarrow> CMD_UNKNOWN)"

definition answers :: "Envelope \<Rightarrow> Envelope \<Rightarrow> bool" where
  "answers request response \<longleftrightarrow> env_seq response = env_seq request \<and>
     env_cmd response = response_cmd (env_cmd request)"

lemma HandleRegister_cmd: "HandleRegister e request r w = Some (resp, w') \<Longrightarrow> env_cmd resp = CMD_REGISTER_RES"
  by (cases "env_payload request") (auto simp: HandleRegister_def split_def Let_def)

lemma HandleLogin_cmd: "HandleLogin e conn request r w = Some (resp, w') \<Longrightarrow> env_cmd resp = CMD_LOGIN_RES"
  by (cases "env_payload request") (auto simp: HandleLogin_def Let_def bind_eq_Some_conv simp del: world.simps)

lemma RequireAuth_cmd:
  assumes "(do { (denied, r1) \<leftarrow> RequireAuth conn r cmd w; if denied then Some (r1, w) else k r1 }) = Some (resp, w')"
    and "\<And>r1. k r1 = Some (resp, w') \<Longrightarrow> env_cmd resp = cmd"
  shows "env_cmd resp = cmd"
  using assms by (auto simp: RequireAuth_def bind_eq_Some_conv split: if_splits)

lemma HandleAddFriend_cmd: "HandleAddFriend e conn request r w = Some (resp, w') \<Longrightarrow> env_cmd resp = CMD_ADD_FRIEND_RES"
  unfolding HandleAddFriend_def
  by (erule RequireAuth_cmd, cases "env_payload request") (auto simp: bind_eq_Some_conv split_def Let_def)

lemma HandleHandleFriend_cmd: "HandleHandleFriend e conn request r w = Some (resp, w') \<Longrightarrow> env_cmd resp = CMD_HANDLE_FRIEND_RES"
  unfolding HandleHandleFriend_def
  by (erule RequireAuth_cmd, cases "env_payload request") (auto simp: bind_eq_Some_conv split_def Let_def)

lemma HandleGetFriendList_cmd: "HandleGetFriendList e conn request r w = Some (resp, w') \<Longrightarrow> env_cmd resp = CMD_GET_FRIEND_LIST_RES"
  unfolding HandleGetFriendList_def
  by (erule RequireAuth_cmd, cases "env_payload request") (auto simp: bind_eq_Some_conv split_def Let_def)

lemma HandleP2PMsg_cmd: "HandleP2PMsg e conn request r w = Some (resp, w') \<Longrightarrow> env_cmd resp = CMD_MSG_ACK"
  unfolding HandleP2PMsg_def
  by (erule RequireAuth_cmd, cases "env_payload request") (auto simp: bind_eq_Some_conv split_def Let_def)

lemma HandleSyncMessages_cmd: "HandleSyncMessages e conn request r w = Some (resp, w') \<Longrightarrow> env_cmd resp = CMD_SYNC_MSGS_RES"
  unfolding HandleSyncMessages_def
  by (erule RequireAuth_cmd, cases "env_payload request") (auto simp: bind_eq_Some_conv split_def Let_def)

lemmas handler_cmds = HandleRegister_cmd HandleLogin_cmd HandleAddFriend_cmd HandleHandleFriend_cmd
  HandleGetFriendList_cmd HandleP2PMsg_cmd HandleSyncMessages_cmd

lemma Dispatch_cmd:
  "Dispatch e conn request (new_response e request) w = Some (resp, w') \<Longrightarrow>
   env_cmd resp = response_cmd (env_cmd request)"
  by (cases "env_cmd request")
    (auto simp: Dispatch_def response_cmd_def HandleUnknown_def new_response_def Envelope_default_def dest: handler_cmds)

text \<open>\<open>conn_served c c'\<close>: of a connection only buffers, queue, event mask and user change.\<close>

definition conn_served :: "tcp_conn \<Rightarrow> tcp_conn \<Rightarrow> bool" where
  "conn_served c c' \<longleftrightarrow> c_fd c' = c_fd c \<and> c_is_close c' = c_is_close c \<and> c_handler c' = c_handler c \<and>
     c_type c' = c_type c \<and> c_determined c' = c_determined c \<and> (\<exists>q. c_outgoing c' = c_outgoing c @ q) \<and>
     buf_ok (c_read_buff c') \<and> buf_ok (c_write_buff c')"

lemma conn_kept_served:
  "conn_kept c c' \<Longrightarrow> buf_ok (c_read_buff c) \<Longrightarrow> buf_ok b \<Longrightarrow> conn_served c (c'\<lparr>c_write_buff := b\<rparr>)"
  by (auto simp: conn_kept_def conn_served_def)

definition response_bytes :: "('db, 'sc) server_env \<Rightarrow> Envelope \<Rightarrow> bytes" where
  "response_bytes e response = (case e_serialize e response of None \<Rightarrow> [] | Some s \<Rightarrow> frame s)"

lemma ProtobufHandler_answers:
  assumes l: "live w" and c: "deref conn w = Some c"
    and rb: "buf_ok (c_read_buff c)" and wb: "buf_ok (c_write_buff c)"
    and d: "decode_bytes (e_parse e) (contents (c_read_buff c)) = (msg, rest)"
  shows "\<exists>w' c'. ProtobufHandler_Process e conn w = Some (msg \<noteq> None, w') \<and> deref conn w' = Some c' \<and>
     contents (c_read_buff c') = rest \<and>
     (case msg of
        None \<Rightarrow> contents (c_write_buff c') = contents (c_write_buff c)
      | Some request \<Rightarrow> (\<exists>response. answers request response \<and>
          contents (c_write_buff c') = contents (c_write_buff c) @ response_bytes e response)) \<and>
     conn_served c c' \<and> w_open w' = w_open w \<and> dom (w_interest w') = dom (w_interest w) \<and>
     (msg = None \<longrightarrow> c_outgoing c' = c_outgoing c)"
proof -
  obtain b where b: "TryDecodeMessage (e_parse e) (c_read_buff c) = Some (msg, b)" "buf_ok b" "contents b = rest"
    by (rule TryDecode_refines [OF rb, of "e_parse e"]) (simp add: d)
  let ?c = "c\<lparr>c_read_buff := b\<rparr>"
  let ?w = "put_conn conn ?c w"
  show ?thesis
  proof (cases msg)
    case None
    with c b wb show ?thesis
      by (auto simp: ProtobufHandler_Process_def Let_def conn_served_def) (simp_all add: put_conn_def)
  next
    case (Some request)
    have "live ?w" by (rule live_put [OF l c]) simp_all
    from Dispatch_kept [OF _ this, of conn ?c e request "new_response e request"] obtain resp w2 where
      d: "Dispatch e conn request (new_response e request) ?w = Some (resp, w2)" "kept conn ?w w2"
        "env_seq resp = env_seq request"
      by (auto simp: new_response_def)
    obtain c2 where c2: "deref conn w2 = Some c2" "conn_kept ?c c2"
      using kept_deref [OF d(2), of conn ?c] by auto
    note bu = conn_kept_buffs [OF c2(2)]
    obtain wb' where wb': "EncodeMessage (e_serialize e) resp (c_write_buff c2) = Some wb'" "buf_ok wb'"
      "contents wb' = contents (c_write_buff c) @ response_bytes e resp"
      using EncodeMessage_Some [OF wb, of "e_serialize e" resp] bu by (auto simp: response_bytes_def)
    let ?w' = "put_conn conn (c2\<lparr>c_write_buff := wb'\<rparr>) w2"
    have run: "ProtobufHandler_Process e conn w = Some (True, ?w')"
      using c b(1) Some d(1) c2(1) wb'(1) by (simp add: ProtobufHandler_Process_def Let_def)
    have "conn_served ?c (c2\<lparr>c_write_buff := wb'\<rparr>)" by (rule conn_kept_served [OF c2(2) _ wb'(2)]) (simp add: b)
    then have "conn_served c (c2\<lparr>c_write_buff := wb'\<rparr>)" by (simp add: conn_served_def)
    moreover have "w_open ?w' = w_open w" "dom (w_interest ?w') = dom (w_interest w)"
      using d(2) by (simp_all add: kept_def put_conn_def)
    moreover have "answers request resp" using d(3) Dispatch_cmd [OF d(1)] by (simp add: answers_def)
    ultimately show ?thesis using run Some b(3) bu wb'(3)
      by (intro exI [of _ ?w'] exI [of _ "c2\<lparr>c_write_buff := wb'\<rparr>"]) auto
  qed
qed

text \<open>
  Property C6. The chat handler never fails and answers each request once: on a live state it
  consumes from the input exactly what the decoder takes, and appends to the output exactly one
  frame, with the sequence number of the request and the command that answers it, when there was a
  request (and nothing when the response cannot be serialised), or nothing when there was none.
\<close>

theorem one_response_per_request:
  assumes l: "live w" and c: "deref conn w = Some c"
    and rb: "buf_ok (c_read_buff c)" and wb: "buf_ok (c_write_buff c)"
  shows "\<exists>ok w' c'. ProtobufHandler_Process e conn w = Some (ok, w') \<and> deref conn w' = Some c' \<and>
     contents (c_read_buff c') = snd (decode_bytes (e_parse e) (contents (c_read_buff c))) \<and>
     (case fst (decode_bytes (e_parse e) (contents (c_read_buff c))) of
        None \<Rightarrow> \<not> ok \<and> contents (c_write_buff c') = contents (c_write_buff c)
      | Some request \<Rightarrow> ok \<and> (\<exists>response. answers request response \<and>
          contents (c_write_buff c') = contents (c_write_buff c) @
            (case e_serialize e response of None \<Rightarrow> [] | Some s \<Rightarrow> frame s)))"
  using ProtobufHandler_answers [OF assms, of e _ _, OF surjective_pairing]
  unfolding response_bytes_def [symmetric]
  by (cases "fst (decode_bytes (e_parse e) (contents (c_read_buff c)))") auto

section \<open>Authentication\<close>

definition protected_response :: "CommandType \<Rightarrow> CommandType option" where
  "protected_response cmd =
     (case cmd of
        CMD_ADD_FRIEND_REQ \<Rightarrow> Some CMD_ADD_FRIEND_RES
      | CMD_HANDLE_FRIEND_REQ \<Rightarrow> Some CMD_HANDLE_FRIEND_RES
      | CMD_GET_FRIEND_LIST_REQ \<Rightarrow> Some CMD_GET_FRIEND_LIST_RES
      | CMD_P2P_MSG_REQ \<Rightarrow> Some CMD_MSG_ACK
      | CMD_SYNC_MSGS_REQ \<Rightarrow> Some CMD_SYNC_MSGS_RES
      | _ \<Rightarrow> None)"

lemma denied:
  assumes c: "deref conn w = Some c" and "\<not> is_logged_in c" and "protected_response (env_cmd request) = Some cmd"
  shows "Dispatch e conn request r w = Some (r\<lparr>env_cmd := cmd\<rparr>, w)"
  using assms(2,3)
  by (auto simp: protected_response_def Dispatch_def HandleAddFriend_def HandleHandleFriend_def
      HandleGetFriendList_def HandleP2PMsg_def HandleSyncMessages_def auth_simps [OF c]
      split: CommandType.splits)


text \<open>The database at the point where a login looks up the account, after the name has been found
  and the password compared; the id that this lookup gives for the account \<open>row\<close>: 0 when it fails.\<close>

definition login_db :: "('db, 'sc) server_env \<Rightarrow> LoginReq \<Rightarrow> ('db, 'sc) world \<Rightarrow> 'db" where
  "login_db e req w = snd (VerifyUser (e_mysql e) (lq_username req) (lq_password req)
     (snd (QueryExist (e_mysql e) (lq_username req) (w_db w))))"

definition account_id :: "('db, 'sc) server_env \<Rightarrow> LoginReq \<Rightarrow> ('db, 'sc) world \<Rightarrow> user_row \<Rightarrow> u64" where
  "account_id e req w row =
     (if db_fails (e_mysql e) (SelectUserByName (lq_username req)) (login_db e req w) then 0 else u_user_id row)"

text \<open>A connection becomes that of a user.\<close>

definition bound :: "nat \<Rightarrow> tcp_conn \<Rightarrow> u64 \<Rightarrow> ('db, 'sc) world \<Rightarrow> ('db, 'sc) world" where
  "bound conn c u w = w\<lparr>w_objs := (w_objs w)(conn \<mapsto> c\<lparr>c_user_id := u\<rparr>), w_online := (w_online w)(u \<mapsto> conn)\<rparr>"

lemma bound_sel [simp]:
  "w_db (bound conn c u w) = w_db w" "w_online (bound conn c u w) = (w_online w)(u \<mapsto> conn)"
  "deref p (bound conn c u w) = (if p = conn then Some (c\<lparr>c_user_id := u\<rparr>) else deref p w)"
  by (simp_all add: bound_def deref_def)

lemma user_login_cases:
  assumes m: "mysql_ok (e_mysql e) view coll" and idle: "saved (view (w_db w)) = None"
    and login: "user_login e conn req w = Some (resp, w')" and c: "deref conn w = Some c"
  shows "view (w_db w') = view (w_db w) \<and>
    (if lr_success resp
     then (\<exists>u row row'. lr_user_info resp = Some u \<and>
       row \<in> named coll (lq_username req) (cur (view (w_db w))) \<and> u_password row = lq_password req \<and>
       row' \<in> named coll (lq_username req) (cur (view (w_db w))) \<and> usr_user_id u = account_id e req w row' \<and>
       w' = bound conn c (usr_user_id u) (w\<lparr>w_db := w_db w'\<rparr>))
     else w' = w\<lparr>w_db := w_db w'\<rparr>)"
proof -
  let ?n = "lq_username req" and ?p = "lq_password req" and ?m = "e_mysql e"
  obtain known s1 where 1: "QueryExist ?m ?n (w_db w) = (known, s1)" by fastforce
  obtain valid s2 where 2: "VerifyUser ?m ?n ?p s1 = (valid, s2)" by fastforce
  obtain user s3 where 3: "FindByUsername ?m ?n s2 = (user, s3)" by fastforce
  have v1: "view s1 = view (w_db w)" by (rule QueryExist_ok(1) [OF m idle 1])
  have idle1: "saved (view s1) = None" using v1 idle by simp
  have v2: "view s2 = view (w_db w)" using VerifyUser_ok(1) [OF m idle1 2] v1 by simp
  have idle2: "saved (view s2) = None" using v2 idle by simp
  consider (empty) "?n = [] \<or> ?p = []" | (unknown) "?n \<noteq> []" "?p \<noteq> []" "\<not> known"
    | (wrong) "?n \<noteq> []" "?p \<noteq> []" "known" "\<not> valid" | (good) "?n \<noteq> []" "?p \<noteq> []" known valid
    by blast
  then show ?thesis
  proof cases
    case empty
    with login show ?thesis by (auto simp: user_login_def message_defaults)
  next
    case unknown
    with login 1 v1 show ?thesis by (auto simp: user_login_def with_db_def message_defaults)
  next
    case wrong
    with login 1 2 v2 show ?thesis by (auto simp: user_login_def with_db_def message_defaults)
  next
    case good
    obtain row where row: "row \<in> named coll ?n (cur (view (w_db w)))" "u_password row = ?p"
      using VerifyUser_ok(2) [OF m idle1 2] good v1 by auto
    then have "named coll ?n (cur (view s2)) \<noteq> {}" using v2 by auto
    note u = FindByUsername_ok [OF m idle2 3 this]
    have "login_db e req w = s2" by (simp add: login_db_def 1 2)
    with u(2) v2 row(1) obtain row' where row': "row' \<in> named coll ?n (cur (view (w_db w)))"
      "usr_user_id user = account_id e req w row'"
      by (auto simp: account_id_def User_default_def split: if_splits)
    have "lr_success resp" "lr_user_info resp = Some user" "w' = bound conn c (usr_user_id user) (w\<lparr>w_db := s3\<rparr>)"
      using good login 1 2 3 c
      by (auto simp: user_login_def with_db_def Let_def set_user_id_def add_client_def put_conn_def bound_def)
    with row row' u(1) v2 show ?thesis by auto
  qed
qed

lemma user_login_refused:
  assumes m: "mysql_ok (e_mysql e) view coll" and idle: "saved (view (w_db w)) = None"
    and login: "user_login e conn req w = Some (resp, w')" "\<not> lr_success resp"
    and row: "named coll (lq_username req) (cur (view (w_db w))) = {row}" "u_password row = lq_password req"
      "lq_username req \<noteq> []" "lq_password req \<noteq> []"
  shows "db_fails (e_mysql e) (CountUsersByName (lq_username req)) (w_db w) \<or>
    db_fails (e_mysql e) (SelectPassword (lq_username req)) (snd (QueryExist (e_mysql e) (lq_username req) (w_db w)))"
proof -
  let ?n = "lq_username req" and ?p = "lq_password req" and ?m = "e_mysql e"
  obtain known s1 where 1: "QueryExist ?m ?n (w_db w) = (known, s1)" by fastforce
  obtain valid s2 where 2: "VerifyUser ?m ?n ?p s1 = (valid, s2)" by fastforce
  have v1: "view s1 = view (w_db w)" by (rule QueryExist_ok(1) [OF m idle 1])
  have idle1: "saved (view s1) = None" using v1 idle by simp
  have "\<not> known \<or> \<not> valid"
    using login row(3,4) 1 2 by (auto simp: user_login_def with_db_def Let_def message_defaults bind_eq_Some_conv split: prod.splits)
  with QueryExist_ok(3) [OF m idle 1] VerifyUser_ok(3) [OF m idle1 2] row(1,2) v1 1 show ?thesis by auto
qed

lemma user_register_cases:
  assumes m: "mysql_ok (e_mysql e) view coll" and idle: "saved (view (w_db w)) = None"
    and reg: "user_register e req w = (resp, w')"
  shows "w' = w\<lparr>w_db := w_db w'\<rparr>"
    and "\<not> rr_success resp \<and> view (w_db w') = view (w_db w) \<or>
      rq_username req \<noteq> [] \<and> rq_password req \<noteq> [] \<and>
      account_added coll (e_rand_id e) (rq_username req) (rq_password req) (view (w_db w)) (view (w_db w'))"
    and "rr_success resp \<Longrightarrow> rr_user_id resp = e_rand_id e"
proof -
  let ?n = "rq_username req" and ?p = "rq_password req"
  obtain used s1 where 1: "QueryExist (e_mysql e) ?n (w_db w) = (used, s1)" by fastforce
  obtain ok s2 where 2: "UserDao_Insert (e_mysql e) (e_rand_id e) ?n ?p s1 = (ok, s2)" by fastforce
  have v1: "view s1 = view (w_db w)" by (rule QueryExist_ok(1) [OF m idle 1])
  have idle1: "saved (view s1) = None" using v1 idle by simp
  note v2 = UserDao_Insert_ok [OF m idle1 2, unfolded v1]
  consider (empty) "?n = [] \<or> ?p = []" | (used) "?n \<noteq> []" "?p \<noteq> []" used | (insert) "?n \<noteq> []" "?p \<noteq> []" "\<not> used"
    by blast
  then have "w' = w\<lparr>w_db := w_db w'\<rparr> \<and> (\<not> rr_success resp \<and> view (w_db w') = view (w_db w) \<or> ?n \<noteq> [] \<and> ?p \<noteq> [] \<and>
      account_added coll (e_rand_id e) ?n ?p (view (w_db w)) (view (w_db w'))) \<and>
      (rr_success resp \<longrightarrow> rr_user_id resp = e_rand_id e)"
  proof cases
    case empty
    with reg show ?thesis by (auto simp: user_register_def message_defaults)
  next
    case used
    with reg 1 v1 show ?thesis by (auto simp: user_register_def with_db_def message_defaults)
  next
    case insert
    with reg 1 2 have r: "rr_success resp = ok" "rr_success resp \<longrightarrow> rr_user_id resp = e_rand_id e" "w' = w\<lparr>w_db := s2\<rparr>"
      by (auto simp: user_register_def with_db_def Let_def message_defaults split: if_splits)
    with v2 insert show ?thesis by auto
  qed
  then show "w' = w\<lparr>w_db := w_db w'\<rparr>"
    "\<not> rr_success resp \<and> view (w_db w') = view (w_db w) \<or> ?n \<noteq> [] \<and> ?p \<noteq> [] \<and>
      account_added coll (e_rand_id e) ?n ?p (view (w_db w)) (view (w_db w'))"
    "rr_success resp \<Longrightarrow> rr_user_id resp = e_rand_id e" by blast+
qed

lemma Dispatch_open:
  assumes "protected_response (env_cmd request) = None" and "Dispatch e conn request r w = Some (resp, w')"
  shows "(env_cmd request = CMD_LOGIN_REQ \<and> HandleLogin e conn request r w = Some (resp, w')) \<or>
    (env_cmd request = CMD_REGISTER_REQ \<and> HandleRegister e request r w = Some (resp, w')) \<or> w' = w"
  using assms by (auto simp: protected_response_def Dispatch_def HandleUnknown_def split: CommandType.splits)

lemma HandleRegister_effect:
  assumes m: "mysql_ok (e_mysql e) view coll" and idle: "saved (view (w_db w)) = None"
    and run: "HandleRegister e request r w = Some (resp, w')"
  shows "w' = w \<or> (\<exists>req. env_payload request = register_req req \<and> w' = w\<lparr>w_db := w_db w'\<rparr> \<and>
    (view (w_db w') = view (w_db w) \<or>
     account_added coll (e_rand_id e) (rq_username req) (rq_password req) (view (w_db w)) (view (w_db w'))))"
proof (cases "\<exists>req. env_payload request = register_req req")
  case True
  then obtain req rresp where "env_payload request = register_req req" "user_register e req w = (rresp, w')"
    using run by (auto simp: HandleRegister_def Let_def split: prod.splits)
  with user_register_cases(1,2) [OF m idle this(2)] show ?thesis by blast
next
  case False
  with run have "w' = w" by (auto simp: HandleRegister_def split: payload.splits)
  then show ?thesis by blast
qed

lemma HandleLogin_effect:
  assumes m: "mysql_ok (e_mysql e) view coll" and idle: "saved (view (w_db w)) = None"
    and c: "deref conn w = Some c" and run: "HandleLogin e conn request r w = Some (resp, w')"
  shows "w' = w \<or> (\<exists>req. env_payload request = login_req req \<and> view (w_db w') = view (w_db w) \<and>
    (w' = w\<lparr>w_db := w_db w'\<rparr> \<or>
     (\<exists>row\<in>named coll (lq_username req) (cur (view (w_db w))). u_password row = lq_password req) \<and>
     (\<exists>u. w' = bound conn c u (w\<lparr>w_db := w_db w', w_tasks := w_tasks w @ [PushPendingTask u]\<rparr>))))"
proof (cases "\<exists>req. env_payload request = login_req req")
  case True
  then obtain req where req: "env_payload request = login_req req" ..
  obtain lresp w1 where l: "user_login e conn req w = Some (lresp, w1)" and w': "w' = (if lr_success lresp
      then w1\<lparr>w_tasks := w_tasks w1 @ [PushPendingTask (case lr_user_info lresp of Some u \<Rightarrow> usr_user_id u | None \<Rightarrow> 0)]\<rparr>
      else w1)"
    using run req by (auto simp: HandleLogin_def Let_def bind_eq_Some_conv)
  note L = user_login_cases [OF m idle l c]
  show ?thesis
  proof (cases "lr_success lresp")
    case True
    with L obtain u row where u: "lr_user_info lresp = Some u"
      "row \<in> named coll (lq_username req) (cur (view (w_db w)))" "u_password row = lq_password req"
      "w1 = bound conn c (usr_user_id u) (w\<lparr>w_db := w_db w1\<rparr>)" by auto
    have w'1: "w' = w1\<lparr>w_tasks := w_tasks w1 @ [PushPendingTask (usr_user_id u)]\<rparr>" using w' True u(1) by simp
    have "w' = bound conn c (usr_user_id u) (w\<lparr>w_db := w_db w', w_tasks := w_tasks w @ [PushPendingTask (usr_user_id u)]\<rparr>)"
      unfolding w'1 by (subst u(4), subst (2) u(4)) (simp add: bound_def)
    moreover have "view (w_db w') = view (w_db w)" using L w'1 by simp
    ultimately show ?thesis using req u(2,3) by blast
  next
    case False
    with L w' req show ?thesis by auto
  qed
next
  case False
  with run have "w' = w" by (auto simp: HandleLogin_def split: payload.splits)
  then show ?thesis by blast
qed

text \<open>
  Property C1. A connection that has not logged in can do nothing but register and log in. The five
  protected requests leave the whole state as it is and get a response without payload. A request
  that changes anything is one of two. A registration changes nothing but the database, and there
  the tables stay or the one account with the given name and password is added, under a name and an
  id that were free (the row may be there although the response reports a database error). A login
  leaves the tables as they are; either nothing else changes, or its name and password match a stored
  account, the connection becomes that of a user and is registered for pushes, and the one task that
  pushes the pending friend requests of that user is added: sockets, epoll masks, the map and the
  count of connections, all other connections, registrations and tasks and the queue of messages to
  store stay. The database connection has no transaction open before.
\<close>

theorem unauthenticated_inert:
  assumes m: "mysql_ok (e_mysql e) view coll" and idle: "saved (view (w_db w)) = None"
    and c: "deref conn w = Some c" and out: "\<not> is_logged_in c"
    and run: "Dispatch e conn request r w = Some (resp, w')"
  shows "(protected_response (env_cmd request) \<noteq> None \<longrightarrow> w' = w \<and> env_payload resp = env_payload r) \<and>
    (w' = w \<or>
     (\<exists>req. env_cmd request = CMD_REGISTER_REQ \<and> env_payload request = register_req req \<and>
        w' = w\<lparr>w_db := w_db w'\<rparr> \<and>
        (view (w_db w') = view (w_db w) \<or>
         account_added coll (e_rand_id e) (rq_username req) (rq_password req) (view (w_db w)) (view (w_db w')))) \<or>
     (\<exists>req. env_cmd request = CMD_LOGIN_REQ \<and> env_payload request = login_req req \<and>
        view (w_db w') = view (w_db w) \<and>
        (w' = w\<lparr>w_db := w_db w'\<rparr> \<or>
         (\<exists>row\<in>named coll (lq_username req) (cur (view (w_db w))). u_password row = lq_password req) \<and>
         (\<exists>u. w' = w\<lparr>w_db := w_db w', w_objs := (w_objs w)(conn \<mapsto> c\<lparr>c_user_id := u\<rparr>),
             w_online := (w_online w)(u \<mapsto> conn), w_tasks := w_tasks w @ [PushPendingTask u]\<rparr>))))"
proof (cases "protected_response (env_cmd request)")
  case (Some cmd)
  with denied [OF c out Some, of e r] run show ?thesis by simp
next
  case None
  from Dispatch_open [OF None run] consider
    (login) "env_cmd request = CMD_LOGIN_REQ" "HandleLogin e conn request r w = Some (resp, w')"
    | (register) "env_cmd request = CMD_REGISTER_REQ" "HandleRegister e request r w = Some (resp, w')" | (other) "w' = w" by blast
  then show ?thesis
  proof cases
    case login
    have "bound conn c u (w\<lparr>w_db := s, w_tasks := w_tasks w @ [PushPendingTask u]\<rparr>) =
        w\<lparr>w_db := s, w_objs := (w_objs w)(conn \<mapsto> c\<lparr>c_user_id := u\<rparr>), w_online := (w_online w)(u \<mapsto> conn),
          w_tasks := w_tasks w @ [PushPendingTask u]\<rparr>" for u s by (simp add: bound_def)
    with HandleLogin_effect [OF m idle c login(2)] login(1) None show ?thesis by metis
  next
    case register
    with HandleRegister_effect [OF m idle register(2)] None show ?thesis by blast
  next
    case other
    with None show ?thesis by simp
  qed
qed

text \<open>The schema makes names unique up to the collation.\<close>

definition unique_names :: "(string \<Rightarrow> string) \<Rightarrow> tables \<Rightarrow> bool" where
  "unique_names coll t \<longleftrightarrow>
     (\<forall>a\<in>set (im_user t). \<forall>b\<in>set (im_user t). coll (u_username a) = coll (u_username b) \<longrightarrow> a = b)"

lemma unique_named: "unique_names coll t \<Longrightarrow> a \<in> named coll n t \<Longrightarrow> b \<in> named coll n t \<Longrightarrow> a = b"
  by (auto simp: unique_names_def named_def)

text \<open>
  Property C8. A successful login binds the connection to the account whose name and password it
  gave: the connection gets that account's id and is registered for pushes under it, the response
  names it, and nothing else changes, in the tables or in the state of the server. The id is 0
  instead exactly when the statement that looks the account up, after the password was accepted,
  cannot be run. A refused login changes nothing of the server's state. The names of the accounts
  are unique and no transaction is open.
\<close>

theorem login_binds_account:
  assumes m: "mysql_ok (e_mysql e) view coll" and idle: "saved (view (w_db w)) = None"
    and c: "deref conn w = Some c" and uniq: "unique_names coll (cur (view (w_db w)))"
    and login: "user_login e conn req w = Some (resp, w')"
  shows "view (w_db w') = view (w_db w) \<and>
    (if lr_success resp
     then (\<exists>row\<in>set (im_user (cur (view (w_db w)))). \<exists>u.
       coll (u_username row) = coll (lq_username req) \<and> u_password row = lq_password req \<and>
       u = (if db_fails (e_mysql e) (SelectUserByName (lq_username req)) (login_db e req w) then 0 else u_user_id row) \<and>
       map_option usr_user_id (lr_user_info resp) = Some u \<and>
       w' = w\<lparr>w_db := w_db w', w_objs := (w_objs w)(conn \<mapsto> c\<lparr>c_user_id := u\<rparr>), w_online := (w_online w)(u \<mapsto> conn)\<rparr>)
     else w' = w\<lparr>w_db := w_db w'\<rparr>)"
proof (cases "lr_success resp")
  case True
  with user_login_cases [OF m idle login c] obtain u row row' where u: "lr_user_info resp = Some u"
    "row \<in> named coll (lq_username req) (cur (view (w_db w)))" "u_password row = lq_password req"
    "row' \<in> named coll (lq_username req) (cur (view (w_db w)))" "usr_user_id u = account_id e req w row'"
    "w' = bound conn c (usr_user_id u) (w\<lparr>w_db := w_db w'\<rparr>)" "view (w_db w') = view (w_db w)" by auto
  have "row' = row" by (rule unique_named [OF uniq u(4,2)])
  with u(5) have id: "usr_user_id u = (if db_fails (e_mysql e) (SelectUserByName (lq_username req)) (login_db e req w)
      then 0 else u_user_id row)" by (simp add: account_id_def)
  have w': "w' = w\<lparr>w_db := w_db w', w_objs := (w_objs w)(conn \<mapsto> c\<lparr>c_user_id := usr_user_id u\<rparr>),
      w_online := (w_online w)(usr_user_id u \<mapsto> conn)\<rparr>"
    by (subst u(6)) (simp add: bound_def)
  from u(2) have "row \<in> set (im_user (cur (view (w_db w))))" "coll (u_username row) = coll (lq_username req)"
    by (auto simp: named_def)
  with True u(1,3,7) id w' show ?thesis unfolding if_P [OF True]
    by (intro conjI bexI [of _ row] exI [of _ "usr_user_id u"]) simp_all
next
  case False
  with user_login_cases [OF m idle login c] show ?thesis by simp
qed

text \<open>
  Property C33. A name that is taken, up to the collation, cannot be registered. After a successful
  registration, a login with the same name and password on the state that registration left is
  refused only if the statement that looks for the name or the one that reads the password cannot be
  run; and when it succeeds, the connection gets the id that registration returned, or 0 when the
  lookup of the account cannot be run. No transaction is open.
\<close>

theorem register_then_login:
  assumes m: "mysql_ok (e_mysql e) view coll" and idle: "saved (view (w_db w)) = None"
    and c: "deref conn w = Some c" and reg: "user_register e rreq w = (rresp, w1)"
    and lreq: "lreq = \<lparr>lq_username = rq_username rreq, lq_password = rq_password rreq\<rparr>"
    and login: "user_login e conn lreq w1 = Some (lresp, w2)"
  shows "(named coll (rq_username rreq) (cur (view (w_db w))) \<noteq> {} \<longrightarrow> \<not> rr_success rresp) \<and>
    (rr_success rresp \<longrightarrow>
      (if lr_success lresp
       then deref conn w2 = Some (c\<lparr>c_user_id :=
         (if db_fails (e_mysql e) (SelectUserByName (rq_username rreq)) (login_db e lreq w1) then 0 else rr_user_id rresp)\<rparr>)
       else db_fails (e_mysql e) (CountUsersByName (rq_username rreq)) (w_db w1) \<or>
         db_fails (e_mysql e) (SelectPassword (rq_username rreq))
           (snd (QueryExist (e_mysql e) (rq_username rreq) (w_db w1)))))"
proof (cases "rr_success rresp")
  case True
  note R = user_register_cases [OF m idle reg]
  let ?n = "rq_username rreq" and ?p = "rq_password rreq"
  have ne: "?n \<noteq> []" "?p \<noteq> []" and added: "account_added coll (e_rand_id e) ?n ?p (view (w_db w)) (view (w_db w1))"
    using R(2) True by blast+
  from added obtain i where free: "named coll ?n (cur (view (w_db w))) = {}"
    and v1: "view (w_db w1) = (view (w_db w))\<lparr>cur := (cur (view (w_db w)))\<lparr>im_user := im_user (cur (view (w_db w))) @
        [\<lparr>u_id = i, u_user_id = rr_user_id rresp, u_username = ?n, u_password = ?p\<rparr>]\<rparr>\<rparr>"
    using R(3) [OF True] unfolding account_added_def by auto
  let ?row = "\<lparr>u_id = i, u_user_id = rr_user_id rresp, u_username = ?n, u_password = ?p\<rparr>"
  have n: "named coll ?n (cur (view (w_db w1))) = {?row}" using free unfolding v1 by (auto simp: named_def)
  have idle1: "saved (view (w_db w1)) = None" using idle unfolding v1 by simp
  have c1: "deref conn w1 = Some c" by (subst R(1)) (use c in simp)
  show ?thesis
  proof (cases "lr_success lresp")
    case ok: True
    from user_login_cases [OF m idle1 login c1, unfolded if_P [OF ok]] obtain u :: User and row' where
      row': "row' \<in> named coll (lq_username lreq) (cur (view (w_db w1)))" "usr_user_id u = account_id e lreq w1 row'"
        "w2 = bound conn c (usr_user_id u) (w1\<lparr>w_db := w_db w2\<rparr>)" by blast
    from row'(1) n lreq have "row' = ?row" by simp
    with row'(2,3) have "usr_user_id u = account_id e lreq w1 ?row"
      "w2 = bound conn c (usr_user_id u) (w1\<lparr>w_db := w_db w2\<rparr>)" by blast+
    then have "deref conn w2 = Some (c\<lparr>c_user_id := account_id e lreq w1 ?row\<rparr>)" by (metis bound_sel(3))
    with True ok free lreq show ?thesis by (simp add: account_id_def)
  next
    case False
    with user_login_refused [OF m idle1 login False] n ne lreq True free show ?thesis by simp
  qed
qed simp

section \<open>Messages between users\<close>

text \<open>
  Property C7. A message with a receiver and a time stamp, sent by a logged-in user, is
  acknowledged with its own id; the request is queued for storage exactly as the client sent it,
  the sender id it claims included; and if the receiver is online and the push can be serialised,
  the receiver's connection, and no other, gets exactly one more frame: the message with the
  sender id replaced by the id of the authenticated user. An offline receiver gets no frame.
\<close>

theorem p2p_delivery:
  assumes l: "live w" and u: "u \<noteq> 0" and req: "receiver_id req \<noteq> 0" "timestamp req \<noteq> 0"
  shows "\<exists>w'. send_p2p_message e u req w =
      Some (\<lparr>ack_msg_id = msg_id req, ack_ref_seq = 0, ack_success = True, ack_error_msg = []\<rparr>, w') \<and>
    wr_queue (w_writer w') = wr_queue (w_writer w) @ [req] \<and> w_online w' = w_online w \<and>
    (case w_online w (receiver_id req) of
       None \<Rightarrow> w_objs w' = w_objs w
     | Some p \<Rightarrow> (\<forall>q. q \<noteq> p \<longrightarrow> deref q w' = deref q w) \<and>
         (\<exists>c c'. deref p w = Some c \<and> deref p w' = Some c' \<and>
            c_outgoing c' = c_outgoing c @
              (case e_serialize e (p2p_envelope (e_time e) (req\<lparr>sender_id := u\<rparr>)) of
                 None \<Rightarrow> [] | Some s \<Rightarrow> [frame s])))"
proof -
  let ?w = "w\<lparr>w_writer := writer_Enqueue req (w_writer w)\<rparr>"
  let ?env = "p2p_envelope (e_time e) (req\<lparr>sender_id := u\<rparr>)"
  have run: "send_p2p_message e u req w = do { w2 \<leftarrow> send_envelope e (receiver_id req) ?env ?w;
      Some (\<lparr>ack_msg_id = msg_id req, ack_ref_seq = 0, ack_success = True, ack_error_msg = []\<rparr>, w2) }"
    using u req by (simp add: send_p2p_message_def Let_def message_defaults push_p2p_message_def)
  have q: "wr_queue (w_writer ?w) = wr_queue (w_writer w) @ [req]" by (simp add: writer_Enqueue_def)
  have lw: "live ?w" using l by simp
  show ?thesis
  proof (cases "e_serialize e ?env")
    case None
    have "\<exists>c. deref p w = Some c" if "w_online w (receiver_id req) = Some p" for p
      by (rule live_deref [OF l that])
    with None run q show ?thesis by (auto simp: send_envelope_eq split: option.splits)
  next
    case (Some s)
    obtain w' where w': "push_to_user e (receiver_id req) s ?w = Some w'"
      "case w_online ?w (receiver_id req) of None \<Rightarrow> w' = ?w | Some p \<Rightarrow> pushed p s ?w w'"
      using push_to_user_pushed [OF lw] by blast
    with run Some have r: "send_p2p_message e u req w =
        Some (\<lparr>ack_msg_id = msg_id req, ack_ref_seq = 0, ack_success = True, ack_error_msg = []\<rparr>, w')"
      by (simp add: send_envelope_eq)
    show ?thesis
      using r w'(2) q Some by (cases "w_online w (receiver_id req)") (auto simp: pushed_def deref_def)
  qed
qed


section \<open>A small server\<close>

text \<open>Two connections: address 0, not logged in, with a heartbeat to read, and address 1 of user 22.\<close>

definition ex_senv :: "(db_view, mem_store) server_env" where
  "ex_senv = \<lparr>e_mysql = mem_mysql, e_scylla = mem_scylla, e_serialize = \<lambda>_. Some ''x'', e_parse = ex_parse,
     e_fs = ex_fs, e_src_dir = ''/srv'', e_token = \<lambda>_ _. ''t'', e_is_et = True, e_time = 9, e_rand_id = 33\<rparr>"

definition ex_c0 :: tcp_conn where
  "ex_c0 = TcpConnection_new\<lparr>c_fd := 5, c_is_close := False,
     c_read_buff := \<lparr>store = frame ''hb'', readPos = 0, writePos = 6\<rparr>\<rparr>"

definition ex_c1 :: tcp_conn where
  "ex_c1 = TcpConnection_new\<lparr>c_fd := 6, c_is_close := False, c_user_id := 22\<rparr>"

definition ex_world :: "(db_view, mem_store) world" where
  "ex_world = \<lparr>w_objs = [0 \<mapsto> ex_c0, 1 \<mapsto> ex_c1], w_connections = [5 \<mapsto> 0, 6 \<mapsto> 1], w_online = [22 \<mapsto> 1],
     w_user_count = 2, w_open = {5, 6}, w_interest = [5 \<mapsto> EPOLLIN, 6 \<mapsto> EPOLLIN], w_tasks = [],
     w_db = ex_view, w_writer = \<lparr>wr_running = True, wr_queue = [], wr_store = []\<rparr>\<rparr>"

lemma ex_world_ok: "live ex_world" "deref 0 ex_world = Some ex_c0" "deref 1 ex_world = Some ex_c1"
  "buf_ok (c_read_buff ex_c0)" "buf_ok (c_write_buff ex_c0)" "contents (c_read_buff ex_c0) = frame ''hb''"
  "\<not> is_logged_in ex_c0" "unique_names (\<lambda>n. n) (cur (w_db ex_world))" "saved (w_db ex_world) = None"
  by (auto simp: live_def ex_world_def ex_c0_def ex_c1_def deref_def TcpConnection_new_def buf_ok_def Buffer_new_def
      contents_def frame_def is_logged_in_def unique_names_def ex_view_def split: if_splits)

lemma ex_senv_ok: "mysql_ok (e_mysql ex_senv) (\<lambda>v. v) (\<lambda>n. n)"
  by (simp add: ex_senv_def mem_mysql_ok)

theorem one_response_per_request_witness:
  "\<exists>w' c'. ProtobufHandler_Process ex_senv 0 ex_world = Some (True, w') \<and> deref 0 w' = Some c' \<and>
     contents (c_read_buff c') = [] \<and> contents (c_write_buff c') = frame ''x''"
proof -
  have d: "decode_bytes (e_parse ex_senv) (contents (c_read_buff ex_c0)) = (Some ex_env, [])"
    using decode_frame [of "''hb''" ex_parse "[]"]
    by (simp add: ex_world_ok(6) ex_senv_def ex_parse_def kMaxMessageSize_def)
  have "contents (c_write_buff ex_c0) = []" by (simp add: ex_c0_def TcpConnection_new_def)
  moreover have "e_serialize ex_senv r = Some ''x''" for r by (simp add: ex_senv_def)
  ultimately show ?thesis
    using one_response_per_request [OF ex_world_ok(1,2,4,5), of ex_senv] unfolding d by auto
qed

definition ex_login :: "string \<Rightarrow> Envelope" where
  "ex_login pw = Envelope_default\<lparr>env_cmd := CMD_LOGIN_REQ,
     env_payload := login_req \<lparr>lq_username = ''ann'', lq_password = pw\<rparr>\<rparr>"

lemma ex_dao:
  "QueryExist mem_mysql ''ann'' ex_view = (True, ex_view)"
  "VerifyUser mem_mysql ''ann'' ''pa'' ex_view = (True, ex_view)"
  "FindByUsername mem_mysql ''ann'' ex_view =
     (\<lparr>usr_user_id = 11, usr_username = ''ann'', usr_status = USER_STATUS_ONLINE\<rparr>, ex_view)"
  "QueryExist mem_mysql ''cid'' ex_view = (False, ex_view)"
  by (simp_all add: QueryExist_def exists_row_def result_count_def VerifyUser_def FindByUsername_def
      user_from_rows_def mem_run)

lemma ex_with_db: "f ex_view = (x, ex_view) \<Longrightarrow> with_db f ex_world = (x, ex_world)"
  by (simp add: with_db_def ex_world_def)

lemma ex_user_login:
  "user_login ex_senv 0 \<lparr>lq_username = ''ann'', lq_password = ''pa''\<rparr> ex_world =
     Some (\<lparr>lr_success = True, lr_error_msg = [], lr_user_info = Some \<lparr>usr_user_id = 11, usr_username = ''ann'',
         usr_status = USER_STATUS_ONLINE\<rparr>, lr_token = ''t''\<rparr>,
       add_client 11 0 (put_conn 0 (ex_c0\<lparr>c_user_id := 11\<rparr>) ex_world))"
  using ex_dao ex_world_ok(2)
  by (simp add: user_login_def Let_def set_user_id_def ex_senv_def message_defaults ex_with_db)

theorem unauthenticated_inert_witness:
  "\<exists>resp w'. Dispatch ex_senv 0 (ex_login ''pa'') Envelope_default ex_world = Some (resp, w') \<and>
     w_online w' 11 = Some 0 \<and> w_writer w' = w_writer ex_world \<and> w_open w' = w_open ex_world"
proof -
  obtain resp w' where run: "Dispatch ex_senv 0 (ex_login ''pa'') Envelope_default ex_world = Some (resp, w')"
      "w_online w' 11 = Some 0"
    by (simp add: Dispatch_def HandleLogin_def ex_login_def ex_user_login add_client_def message_defaults)
  have "w_writer w' = w_writer ex_world \<and> w_open w' = w_open ex_world"
    using unauthenticated_inert [OF ex_senv_ok ex_world_ok(9,2,7) run(1)]
    apply (elim conjE disjE exE)
        apply (drule arg_cong [where f = "\<lambda>w. (w_writer w, w_open w)"], simp)+
    done
  with run show ?thesis by blast
qed

theorem login_binds_account_witness:
  "\<exists>resp w'. user_login ex_senv 0 \<lparr>lq_username = ''ann'', lq_password = ''pa''\<rparr> ex_world = Some (resp, w') \<and>
     lr_success resp \<and> deref 0 w' = Some (ex_c0\<lparr>c_user_id := 11\<rparr>) \<and> w_online w' = [22 \<mapsto> 1, 11 \<mapsto> 0]"
proof -
  let ?req = "\<lparr>lq_username = ''ann'', lq_password = ''pa''\<rparr>"
  obtain resp w' where run: "user_login ex_senv 0 ?req ex_world = Some (resp, w')" "lr_success resp"
    using ex_user_login by simp
  have "\<not> db_fails (e_mysql ex_senv) (SelectUserByName ''ann'') (login_db ex_senv ?req ex_world)"
    by (simp add: db_fails_def ex_senv_def mem_mysql_def)
  moreover have "u_user_id row = 11" if "row \<in> set (im_user (cur (w_db ex_world)))" "u_username row = ''ann''" for row
    using that by (auto simp: ex_world_def ex_view_def)
  ultimately have w': "w' = ex_world\<lparr>w_objs := (w_objs ex_world)(0 \<mapsto> ex_c0\<lparr>c_user_id := 11\<rparr>),
      w_online := (w_online ex_world)(11 \<mapsto> 0)\<rparr>"
    using login_binds_account [OF ex_senv_ok ex_world_ok(9,2,8) run(1)] run(2) by auto
  have "deref 0 w' = Some (ex_c0\<lparr>c_user_id := 11\<rparr>)" "w_online w' = [22 \<mapsto> 1, 11 \<mapsto> 0]"
    unfolding w' by (simp_all add: deref_def ex_world_def)
  with run show ?thesis by blast
qed

definition ex_reg :: "(db_view, mem_store) world" where
  "ex_reg = ex_world\<lparr>w_db := snd (UserDao_Insert mem_mysql 33 ''cid'' ''pc'' ex_view)\<rparr>"

theorem register_then_login_witness:
  "\<exists>rresp lresp w2. user_register ex_senv \<lparr>rq_username = ''cid'', rq_password = ''pc''\<rparr> ex_world = (rresp, ex_reg) \<and>
     rr_success rresp \<and> user_login ex_senv 0 \<lparr>lq_username = ''cid'', lq_password = ''pc''\<rparr> ex_reg = Some (lresp, w2) \<and>
     lr_success lresp \<and> deref 0 w2 = Some (ex_c0\<lparr>c_user_id := 33\<rparr>)"
proof -
  let ?rq = "\<lparr>rq_username = ''cid'', rq_password = ''pc''\<rparr>" and ?lq = "\<lparr>lq_username = ''cid'', lq_password = ''pc''\<rparr>"
  have ins: "fst (UserDao_Insert mem_mysql 33 ''cid'' ''pc'' ex_view)"
    by (simp add: UserDao_Insert_def insert_row_def mem_run)
  have reg: "user_register ex_senv ?rq ex_world = (\<lparr>rr_success = True, rr_error_msg = [], rr_user_id = 33\<rparr>, ex_reg)"
    using ex_dao(4) ins
    by (simp add: user_register_def Let_def with_db_eq ex_senv_def ex_reg_def message_defaults)
      (simp add: ex_world_def)
  obtain lresp w2 where l: "user_login ex_senv 0 ?lq ex_reg = Some (lresp, w2)"
    using user_login_kept [of 0 ex_reg ex_c0 ex_senv ?lq] ex_world_ok(2) by (auto simp: ex_reg_def)
  have "\<not> db_fails (e_mysql ex_senv) (SelectUserByName n) s" "\<not> db_fails (e_mysql ex_senv) (CountUsersByName n) s"
    "\<not> db_fails (e_mysql ex_senv) (SelectPassword n) s" for n s
    by (simp_all add: db_fails_def ex_senv_def mem_mysql_def)
  with register_then_login [OF ex_senv_ok ex_world_ok(9,2) reg _ l] reg l show ?thesis
    by (auto split: if_splits)
qed

theorem p2p_delivery_witness:
  "\<exists>w' c'. send_p2p_message ex_senv 11 ((ex_msg 7)\<lparr>sender_id := 99\<rparr>) ex_world =
     Some (\<lparr>ack_msg_id = 7, ack_ref_seq = 0, ack_success = True, ack_error_msg = []\<rparr>, w') \<and>
   wr_queue (w_writer w') = [(ex_msg 7)\<lparr>sender_id := 99\<rparr>] \<and>
   deref 1 w' = Some c' \<and> c_outgoing c' = [frame ''x'']"
  using p2p_delivery [OF ex_world_ok(1), of 11 "(ex_msg 7)\<lparr>sender_id := 99\<rparr>" ex_senv]
  by (auto simp: ex_msg_def ex_world_def ex_senv_def deref_def ex_c1_def TcpConnection_new_def)

end
