(* ===== verification/Heap_Timer.thy ===== *)
theory Heap_Timer
  imports Prelude
begin

text \<open>
  The connection timer of \<open>server/src/timer\<close>: a binary min-heap of expiry times in a
  vector, and a vector \<open>ref\<close> from a timer id (a file descriptor) to its heap index.

  Model. Times are nanoseconds (\<open>high_resolution_clock\<close>); every reading of the clock is an
  argument. The sentinel \<open>-1\<close> stored in \<open>ref_\<close> is \<open>None\<close>. A failed assertion or an
  access out of range is the result \<open>None\<close>: in a build with assertions the program stops
  there; in the \<open>Release\<close> build, the default of \<open>CMakeLists.txt\<close>, they are compiled out and
  the same call goes on with an access outside its vector, so that \<open>None\<close> stands for a
  behaviour the language leaves undefined.

  One access out of range is not \<open>None\<close>. \<open>SiftUp_\<close> computes the parent of index 0 as
  \<open>(0 - 1) / 2\<close> on \<open>size_t\<close>, that is \<open>SIZE_MAX / 2\<close>, and reads \<open>heap_\<close> there whenever a
  node is at the root, the first \<open>Add\<close> of the program included; on a 64-bit machine the
  address wraps around to the element before the array. What it finds is the parameter
  \<open>stray\<close>, about which nothing is assumed: if it is no larger than the expiry at the root
  the loop ends as it should, and if it is larger the \<open>SwapNode_\<close> that follows is called with
  an index out of range, which is \<open>None\<close>. The theorems say in which calls the second case
  can arise.
\<close>

section \<open>State\<close>

record timer_node =
  node_id :: nat
  expires :: int

record heap_timer =
  heap :: "timer_node list"
  ref :: "nat option list"

definition HeapTimer_new :: heap_timer where
  "HeapTimer_new = \<lparr>heap = [], ref = replicate 65536 None\<rparr>"

definition MS :: "int \<Rightarrow> int" where
  "MS n = n * 1000000"

text \<open>\<open>duration_cast<MS>(d).count()\<close>: towards zero.\<close>

definition count_ms :: "int \<Rightarrow> int" where
  "count_ms d = (if 0 \<le> d then d div 1000000 else - ((- d) div 1000000))"

section \<open>Operations\<close>

definition set_ref :: "nat \<Rightarrow> nat option \<Rightarrow> heap_timer \<Rightarrow> heap_timer option" where
  "set_ref k v h = (if k < length (ref h) then Some (h\<lparr>ref := (ref h)[k := v]\<rparr>) else None)"

definition SwapNode :: "nat \<Rightarrow> nat \<Rightarrow> heap_timer \<Rightarrow> heap_timer option" where
  "SwapNode i j h =
     (if i < length (heap h) \<and> j < length (heap h)
      then let h1 = h\<lparr>heap := swap_at (heap h) i j\<rparr> in
        do { h2 \<leftarrow> set_ref (node_id (heap h1 ! i)) (Some i) h1;
             set_ref (node_id (heap h1 ! j)) (Some j) h2 }
      else None)"

fun SiftUp_loop :: "int \<Rightarrow> nat \<Rightarrow> heap_timer \<Rightarrow> heap_timer option" where
  "SiftUp_loop stray i h =
     (if i = 0 then (if stray > expires (heap h ! i) then None else Some h)
      else let parent = (i - 1) div 2 in
        if expires (heap h ! parent) > expires (heap h ! i)
        then do { h1 \<leftarrow> SwapNode i parent h; SiftUp_loop stray parent h1 }
        else Some h)"

definition SiftUp :: "int \<Rightarrow> nat \<Rightarrow> heap_timer \<Rightarrow> heap_timer option" where
  "SiftUp stray i h = (if i < length (heap h) then SiftUp_loop stray i h else None)"

definition smaller_child :: "nat \<Rightarrow> nat \<Rightarrow> timer_node list \<Rightarrow> nat" where
  "smaller_child child n xs =
     (if child + 1 < n \<and> expires (xs ! (child + 1)) < expires (xs ! child)
      then child + 1 else child)"

function SiftDown_loop :: "nat \<Rightarrow> nat \<Rightarrow> heap_timer \<Rightarrow> (nat \<times> heap_timer) option" where
  "SiftDown_loop i n h =
     (if 2 * i + 1 < n
      then let child = smaller_child (2 * i + 1) n (heap h) in
        if expires (heap h ! i) < expires (heap h ! child) then Some (i, h)
        else do { h1 \<leftarrow> SwapNode i child h; SiftDown_loop child n h1 }
      else Some (i, h))"
  by pat_completeness auto
termination
  by (relation "measure (\<lambda>(i, n, h). n - i)") (auto simp: smaller_child_def)

definition SiftDown :: "nat \<Rightarrow> nat \<Rightarrow> heap_timer \<Rightarrow> (bool \<times> heap_timer) option" where
  "SiftDown index n h =
     (if index < length (heap h) \<and> n \<le> length (heap h)
      then do { (i, h1) \<leftarrow> SiftDown_loop index n h; Some (i > index, h1) }
      else None)"

definition Del :: "int \<Rightarrow> nat \<Rightarrow> heap_timer \<Rightarrow> heap_timer option" where
  "Del stray index h =
     (if index < length (heap h)
      then do {
        h3 \<leftarrow> (if index < length (heap h) - 1
              then do {
                h1 \<leftarrow> SwapNode index (length (heap h) - 1) h;
                (moved, h2) \<leftarrow> SiftDown index (length (heap h1) - 1) h1;
                if \<not> moved then SiftUp stray index h2 else Some h2 }
              else Some h);
        h4 \<leftarrow> set_ref (node_id (heap h3 ! index)) None h3;
        Some (h4\<lparr>heap := butlast (heap h4)\<rparr>) }
      else None)"

definition set_expires :: "nat \<Rightarrow> int \<Rightarrow> heap_timer \<Rightarrow> heap_timer option" where
  "set_expires i t h =
     (if i < length (heap h)
      then Some (h\<lparr>heap := (heap h)[i := (heap h ! i)\<lparr>expires := t\<rparr>]\<rparr>) else None)"

definition Adjust :: "int \<Rightarrow> int \<Rightarrow> int \<Rightarrow> heap_timer \<Rightarrow> heap_timer option" where
  "Adjust tid newExpires now h =
     (if heap h \<noteq> [] \<and> 0 \<le> tid \<and> nat tid < length (ref h)
      then do {
        i \<leftarrow> ref h ! nat tid;
        h1 \<leftarrow> set_expires i (now + MS newExpires) h;
        (_, h2) \<leftarrow> SiftDown i (length (heap h1)) h1;
        Some h2 }
      else None)"

definition ref_resize :: "nat \<Rightarrow> nat option list \<Rightarrow> nat option list" where
  "ref_resize n xs = take n xs @ replicate (n - length xs) None"

definition Add :: "int \<Rightarrow> int \<Rightarrow> int \<Rightarrow> int \<Rightarrow> heap_timer \<Rightarrow> heap_timer option" where
  "Add stray tid timeOut now h =
     (if 0 \<le> tid
      then let k = nat tid;
               h0 = (if k \<ge> length (ref h) then h\<lparr>ref := ref_resize (k * 2) (ref h)\<rparr> else h)
        in if k < length (ref h0)
           then (case ref h0 ! k of
               Some tmp \<Rightarrow> do {
                 h1 \<leftarrow> set_expires tmp (now + MS timeOut) h0;
                 (moved, h2) \<leftarrow> SiftDown tmp (length (heap h1)) h1;
                 if \<not> moved then SiftUp stray tmp h2 else Some h2 }
             | None \<Rightarrow> do {
                 h1 \<leftarrow> set_ref k (Some (length (heap h0))) h0;
                 SiftUp stray (length (heap h0))
                   (h1\<lparr>heap := heap h1 @ [\<lparr>node_id = k, expires = now + MS timeOut\<rparr>]\<rparr>) })
           else None
      else None)"

definition Pop :: "int \<Rightarrow> heap_timer \<Rightarrow> heap_timer option" where
  "Pop stray h = (if length (heap h) > 0 then Del stray 0 h else None)"

definition Clear :: "heap_timer \<Rightarrow> heap_timer" where
  "Clear h = \<lparr>heap = [], ref = replicate (length (ref h)) None\<rparr>"

text \<open>The callback acts on a state of its own (the server's); it is unset at first.\<close>

definition call_back :: "(nat \<Rightarrow> 's \<Rightarrow> 's) option \<Rightarrow> nat \<Rightarrow> 's \<Rightarrow> 's" where
  "call_back cb k s = (case cb of None \<Rightarrow> s | Some f \<Rightarrow> f k s)"

definition DoWork ::
  "int \<Rightarrow> (nat \<Rightarrow> 's \<Rightarrow> 's) option \<Rightarrow> int \<Rightarrow> 's \<times> heap_timer \<Rightarrow> ('s \<times> heap_timer) option" where
  "DoWork stray cb tid = (\<lambda>(s, h).
     if heap h = [] \<or> tid < 0 \<or> nat tid \<ge> length (ref h) \<or> ref h ! nat tid = None then Some (s, h)
     else do { i \<leftarrow> ref h ! nat tid;
               h1 \<leftarrow> Del stray i h;
               Some (call_back cb (nat tid) s, h1) })"

text \<open>The length of the heap after each operation, as the termination of \<open>Tick\<close> needs it.\<close>

lemma set_ref_heap: "set_ref k v h = Some h' \<Longrightarrow> heap h' = heap h"
  by (auto simp: set_ref_def split: if_splits)

lemma SwapNode_heap: "SwapNode i j h = Some h' \<Longrightarrow> heap h' = swap_at (heap h) i j"
  by (auto simp: SwapNode_def Let_def split: if_splits dest!: set_ref_heap)

declare SiftUp_loop.simps [simp del] SiftDown_loop.simps [simp del]

lemma SiftUp_loop_length: "SiftUp_loop stray i h = Some h' \<Longrightarrow> length (heap h') = length (heap h)"
proof (induction stray i h rule: SiftUp_loop.induct)
  case (1 stray i h)
  note IH = "1.IH" [OF _ refl]
  show ?case
    using "1.prems" IH
    by (auto simp: SiftUp_loop.simps [of stray i h] Let_def SwapNode_heap split: if_splits)
qed

lemma SiftDown_loop_length:
  "SiftDown_loop i n h = Some (j, h') \<Longrightarrow> length (heap h') = length (heap h)"
proof (induction i n h rule: SiftDown_loop.induct)
  case (1 i n h)
  note IH = "1.IH" [OF _ refl]
  show ?case
    using "1.prems" IH
    by (auto simp: SiftDown_loop.simps [of i n h] Let_def SwapNode_heap split: if_splits)
qed

lemma Del_length: "Del stray i h = Some h' \<Longrightarrow> length (heap h') = length (heap h) - 1"
  by (auto simp: Del_def SiftDown_def SiftUp_def SwapNode_heap
      dest!: set_ref_heap SiftUp_loop_length SiftDown_loop_length split: if_splits)

lemma Pop_length: "Pop stray h = Some h' \<Longrightarrow> length (heap h') < length (heap h)"
  by (auto simp: Pop_def dest: Del_length split: if_splits)

text \<open>
  \<open>Tick\<close>: \<open>clock k\<close> is the \<open>k\<close>-th reading of \<open>Clock::now()\<close>. The result is the number
  of readings made so far, the callback's state and the timer.
\<close>

function Tick ::
  "int \<Rightarrow> (nat \<Rightarrow> 's \<Rightarrow> 's) option \<Rightarrow> (nat \<Rightarrow> int) \<Rightarrow> nat \<times> 's \<times> heap_timer \<Rightarrow>
   (nat \<times> 's \<times> heap_timer) option" where
  "Tick stray cb clock (k, s, h) =
     (if heap h = [] then Some (k, s, h)
      else let node = hd (heap h) in
        if count_ms (expires node - clock k) > 0 then Some (k + 1, s, h)
        else case Pop stray h of
            None \<Rightarrow> None
          | Some h1 \<Rightarrow> Tick stray cb clock (k + 1, call_back cb (node_id node) s, h1))"
  by pat_completeness auto
termination
  by (relation "measure (\<lambda>(stray, cb, clock, k, s, h). length (heap h))") (auto dest: Pop_length)

declare Tick.simps [simp del]

lemma Tick_invariant:
  assumes "\<And>k s. P s \<Longrightarrow> P (cb k s)" and "P s" and "Tick stray (Some cb) clock (k, s, h) = Some (k', s', h')"
  shows "P s'"
  using assms(2,3)
proof (induction "length (heap h)" arbitrary: k s h rule: less_induct)
  case less
  from less.prems(2) consider "s' = s"
    | h1 where "Pop stray h = Some h1"
        "Tick stray (Some cb) clock (k + 1, cb (node_id (hd (heap h))) s, h1) = Some (k', s', h')"
    by (subst (asm) Tick.simps) (auto simp: call_back_def Let_def split: if_splits option.splits)
  then show ?case
    using less.prems(1) less.hyps [OF Pop_length _ _] assms(1) by cases blast+
qed

text \<open>
  \<open>GetNextTick\<close> keeps the count in a \<open>size_t\<close> and returns it as an \<open>int\<close>: the test
  \<open>res < 0\<close> on the unsigned value is never true.
\<close>

definition GetNextTick ::
  "int \<Rightarrow> (nat \<Rightarrow> 's \<Rightarrow> 's) option \<Rightarrow> (nat \<Rightarrow> int) \<Rightarrow> 's \<times> heap_timer \<Rightarrow>
   (int \<times> 's \<times> heap_timer) option" where
  "GetNextTick stray cb clock = (\<lambda>(s, h). do {
     (k, s1, h1) \<leftarrow> Tick stray cb clock (0, s, h);
     let res = (if heap h1 \<noteq> []
                then word_of_int (count_ms (expires (hd (heap h1)) - clock k)) else -1) :: u64;
         res' = (if uint res < 0 then 0 else res)
     in Some (sint (ucast res' :: u32), s1, h1) })"

section \<open>Invariants\<close>

definition par :: "nat \<Rightarrow> nat" where
  "par i = (i - 1) div 2"

text \<open>The first \<open>n\<close> elements form a min-heap.\<close>

definition heap_ordered :: "nat \<Rightarrow> timer_node list \<Rightarrow> bool" where
  "heap_ordered n xs \<longleftrightarrow> (\<forall>j<n. 0 < j \<longrightarrow> expires (xs ! par j) \<le> expires (xs ! j))"

definition ids_in :: "heap_timer \<Rightarrow> bool" where
  "ids_in h \<longleftrightarrow> (\<forall>nd\<in>set (heap h). node_id nd < length (ref h))"

text \<open>\<open>ref\<close> and \<open>heap\<close> are inverse to each other.\<close>

definition ref_ok :: "heap_timer \<Rightarrow> bool" where
  "ref_ok h \<longleftrightarrow>
     (\<forall>i<length (heap h). ref h ! node_id (heap h ! i) = Some i) \<and>
     (\<forall>k<length (ref h). \<forall>i. ref h ! k = Some i \<longrightarrow>
        i < length (heap h) \<and> node_id (heap h ! i) = k)"

definition timer_ok :: "heap_timer \<Rightarrow> bool" where
  "timer_ok h \<longleftrightarrow>
     heap_ordered (length (heap h)) (heap h) \<and> ids_in h \<and> ref_ok h \<and> ref h \<noteq> []"

text \<open>The pending timers, as a finite map from id to expiry.\<close>

definition timers :: "heap_timer \<Rightarrow> nat \<Rightarrow> int option" where
  "timers h = map_of (map (\<lambda>nd. (node_id nd, expires nd)) (heap h))"

definition stray_ok :: "int \<Rightarrow> heap_timer \<Rightarrow> bool" where
  "stray_ok stray h \<longleftrightarrow> (\<forall>nd\<in>set (heap h). stray \<le> expires nd)"

section \<open>Positions in the heap\<close>

lemma par_less [simp]: "0 < j \<Longrightarrow> par j < j"
  by (auto simp: par_def)

lemma par_lt: "j < n \<Longrightarrow> par j < n"
  by (auto simp: par_def)

lemma par_child: "0 < j \<Longrightarrow> par j = k \<longleftrightarrow> j = 2 * k + 1 \<or> j = 2 * k + 2"
  by (auto simp: par_def)

lemma par_simps [simp]: "par (2 * k + 1) = k" "par (2 * k + 2) = k" "par (Suc (2 * k)) = k" "par (Suc (Suc (2 * k))) = k"
  by (simp_all add: par_def)

text \<open>
  Heaps with one element out of place: the element at \<open>k\<close> may be too large for its
  children (\<open>down_hole\<close>), too small for its parent (\<open>up_hole\<close>), or either
  (\<open>both_hole\<close>); its parent is no larger than its children in all three.
\<close>

definition bridge :: "nat \<Rightarrow> timer_node list \<Rightarrow> nat \<Rightarrow> bool" where
  "bridge n xs k \<longleftrightarrow>
     (\<forall>j<n. 0 < j \<and> par j = k \<and> 0 < k \<longrightarrow> expires (xs ! par k) \<le> expires (xs ! j))"

definition down_hole :: "nat \<Rightarrow> timer_node list \<Rightarrow> nat \<Rightarrow> bool" where
  "down_hole n xs k \<longleftrightarrow> bridge n xs k \<and>
     (\<forall>j<n. 0 < j \<and> par j \<noteq> k \<longrightarrow> expires (xs ! par j) \<le> expires (xs ! j))"

definition up_hole :: "nat \<Rightarrow> timer_node list \<Rightarrow> nat \<Rightarrow> bool" where
  "up_hole n xs k \<longleftrightarrow> bridge n xs k \<and>
     (\<forall>j<n. 0 < j \<and> j \<noteq> k \<longrightarrow> expires (xs ! par j) \<le> expires (xs ! j))"

definition both_hole :: "nat \<Rightarrow> timer_node list \<Rightarrow> nat \<Rightarrow> bool" where
  "both_hole n xs k \<longleftrightarrow> bridge n xs k \<and>
     (\<forall>j<n. 0 < j \<and> j \<noteq> k \<and> par j \<noteq> k \<longrightarrow> expires (xs ! par j) \<le> expires (xs ! j))"

lemmas hole_defs = bridge_def down_hole_def up_hole_def both_hole_def

lemma heap_bridge: "heap_ordered n xs \<Longrightarrow> k < n \<Longrightarrow> bridge n xs k"
  unfolding heap_ordered_def bridge_def by (meson dual_order.trans)

lemma smaller_child_bounds:
  "2 * i + 1 < n \<Longrightarrow> smaller_child (2 * i + 1) n xs < n \<and>
   0 < smaller_child (2 * i + 1) n xs \<and> par (smaller_child (2 * i + 1) n xs) = i \<and>
   i < smaller_child (2 * i + 1) n xs"
  by (auto simp: smaller_child_def)

lemma smaller_child_le:
  assumes "2 * i + 1 < n" and "j < n" and "0 < j" and "par j = i"
  shows "expires (xs ! smaller_child (2 * i + 1) n xs) \<le> expires (xs ! j)"
  using assms par_child [of j i] by (auto simp: smaller_child_def)

lemma swap_down_hole:
  assumes hole: "both_hole n xs i" and n: "n \<le> length xs" and i: "2 * i + 1 < n"
    and le: "expires (xs ! c) \<le> expires (xs ! i)" and c: "c = smaller_child (2 * i + 1) n xs"
  shows "down_hole n (swap_at xs i c) c"
proof -
  have cb: "c < n" "0 < c" "par c = i" "i < c"
    using smaller_child_bounds [OF i] c by auto
  have nth: "k < n \<Longrightarrow> swap_at xs i c ! k = xs ! (if k = i then c else if k = c then i else k)" for k
    using cb n by (simp add: nth_swap_at)
  have below: "expires (xs ! c) \<le> expires (xs ! j)" if "j < n" "0 < j" "par j = i" for j
    using smaller_child_le [OF i that] c by simp
  have br: "0 < i \<Longrightarrow> expires (xs ! par i) \<le> expires (xs ! c)"
    using hole cb by (auto simp: both_hole_def bridge_def)
  have rest: "expires (xs ! par j) \<le> expires (xs ! j)" if "j < n" "0 < j" "j \<noteq> i" "par j \<noteq> i" for j
    using hole that by (auto simp: both_hole_def)
  have "expires (swap_at xs i c ! par j) \<le> expires (swap_at xs i c ! j)"
    if j: "j < n" "0 < j" "par j \<noteq> c" for j
  proof -
    have "par j < n" using j by (simp add: par_lt)
    then show ?thesis
      using j cb le br below [of j] rest [of j] by (auto simp: nth)
  qed
  moreover have "expires (swap_at xs i c ! par c) \<le> expires (swap_at xs i c ! j)"
    if j: "j < n" "0 < j" "par j = c" for j
  proof -
    have "c < j" using j by auto
    with j cb rest [of j] show ?thesis by (auto simp: nth)
  qed
  ultimately show ?thesis
    by (auto simp: down_hole_def bridge_def)
qed

lemma swap_up_hole:
  assumes hole: "up_hole n xs i" and n: "n \<le> length xs" and i: "i < n" "0 < i"
    and gt: "expires (xs ! i) < expires (xs ! par i)"
  shows "up_hole n (swap_at xs i (par i)) (par i)"
proof -
  let ?p = "par i"
  have p: "?p < i" "?p < n" using i by (auto intro: less_trans [OF par_less])
  have nth: "k < n \<Longrightarrow> swap_at xs i ?p ! k = xs ! (if k = i then ?p else if k = ?p then i else k)" for k
    using p i n by (simp add: nth_swap_at)
  have rest: "expires (xs ! par j) \<le> expires (xs ! j)" if "j < n" "0 < j" "j \<noteq> i" for j
    using hole that by (auto simp: up_hole_def)
  have br: "expires (xs ! ?p) \<le> expires (xs ! j)" if "j < n" "0 < j" "par j = i" for j
    using hole that i by (auto simp: up_hole_def bridge_def)
  have "expires (swap_at xs i ?p ! par j) \<le> expires (swap_at xs i ?p ! j)"
    if j: "j < n" "0 < j" "j \<noteq> ?p" for j
  proof -
    have "par j < n" using j by (simp add: par_lt)
    then show ?thesis
      using j p gt rest [of j] br [of j] by (auto simp: nth)
  qed
  moreover have "expires (swap_at xs i ?p ! par ?p) \<le> expires (swap_at xs i ?p ! j)"
    if j: "j < n" "0 < j" "par j = ?p" "0 < ?p" for j
  proof -
    have pp: "par ?p < ?p" "par ?p < n" "par ?p \<noteq> i"
      using j p par_lt [of ?p n] par_less [of ?p] by linarith+
    have "expires (xs ! par ?p) \<le> expires (xs ! ?p)" using rest [of ?p] p j by auto
    moreover have "?p < j" using j par_less [of j] by metis
    ultimately show ?thesis
      using j pp p rest [of j] by (auto simp: nth)
  qed
  ultimately show ?thesis
    by (auto simp: up_hole_def bridge_def)
qed

section \<open>Sifting\<close>

text \<open>
  What every sift keeps when it works on the first \<open>n\<close> positions: the nodes as a
  multiset, the size of \<open>ref\<close>, the agreement of \<open>ref\<close> and \<open>heap\<close>, and the positions
  from \<open>n\<close> on.
\<close>

definition sift_frame :: "nat \<Rightarrow> heap_timer \<Rightarrow> heap_timer \<Rightarrow> bool" where
  "sift_frame n h h' \<longleftrightarrow> mset (heap h') = mset (heap h) \<and> length (ref h') = length (ref h) \<and>
     (ref_ok h \<longrightarrow> ref_ok h') \<and>
     (\<forall>p. n \<le> p \<and> p < length (heap h) \<longrightarrow> heap h' ! p = heap h ! p)"

lemma sift_frame_refl [simp]: "sift_frame n h h"
  by (simp add: sift_frame_def)

lemma sift_frame_length: "sift_frame n h h' \<Longrightarrow> length (heap h') = length (heap h)"
  by (auto simp: sift_frame_def dest: mset_eq_length)

lemma sift_frame_set: "sift_frame n h h' \<Longrightarrow> set (heap h') = set (heap h)"
  by (auto simp: sift_frame_def dest: mset_eq_setD)

lemma sift_frame_ids: "sift_frame n h h' \<Longrightarrow> ids_in h' = ids_in h"
  using sift_frame_set [of n h h'] by (auto simp: ids_in_def sift_frame_def)

lemma sift_frame_stray: "sift_frame n h h' \<Longrightarrow> stray_ok st h' = stray_ok st h"
  using sift_frame_set [of n h h'] by (auto simp: stray_ok_def)

lemma sift_frame_trans:
  "sift_frame n h1 h2 \<Longrightarrow> sift_frame n h2 h3 \<Longrightarrow> sift_frame n h1 h3"
  using sift_frame_length [of n h1 h2] by (auto simp: sift_frame_def)

lemma sift_frame_mono: "sift_frame n h h' \<Longrightarrow> n \<le> m \<Longrightarrow> sift_frame m h h'"
  by (auto simp: sift_frame_def)

lemma ref_ok_distinct: "ref_ok h \<Longrightarrow> i < length (heap h) \<Longrightarrow> j < length (heap h) \<Longrightarrow>
  node_id (heap h ! i) = node_id (heap h ! j) \<Longrightarrow> i = j"
  unfolding ref_ok_def by (metis option.inject)

lemma ref_ok_swap:
  assumes "ref_ok h" and "i < length (heap h)" and "j < length (heap h)" and "ids_in h"
  shows "ref_ok (h\<lparr>heap := swap_at (heap h) i j,
    ref := (ref h)[node_id (heap h ! j) := Some i, node_id (heap h ! i) := Some j]\<rparr>)"
    (is "ref_ok ?h")
proof -
  let ?xs = "heap h" and ?a = "node_id (heap h ! i)" and ?b = "node_id (heap h ! j)"
  have ab: "?a < length (ref h)" "?b < length (ref h)"
    using assms by (auto simp: ids_in_def)
  have R: "ref h ! node_id (?xs ! k) = Some k" if "k < length ?xs" for k
    using assms(1) that by (auto simp: ref_ok_def)
  have D: "node_id (?xs ! k) = node_id (?xs ! l) \<longleftrightarrow> k = l"
    if "k < length ?xs" "l < length ?xs" for k l
    using ref_ok_distinct [OF assms(1)] that by auto
  have inr: "node_id (?xs ! k) < length (ref h)" if "k < length ?xs" for k
    using assms(4) that by (auto simp: ids_in_def)
  have nth: "heap ?h ! k = ?xs ! (if k = i then j else if k = j then i else k)"
    if "k < length ?xs" for k
    using nth_swap_at [OF assms(2,3) that] by simp
  have upd: "ref ?h ! m = (if m = ?a then Some j else if m = ?b then Some i else ref h ! m)" for m
    using ab by (simp add: nth_list_update)
  have "ref ?h ! node_id (heap ?h ! k) = Some k" if "k < length ?xs" for k
    using R [OF that] D [OF that assms(2)] D [OF that assms(3)] D [OF assms(2,3)]
    by (simp only: nth [OF that] upd) auto
  moreover have "k < length ?xs \<and> node_id (heap ?h ! k) = m"
    if m: "m < length (ref h)" "ref ?h ! m = Some k" for m k
  proof -
    consider "m = ?a" "k = j" | "m \<noteq> ?a" "m = ?b" "k = i" | "m \<noteq> ?a" "m \<noteq> ?b" "ref h ! m = Some k"
      using m(2) unfolding upd by (cases "m = ?a"; cases "m = ?b") auto
    then show ?thesis
    proof cases
      case 3
      then have "k < length ?xs" "node_id (?xs ! k) = m"
        using assms(1) m(1) by (auto simp: ref_ok_def)
      with 3 nth [of k] show ?thesis by auto
    qed (use assms(2,3) nth in auto)
  qed
  ultimately show ?thesis
    unfolding ref_ok_def by simp
qed

lemma SwapNode_Some:
  assumes "i < n" and "j < n" and "n \<le> length (heap h)" and "ids_in h"
  obtains h' where "SwapNode i j h = Some h'" and "heap h' = swap_at (heap h) i j"
    and "sift_frame n h h'"
proof -
  have ij: "i < length (heap h)" "j < length (heap h)" using assms by auto
  let ?h = "h\<lparr>heap := swap_at (heap h) i j,
    ref := (ref h)[node_id (heap h ! j) := Some i, node_id (heap h ! i) := Some j]\<rparr>"
  have nth: "swap_at (heap h) i j ! i = heap h ! j" "swap_at (heap h) i j ! j = heap h ! i"
    using ij by (simp_all add: nth_swap_at)
  have "node_id (heap h ! i) < length (ref h)" "node_id (heap h ! j) < length (ref h)"
    using ij assms(4) by (simp_all add: ids_in_def)
  then have eq: "SwapNode i j h = Some ?h"
    using ij by (simp add: SwapNode_def set_ref_def Let_def nth)
  have "swap_at (heap h) i j ! p = heap h ! p" if "n \<le> p" "p < length (heap h)" for p
    using that assms(1,2) nth_swap_at [OF ij that(2)] by simp
  then have "sift_frame n h ?h"
    using ref_ok_swap [of h i j] ij assms(4) by (simp add: sift_frame_def)
  with eq show thesis using that by simp
qed

lemma SiftDown_loop_frame:
  "i < n \<Longrightarrow> n \<le> length (heap h) \<Longrightarrow> ids_in h \<Longrightarrow>
   \<exists>j h'. SiftDown_loop i n h = Some (j, h') \<and> i \<le> j \<and> sift_frame n h h'"
proof (induction i n h rule: SiftDown_loop.induct)
  case (1 i n h)
  let ?c = "smaller_child (2 * i + 1) n (heap h)"
  show ?case
  proof (cases "2 * i + 1 < n \<and> \<not> expires (heap h ! i) < expires (heap h ! ?c)")
    case True
    have c: "?c < n" "i < ?c" using smaller_child_bounds True by auto
    obtain h1 where h1: "SwapNode i ?c h = Some h1" "sift_frame n h h1"
      using SwapNode_Some [of i n ?c h] "1.prems" c by auto
    then have "\<exists>j h'. SiftDown_loop ?c n h1 = Some (j, h') \<and> ?c \<le> j \<and> sift_frame n h1 h'"
      using "1.IH" [OF _ refl, of h1] True c "1.prems" sift_frame_ids sift_frame_length by simp
    with h1 True c show ?thesis
      by (auto simp: SiftDown_loop.simps [of i n h] Let_def intro: sift_frame_trans)
  qed (auto simp: SiftDown_loop.simps [of i n h] Let_def)
qed

lemma SiftDown_loop_heap:
  "SiftDown_loop i n h = Some (j, h') \<Longrightarrow> i < n \<Longrightarrow> n \<le> length (heap h) \<Longrightarrow> ids_in h \<Longrightarrow>
   down_hole n (heap h) i \<Longrightarrow> heap_ordered n (heap h')"
proof (induction i n h rule: SiftDown_loop.induct)
  case (1 i n h)
  let ?c = "smaller_child (2 * i + 1) n (heap h)"
  show ?case
  proof (cases "2 * i + 1 < n \<and> \<not> expires (heap h ! i) < expires (heap h ! ?c)")
    case True
    have c: "?c < n" "i < ?c" using smaller_child_bounds True by auto
    obtain h1 where h1: "SwapNode i ?c h = Some h1" "heap h1 = swap_at (heap h) i ?c"
      "sift_frame n h h1"
      using SwapNode_Some [of i n ?c h] "1.prems" c by auto
    have "both_hole n (heap h) i" using "1.prems"(5) by (auto simp: hole_defs)
    then have "down_hole n (heap h1) ?c"
      using swap_down_hole [of n "heap h" i ?c] h1(2) True "1.prems"(3) by simp
    then show ?thesis
      using "1.IH" [OF _ refl, of h1] "1.prems" True h1 c sift_frame_ids sift_frame_length
      by (simp add: SiftDown_loop.simps [of i n h] Let_def)
  next
    case False
    then have "h' = h" using "1.prems"(1)
      by (auto simp: SiftDown_loop.simps [of i n h] Let_def split: if_splits)
    moreover have "expires (heap h ! i) \<le> expires (heap h ! k)" if "k < n" "0 < k" "par k = i" for k
      using False that smaller_child_le [of i n k "heap h"] par_child [of k i] by fastforce
    ultimately show ?thesis
      using "1.prems"(5) by (auto simp: heap_ordered_def down_hole_def)
  qed
qed

lemma SiftDown_both:
  assumes "SiftDown i n h = Some (moved, h')" and "i < n" and "n \<le> length (heap h)"
    and "ids_in h" and hole: "both_hole n (heap h) i"
  shows "if moved then heap_ordered n (heap h') else h' = h \<and> up_hole n (heap h) i"
proof -
  let ?c = "smaller_child (2 * i + 1) n (heap h)"
  obtain j where j: "SiftDown_loop i n h = Some (j, h')" "moved = (i < j)"
    using assms(1-3) by (auto simp: SiftDown_def split: if_splits)
  show ?thesis
  proof (cases "2 * i + 1 < n \<and> \<not> expires (heap h ! i) < expires (heap h ! ?c)")
    case True
    have c: "?c < n" "i < ?c" using smaller_child_bounds True by auto
    obtain h1 where h1: "SwapNode i ?c h = Some h1" "heap h1 = swap_at (heap h) i ?c"
      "sift_frame n h h1"
      using SwapNode_Some [of i n ?c h] assms c by auto
    have step: "SiftDown_loop ?c n h1 = Some (j, h')"
      using j(1) True h1(1) by (simp add: SiftDown_loop.simps [of i n h] Let_def)
    have ok1: "n \<le> length (heap h1)" "ids_in h1"
      using assms(3,4) h1(3) sift_frame_ids sift_frame_length by auto
    have "down_hole n (heap h1) ?c"
      using swap_down_hole [OF hole assms(3), of ?c] h1(2) True by simp
    moreover have "?c \<le> j"
      using SiftDown_loop_frame [OF c(1) ok1] step by auto
    ultimately show ?thesis
      using SiftDown_loop_heap [OF step c(1) ok1] j(2) c(2) by simp
  next
    case False
    then have "h' = h" "j = i" using j(1)
      by (auto simp: SiftDown_loop.simps [of i n h] Let_def split: if_splits)
    moreover have "expires (heap h ! i) \<le> expires (heap h ! k)" if "k < n" "0 < k" "par k = i" for k
      using False that smaller_child_le [of i n k "heap h"] par_child [of k i] by fastforce
    ultimately show ?thesis
      using hole j(2) by (auto simp: up_hole_def both_hole_def)
  qed
qed

lemma SiftUp_loop_correct:
  "i < n \<Longrightarrow> n \<le> length (heap h) \<Longrightarrow> ids_in h \<Longrightarrow> stray_ok st h \<Longrightarrow> up_hole n (heap h) i \<Longrightarrow>
   \<exists>h'. SiftUp_loop st i h = Some h' \<and> sift_frame n h h' \<and> heap_ordered n (heap h')"
proof (induction st i h rule: SiftUp_loop.induct)
  case (1 st i h)
  show ?case
  proof (cases "0 < i \<and> expires (heap h ! i) < expires (heap h ! par i)")
    case True
    obtain h1 where h1: "SwapNode i (par i) h = Some h1" "heap h1 = swap_at (heap h) i (par i)"
      "sift_frame n h h1"
      using SwapNode_Some [of i n "par i" h] "1.prems" by (auto simp: par_lt)
    have "up_hole n (heap h1) (par i)"
      using swap_up_hole "1.prems" True h1(2) by simp
    moreover have "n \<le> length (heap h1)" "ids_in h1" "stray_ok st h1"
      using "1.prems" h1(3) sift_frame_ids sift_frame_length sift_frame_stray by auto
    ultimately have "\<exists>h'. SiftUp_loop st (par i) h1 = Some h' \<and> sift_frame n h1 h' \<and>
        heap_ordered n (heap h')"
      using "1.IH" [of "par i" h1] True h1(1) par_lt [OF "1.prems"(1)] by (simp add: par_def)
    with h1 True show ?thesis
      by (auto simp: SiftUp_loop.simps [of st i h] Let_def par_def [symmetric]
          simp del: One_nat_def intro: sift_frame_trans)
  next
    case False
    have "heap_ordered n (heap h)"
      using False "1.prems"(5) by (force simp: heap_ordered_def up_hole_def)
    moreover have "st \<le> expires (heap h ! i)"
      using "1.prems" by (auto simp: stray_ok_def)
    ultimately have "SiftUp_loop st i h = Some h"
      using False by (cases "i = 0"; subst SiftUp_loop.simps; simp add: Let_def par_def)
    with \<open>heap_ordered n (heap h)\<close> show ?thesis by simp
  qed
qed

lemma sift_both_ways:
  assumes "i < n" and "n \<le> length (heap h)" and "ids_in h" and "stray_ok st h"
    and hole: "both_hole n (heap h) i"
  obtains h' where
    "do { (moved, h2) \<leftarrow> SiftDown i n h; if \<not> moved then SiftUp st i h2 else Some h2 } = Some h'"
    and "sift_frame n h h'" and "heap_ordered n (heap h')"
proof -
  obtain j h2 where loop: "SiftDown_loop i n h = Some (j, h2)" "sift_frame n h h2"
    using SiftDown_loop_frame [OF assms(1-3)] by blast
  then have sd: "SiftDown i n h = Some (i < j, h2)"
    using assms(1,2) by (simp add: SiftDown_def)
  have both: "if i < j then heap_ordered n (heap h2) else h2 = h \<and> up_hole n (heap h) i"
    using SiftDown_both [OF sd assms(1-3) hole] .
  show thesis
  proof (cases "i < j")
    case True
    then show thesis using that [of h2] sd loop both by simp
  next
    case False
    then have "\<exists>h'. SiftUp st i h2 = Some h' \<and> sift_frame n h2 h' \<and> heap_ordered n (heap h')"
      using SiftUp_loop_correct [OF assms(1-4)] both assms(1,2) by (simp add: SiftUp_def)
    with False sd both that show thesis by auto
  qed
qed

section \<open>Removing a node\<close>

lemma swap_last_both_hole:
  assumes "heap_ordered (Suc n) xs" and "i < n" and "length xs = Suc n"
  shows "both_hole n (swap_at xs i n) i"
proof -
  have nth: "swap_at xs i n ! k = (if k = i then xs ! n else xs ! k)" if "k < n" for k
    using nth_swap_at [of i xs n k] assms(2,3) that by simp
  have le: "expires (xs ! par k) \<le> expires (xs ! k)" if "k < n" "0 < k" for k
    using assms(1) that by (auto simp: heap_ordered_def)
  have "expires (swap_at xs i n ! par k) \<le> expires (swap_at xs i n ! k)"
    if "k < n" "0 < k" "k \<noteq> i" "par k \<noteq> i" for k
    using that le nth par_lt [OF that(1)] by simp
  moreover have "expires (swap_at xs i n ! par i) \<le> expires (swap_at xs i n ! k)"
    if "k < n" "0 < k" "par k = i" "0 < i" for k
  proof -
    have "i < k" using that par_less [of k] by simp
    then have "swap_at xs i n ! k = xs ! k" using nth that(1) by simp
    moreover have "swap_at xs i n ! par i = xs ! par i"
      using nth [OF par_lt [OF assms(2)]] par_less [OF that(4)] by (metis less_irrefl)
    ultimately show ?thesis
      using le [OF assms(2) that(4)] le [OF that(1,2)] that(3) by simp
  qed
  ultimately show ?thesis
    by (auto simp: both_hole_def bridge_def)
qed

lemma Del_nonlast:
  assumes "Suc n = length (heap h)" and "i < n" and "heap_ordered (Suc n) (heap h)"
    and "ids_in h" and "stray_ok st h"
  obtains h3 where
    "Del st i h = Some (h3\<lparr>ref := (ref h3)[node_id (heap h3 ! i) := None], heap := butlast (heap h3)\<rparr>)"
    and "sift_frame (Suc n) h h3" and "heap_ordered n (heap h3)" and "heap h3 ! n = heap h ! i"
proof -
  obtain h1 where h1: "SwapNode i n h = Some h1" "heap h1 = swap_at (heap h) i n"
    "sift_frame (Suc n) h h1"
    using SwapNode_Some [of i "Suc n" n h] assms by auto
  have ok1: "n \<le> length (heap h1)" "ids_in h1" "stray_ok st h1" "length (heap h1) = Suc n"
    using h1(3) assms sift_frame_ids sift_frame_length sift_frame_stray by auto
  have "both_hole n (heap h1) i"
    using swap_last_both_hole [OF assms(3,2)] assms(1) h1(2) by simp
  then obtain h3 where h3:
    "do { (moved, h2) \<leftarrow> SiftDown i n h1; if \<not> moved then SiftUp st i h2 else Some h2 } = Some h3"
    "sift_frame n h1 h3" "heap_ordered n (heap h3)"
    using sift_both_ways [OF assms(2) ok1(1-3)] by blast
  have fr: "sift_frame (Suc n) h h3"
    using sift_frame_trans [OF h1(3)] sift_frame_mono [OF h3(2)] by simp
  then have "ids_in h3" "length (heap h3) = Suc n"
    using assms(1,4) sift_frame_ids sift_frame_length by auto
  then have "node_id (heap h3 ! i) < length (ref h3)"
    using assms(2) by (simp add: ids_in_def)
  then have "Del st i h =
      Some (h3\<lparr>ref := (ref h3)[node_id (heap h3 ! i) := None], heap := butlast (heap h3)\<rparr>)"
    using h1(1) h3(1) ok1(4) assms(2) by (simp add: Del_def set_ref_def assms(1) [symmetric])
  moreover have "heap h3 ! n = heap h ! i"
  proof -
    have "heap h3 ! n = heap h1 ! n"
      using h3(2) ok1(4) by (simp add: sift_frame_def)
    also have "\<dots> = heap h ! i"
      using nth_swap_at [of i "heap h" n n] assms(1,2) h1(2) by simp
    finally show ?thesis .
  qed
  ultimately show thesis using that fr h3(3) by blast
qed

lemma mset_butlast: "xs \<noteq> [] \<Longrightarrow> mset (butlast xs) = mset xs - {#last xs#}"
  by (cases xs rule: rev_cases) auto

lemma heap_ordered_butlast:
  "heap_ordered n xs \<Longrightarrow> n \<le> length xs - 1 \<Longrightarrow> heap_ordered n (butlast xs)"
  by (auto simp: heap_ordered_def nth_butlast par_lt)

lemma Del_correct:
  assumes "i < length (heap h)" and "heap_ordered (length (heap h)) (heap h)"
    and "ids_in h" and "stray_ok st h"
  shows "\<exists>h'. Del st i h = Some h' \<and> mset (heap h') = mset (heap h) - {#heap h ! i#} \<and>
    heap_ordered (length (heap h')) (heap h') \<and> ids_in h' \<and> stray_ok st h' \<and>
    length (ref h') = length (ref h)"
proof -
  obtain n where n: "Suc n = length (heap h)" using assms(1) by (cases "length (heap h)") auto
  have key: ?thesis
    if h': "Del st i h = Some h'" "heap h' = butlast (heap h3)" "length (ref h') = length (ref h)"
      and h3: "mset (heap h3) = mset (heap h)" "heap_ordered n (heap h3)" "heap h3 ! n = heap h ! i"
    for h' h3
  proof -
    have len: "length (heap h3) = Suc n" using h3(1) n by (metis mset_eq_length)
    then have ne: "heap h3 \<noteq> []" by auto
    then have "last (heap h3) = heap h ! i"
      using h3(3) len by (simp add: last_conv_nth)
    with ne have ms: "mset (heap h') = mset (heap h) - {#heap h ! i#}"
      using h'(2) h3(1) by (simp add: mset_butlast)
    then have "set (heap h') \<subseteq> set (heap h)"
      by (metis diff_subset_eq_self mset_subset_eqD set_mset_mset subsetI)
    then have "ids_in h'" "stray_ok st h'"
      using assms(3,4) h'(3) by (auto simp: ids_in_def stray_ok_def)
    then show ?thesis
      using ms h' h3(2) len by (auto intro: heap_ordered_butlast)
  qed
  show ?thesis
  proof (cases "i < n")
    case True
    obtain h3 where h3: "Del st i h = Some (h3\<lparr>ref := (ref h3)[node_id (heap h3 ! i) := None],
        heap := butlast (heap h3)\<rparr>)" "sift_frame (Suc n) h h3" "heap_ordered n (heap h3)"
        "heap h3 ! n = heap h ! i"
      using Del_nonlast [OF n True _ assms(3,4)] n assms(2) by auto
    show ?thesis
      by (rule key [OF h3(1), of h3]) (use h3 in \<open>simp_all add: sift_frame_def\<close>)
  next
    case False
    with assms(1) n have "i = n" by simp
    moreover have "node_id (heap h ! i) < length (ref h)"
      using assms(1,3) by (simp add: ids_in_def)
    ultimately show ?thesis
      using assms(1,2) n
      by (intro key [of "h\<lparr>ref := (ref h)[node_id (heap h ! i) := None], heap := butlast (heap h)\<rparr>" h])
        (auto simp: Del_def set_ref_def heap_ordered_def)
  qed
qed

section \<open>The timers as a map\<close>

lemma ref_ok_distinct_ids: "ref_ok h \<Longrightarrow> distinct (map node_id (heap h))"
  using ref_ok_distinct [of h] by (auto simp: distinct_conv_nth)

lemma timers_Some:
  "ref_ok h \<Longrightarrow> timers h k = Some e \<longleftrightarrow> (\<exists>nd\<in>set (heap h). node_id nd = k \<and> expires nd = e)"
  using ref_ok_distinct_ids [of h]
  by (auto simp: timers_def map_of_eq_Some_iff comp_def)

lemma timers_None: "timers h k = None \<longleftrightarrow> k \<notin> node_id ` set (heap h)"
  by (auto simp: timers_def map_of_eq_None_iff image_iff)

lemma timers_agree:
  assumes "ref_ok h" and "ref_ok h'"
    and same: "\<And>nd. node_id nd = k \<Longrightarrow> nd \<in> set (heap h') \<longleftrightarrow> nd \<in> set (heap h)"
  shows "timers h' k = timers h k"
proof (cases "timers h k")
  case None
  then have "timers h' k = None" using same by (auto simp: timers_None)
  with None show ?thesis by simp
next
  case (Some e)
  then have "\<exists>nd\<in>set (heap h). node_id nd = k \<and> expires nd = e"
    using timers_Some [OF assms(1)] by simp
  then have "timers h' k = Some e"
    using timers_Some [OF assms(2)] same by blast
  with Some show ?thesis by simp
qed

lemma timers_eqI:
  "ref_ok h \<Longrightarrow> ref_ok h' \<Longrightarrow> set (heap h') = set (heap h) \<Longrightarrow> timers h' = timers h"
  by (rule ext, rule timers_agree) simp_all

lemma timers_memI: "ref_ok h \<Longrightarrow> nd \<in> set (heap h) \<Longrightarrow> timers h (node_id nd) = Some (expires nd)"
  using timers_Some by blast

lemma ref_None_timers:
  assumes "ref_ok h" and "ids_in h" and "k < length (ref h)"
  shows "ref h ! k = None \<longleftrightarrow> timers h k = None"
proof
  assume none: "ref h ! k = None"
  have "node_id (heap h ! i) \<noteq> k" if "i < length (heap h)" for i
    using assms(1) none that by (auto simp: ref_ok_def)
  then show "timers h k = None"
    by (fastforce simp: timers_None in_set_conv_nth)
next
  assume none: "timers h k = None"
  show "ref h ! k = None"
  proof (rule ccontr)
    assume "ref h ! k \<noteq> None"
    then obtain i where "i < length (heap h)" "node_id (heap h ! i) = k"
      using assms(1,3) by (auto simp: ref_ok_def)
    then have "k \<in> node_id ` set (heap h)" by (metis imageI nth_mem)
    with none show False by (simp add: timers_None)
  qed
qed

lemma timer_okD: "timer_ok h \<Longrightarrow> heap_ordered (length (heap h)) (heap h)"
  "timer_ok h \<Longrightarrow> ids_in h" "timer_ok h \<Longrightarrow> ref_ok h" "timer_ok h \<Longrightarrow> ref h \<noteq> []"
  by (auto simp: timer_ok_def)

text \<open>A sift over the whole heap that ends in heap order keeps the invariant and the map.\<close>

lemma sifted_timer_ok:
  assumes "sift_frame (length (heap h)) h h'" and "heap_ordered (length (heap h)) (heap h')"
    and "ids_in h" and "ref_ok h" and "ref h \<noteq> []"
  shows "timer_ok h'" and "timers h' = timers h" and "stray_ok st h' = stray_ok st h"
proof -
  have "ref_ok h'" "length (ref h') = length (ref h)"
    using assms(1,4) by (auto simp: sift_frame_def)
  then show "timer_ok h'"
    using assms sift_frame_length [OF assms(1)] sift_frame_ids [OF assms(1)]
    by (auto simp: timer_ok_def)
  show "timers h' = timers h"
    using timers_eqI [OF assms(4) \<open>ref_ok h'\<close>] sift_frame_set [OF assms(1)] by simp
  show "stray_ok st h' = stray_ok st h"
    by (rule sift_frame_stray [OF assms(1)])
qed

section \<open>Adding and moving a timer\<close>

lemma ref_resize_ok:
  assumes "timer_ok h" and "length (ref h) \<le> k"
  shows "timer_ok (h\<lparr>ref := ref_resize (k * 2) (ref h)\<rparr>)" and
    "k < length (ref_resize (k * 2) (ref h))"
proof -
  have "0 < length (ref h)" using assms(1) by (simp add: timer_ok_def)
  then have len: "length (ref h) \<le> k * 2" "0 < k"
    using assms(2) by linarith+
  then show "k < length (ref_resize (k * 2) (ref h))"
    by (simp add: ref_resize_def)
  have nth: "ref_resize (k * 2) (ref h) ! m = (if m < length (ref h) then ref h ! m else None)"
    if "m < k * 2" for m
    using len that by (auto simp: ref_resize_def nth_append)
  show "timer_ok (h\<lparr>ref := ref_resize (k * 2) (ref h)\<rparr>)"
    using assms len nth
    by (auto simp: timer_ok_def ids_in_def ref_ok_def ref_resize_def nth_append split: if_splits)
qed

lemma heap_ordered_update:
  assumes "heap_ordered n xs" and "i < n" and "n \<le> length xs" and "node_id nd = node_id (xs ! i)"
  shows "both_hole n (xs[i := nd]) i"
    and "expires (xs ! i) \<le> expires nd \<Longrightarrow> down_hole n (xs[i := nd]) i"
proof -
  have le: "expires (xs ! par k) \<le> expires (xs ! k)" if "k < n" "0 < k" for k
    using assms(1) that by (auto simp: heap_ordered_def)
  have br: "bridge n (xs[i := nd]) i"
    unfolding bridge_def
  proof safe
    fix k assume k: "k < n" "0 < k" "i = par k" "0 < par k"
    have "par k \<noteq> k" "par k \<noteq> par (par k)"
      using par_less [of k] par_less [of "par k"] k by linarith+
    then show "expires (xs[par k := nd] ! par (par k)) \<le> expires (xs[par k := nd] ! k)"
      using le [of k] le [of "par k"] k par_lt [of k n] by simp
  qed
  then show "both_hole n (xs[i := nd]) i"
    using le assms(2,3) by (auto simp: both_hole_def nth_list_update)
  have "expires (xs[i := nd] ! par k) \<le> expires (xs[i := nd] ! k)"
    if "expires (xs ! i) \<le> expires nd" "k < n" "0 < k" "par k \<noteq> i" for k
    using le [of k] that assms(2,3) by (cases "k = i") (auto intro: order_trans)
  with br show "expires (xs ! i) \<le> expires nd \<Longrightarrow> down_hole n (xs[i := nd]) i"
    by (simp add: down_hole_def)
qed

lemma set_expires_ok:
  assumes ok: "timer_ok h" and i: "ref h ! k = Some i" "k < length (ref h)"
    and st: "stray_ok st h" "st \<le> t"
  obtains h1 where "set_expires i t h = Some h1" and "i < length (heap h)"
    and "heap h1 = (heap h)[i := (heap h ! i)\<lparr>expires := t\<rparr>]" and "ids_in h1"
    and "ref_ok h1" and "stray_ok st h1" and "ref h1 = ref h"
    and "timers h1 = (timers h)(k \<mapsto> t)" and "timers h k = Some (expires (heap h ! i))"
proof -
  let ?h = "h\<lparr>heap := (heap h)[i := (heap h ! i)\<lparr>expires := t\<rparr>]\<rparr>"
  have il: "i < length (heap h)" "node_id (heap h ! i) = k"
    using timer_okD(3) [OF ok] i by (auto simp: ref_ok_def)
  have nid: "node_id (heap ?h ! m) = node_id (heap h ! m)" if "m < length (heap h)" for m
    using that by (cases "m = i") simp_all
  then have rok: "ref_ok ?h"
    using timer_okD(3) [OF ok] unfolding ref_ok_def by simp
  have ids: "node_id ` set (heap ?h) = node_id ` set (heap h)"
  proof -
    have "map node_id (heap ?h) = map node_id (heap h)"
      by (simp add: map_update list_update_same_conv il)
    then show ?thesis by (metis list.set_map)
  qed
  have "timers ?h m = ((timers h)(k \<mapsto> t)) m" for m
  proof (cases "m = k")
    case True
    have "(heap h ! i)\<lparr>expires := t\<rparr> \<in> set (heap ?h)"
      using il(1) by (simp add: set_update_memI)
    from timers_memI [OF rok this] True il show ?thesis by simp
  next
    case False
    have "nd \<in> set (heap ?h) \<longleftrightarrow> nd \<in> set (heap h)" if "node_id nd = m" for nd
      using that False il by (auto simp: in_set_conv_nth nth_list_update)
    from timers_agree [OF timer_okD(3) [OF ok] rok this] False show ?thesis by simp
  qed
  then have "timers ?h = (timers h)(k \<mapsto> t)" by (rule ext)
  moreover have "ids_in ?h"
    using timer_okD(2) [OF ok] ids by (force simp: ids_in_def)
  moreover have "stray_ok st ?h"
    using st by (auto simp: stray_ok_def dest!: subsetD [OF set_update_subset_insert])
  moreover have "timers h k = Some (expires (heap h ! i))"
    using il by (auto simp: timers_Some [OF timer_okD(3) [OF ok]])
  ultimately show thesis
    using that [of ?h] il(1) rok by (auto simp: set_expires_def)
qed

lemma Add_existing:
  assumes ok: "timer_ok h" and i: "ref h ! k = Some i" "k < length (ref h)"
    and st: "stray_ok st h" "st \<le> t"
  obtains h1 h' where "set_expires i t h = Some h1"
    and "do { (moved, h2) \<leftarrow> SiftDown i (length (heap h1)) h1;
              if \<not> moved then SiftUp st i h2 else Some h2 } = Some h'"
    and "timer_ok h'" and "stray_ok st h'" and "timers h' = (timers h)(k \<mapsto> t)"
proof -
  obtain h1 where h1: "set_expires i t h = Some h1" "i < length (heap h)"
    "heap h1 = (heap h)[i := (heap h ! i)\<lparr>expires := t\<rparr>]" "ids_in h1" "ref_ok h1"
    "stray_ok st h1" "ref h1 = ref h" "timers h1 = (timers h)(k \<mapsto> t)"
    by (rule set_expires_ok [OF ok i st])
  have len: "length (heap h1) = length (heap h)" using h1(3) by simp
  have hole: "both_hole (length (heap h1)) (heap h1) i"
    using heap_ordered_update(1) [OF timer_okD(1) [OF ok] h1(2) order_refl,
        of "(heap h ! i)\<lparr>expires := t\<rparr>"] h1(3) len by simp
  obtain h' where "do { (moved, h2) \<leftarrow> SiftDown i (length (heap h1)) h1;
      if \<not> moved then SiftUp st i h2 else Some h2 } = Some h'"
    and "sift_frame (length (heap h1)) h1 h'" and "heap_ordered (length (heap h1)) (heap h')"
    using sift_both_ways [OF _ order_refl h1(4,6) hole] h1(2) len by auto
  moreover from this have "timer_ok h'" "timers h' = timers h1" "stray_ok st h' = stray_ok st h1"
    using sifted_timer_ok h1(4,5,7) timer_okD(4) [OF ok] by auto
  ultimately show thesis using that h1 by simp
qed

lemma push_ok:
  fixes t :: int
  assumes ok: "timer_ok h" and k: "ref h ! k = None" "k < length (ref h)"
    and st: "stray_ok st h" "st \<le> t"
  defines "h1 \<equiv> h\<lparr>ref := (ref h)[k := Some (length (heap h))],
                   heap := heap h @ [\<lparr>node_id = k, expires = t\<rparr>]\<rparr>"
  shows "ids_in h1" and "ref_ok h1" and "stray_ok st h1"
    and "up_hole (length (heap h1)) (heap h1) (length (heap h))"
    and "timers h1 = (timers h)(k \<mapsto> t)"
proof -
  note okD = timer_okD [OF ok]
  have fresh: "node_id (heap h ! i) \<noteq> k" if "i < length (heap h)" for i
  proof -
    have "ref h ! node_id (heap h ! i) = Some i"
      using okD(3) that unfolding ref_ok_def by blast
    with k(1) show ?thesis by auto
  qed
  show rok: "ref_ok h1"
    unfolding ref_ok_def
  proof (intro conjI allI impI)
    fix i assume "i < length (heap h1)"
    then show "ref h1 ! node_id (heap h1 ! i) = Some i"
      using okD(3) fresh [of i] k(2) by (cases "i = length (heap h)")
        (auto simp: h1_def ref_ok_def nth_append)
  next
    fix m i assume "m < length (ref h1)" and "ref h1 ! m = Some i"
    then show "i < length (heap h1)" and "node_id (heap h1 ! i) = m"
      using okD(3) by (cases "m = k"; force simp: h1_def ref_ok_def nth_append)+
  qed
  have "timers h1 m = ((timers h)(k \<mapsto> t)) m" for m
  proof (cases "m = k")
    case True
    then show ?thesis
      using timers_memI [OF rok, of "\<lparr>node_id = k, expires = t\<rparr>"] by (simp add: h1_def)
  next
    case False
    then have "timers h1 m = timers h m"
      by (intro timers_agree [OF okD(3) rok]) (auto simp: h1_def)
    with False show ?thesis by simp
  qed
  then show "timers h1 = (timers h)(k \<mapsto> t)" by (rule ext)
  show "ids_in h1" using okD(2) k(2) by (simp add: h1_def ids_in_def)
  show "stray_ok st h1" using st by (simp add: h1_def stray_ok_def)
  have "par j \<noteq> length (heap h)" if "j < length (heap h1)" "0 < j" for j
    using par_less [OF that(2)] that(1) by (simp add: h1_def)
  then show "up_hole (length (heap h1)) (heap h1) (length (heap h))"
    using okD(1) par_lt
    by (auto simp: h1_def up_hole_def bridge_def heap_ordered_def nth_append less_Suc_eq)
qed

theorem Add_correct:
  assumes ok: "timer_ok h" and st: "stray_ok st h" "st \<le> now + MS timeOut" and "0 \<le> tid"
  shows "\<exists>h'. Add st tid timeOut now h = Some h' \<and> timer_ok h' \<and> stray_ok st h' \<and>
    timers h' = (timers h)(nat tid \<mapsto> now + MS timeOut)"
proof -
  define k h0 where "k = nat tid"
    and "h0 = (if k \<ge> length (ref h) then h\<lparr>ref := ref_resize (k * 2) (ref h)\<rparr> else h)"
  have h0: "timer_ok h0" "k < length (ref h0)" "heap h0 = heap h"
    using ref_resize_ok [OF ok, of k] ok by (auto simp: h0_def)
  then have st0: "stray_ok st h0" and t0: "timers h0 = timers h"
    using st by (simp_all add: stray_ok_def timers_def)
  show ?thesis
  proof (cases "ref h0 ! k")
    case (Some i)
    show ?thesis
      by (rule Add_existing [OF h0(1) Some h0(2) st0 st(2)])
        (use h0(2) t0 Some \<open>0 \<le> tid\<close> in \<open>auto simp: Add_def Let_def k_def h0_def\<close>)
  next
    case None
    let ?h1 = "h0\<lparr>ref := (ref h0)[k := Some (length (heap h0))],
      heap := heap h0 @ [\<lparr>node_id = k, expires = now + MS timeOut\<rparr>]\<rparr>"
    note push = push_ok [OF h0(1) None h0(2) st0 st(2)]
    obtain h' where h': "SiftUp_loop st (length (heap h0)) ?h1 = Some h'"
      "sift_frame (length (heap ?h1)) ?h1 h'" "heap_ordered (length (heap ?h1)) (heap h')"
      using SiftUp_loop_correct [OF _ order_refl push(1,3,4)] by auto
    have "ref ?h1 \<noteq> []" using h0(2) by auto
    note sifted_timer_ok [OF h'(2,3) push(1,2) this]
    with push(3,5) h'(1) h0(2) None \<open>0 \<le> tid\<close> t0 show ?thesis
      by (auto simp: Add_def Let_def k_def h0_def set_ref_def SiftUp_def)
  qed
qed

theorem Adjust_correct:
  assumes ok: "timer_ok h" and id: "0 \<le> tid" "timers h (nat tid) = Some t"
    and later: "t \<le> now + MS newExpires"
  shows "\<exists>h'. Adjust tid newExpires now h = Some h' \<and> timer_ok h' \<and>
    timers h' = (timers h)(nat tid \<mapsto> now + MS newExpires)"
proof -
  let ?k = "nat tid" and ?t = "now + MS newExpires"
  define st where "st = Min (insert ?t (expires ` set (heap h)))"
  have st: "stray_ok st h" "st \<le> ?t" by (auto simp: st_def stray_ok_def)
  have mem: "?k \<in> node_id ` set (heap h)"
    using id(2) timers_None [of h ?k] by auto
  then have k: "?k < length (ref h)"
    using timer_okD(2) [OF ok] by (auto simp: ids_in_def)
  then obtain i where i: "ref h ! ?k = Some i"
    using ref_None_timers [OF timer_okD(3,2) [OF ok] k] id(2) by auto
  obtain h1 where h1: "set_expires i ?t h = Some h1" "i < length (heap h)"
    "heap h1 = (heap h)[i := (heap h ! i)\<lparr>expires := ?t\<rparr>]" "ids_in h1" "ref_ok h1"
    "ref h1 = ref h" "timers h1 = (timers h)(?k \<mapsto> ?t)" "timers h ?k = Some (expires (heap h ! i))"
    by (rule set_expires_ok [OF ok i k st])
  have len: "length (heap h1) = length (heap h)" using h1(3) by simp
  have hole: "down_hole (length (heap h1)) (heap h1) i"
    using heap_ordered_update(2) [OF timer_okD(1) [OF ok] h1(2) order_refl,
        of "(heap h ! i)\<lparr>expires := ?t\<rparr>"] h1(3,8) id later len by simp
  obtain j h' where h': "SiftDown_loop i (length (heap h1)) h1 = Some (j, h')"
    "sift_frame (length (heap h1)) h1 h'"
    using SiftDown_loop_frame [OF _ order_refl h1(4)] h1(2) len by fastforce
  moreover from this have "heap_ordered (length (heap h1)) (heap h')"
    using SiftDown_loop_heap [OF h'(1) _ order_refl h1(4) hole] h1(2) len by simp
  ultimately have "timer_ok h'" "timers h' = timers h1"
    using sifted_timer_ok h1(4-6) timer_okD(4) [OF ok] by auto
  with h' h1 id(1) k i len mem show ?thesis
    by (auto simp: Adjust_def SiftDown_def)
qed

section \<open>The interface: a map of expiry times\<close>

text \<open>What the server relies on: an entry is set by \<open>add\<close> and moved forward by \<open>adjust\<close>.\<close>

datatype timer_op = OpAdd nat int | OpAdjust nat int

fun op_time :: "timer_op \<Rightarrow> int" where
  "op_time (OpAdd k now) = now"
| "op_time (OpAdjust k now) = now"

fun run_ops ::
  "(nat \<Rightarrow> int \<Rightarrow> 'h \<Rightarrow> 'h option) \<Rightarrow> (nat \<Rightarrow> int \<Rightarrow> 'h \<Rightarrow> 'h option) \<Rightarrow> timer_op list \<Rightarrow> 'h \<Rightarrow> 'h option"
where
  "run_ops add adjust [] h = Some h"
| "run_ops add adjust (OpAdd k now # ops) h = Option.bind (add k now h) (run_ops add adjust ops)"
| "run_ops add adjust (OpAdjust k now # ops) h =
     Option.bind (adjust k now h) (run_ops add adjust ops)"

definition spec_add :: "(int \<Rightarrow> int) \<Rightarrow> nat \<Rightarrow> int \<Rightarrow> (nat \<Rightarrow> int option) \<Rightarrow> (nat \<Rightarrow> int option) option" where
  "spec_add due k now m = Some (m(k \<mapsto> due now))"

definition spec_adjust :: "(int \<Rightarrow> int) \<Rightarrow> nat \<Rightarrow> int \<Rightarrow> (nat \<Rightarrow> int option) \<Rightarrow> (nat \<Rightarrow> int option) option" where
  "spec_adjust due k now m = (if m k = None then None else Some (m(k \<mapsto> due now)))"

locale expiry_map =
  fixes ok :: "'h \<Rightarrow> bool"
    and pending :: "'h \<Rightarrow> nat \<Rightarrow> int option"
    and due :: "int \<Rightarrow> int"
    and floor_time :: int
    and add :: "nat \<Rightarrow> int \<Rightarrow> 'h \<Rightarrow> 'h option"
    and adjust :: "nat \<Rightarrow> int \<Rightarrow> 'h \<Rightarrow> 'h option"
  assumes due_mono: "a \<le> b \<Longrightarrow> due a \<le> due b"
    and add_law: "ok h \<Longrightarrow> floor_time \<le> now \<Longrightarrow>
      \<exists>h'. add k now h = Some h' \<and> ok h' \<and> pending h' = (pending h)(k \<mapsto> due now)"
    and adjust_law: "ok h \<Longrightarrow> floor_time \<le> now \<Longrightarrow> pending h k = Some e \<Longrightarrow> e \<le> due now \<Longrightarrow>
      \<exists>h'. adjust k now h = Some h' \<and> ok h' \<and> pending h' = (pending h)(k \<mapsto> due now)"
    and adjust_absent: "ok h \<Longrightarrow> pending h k = None \<Longrightarrow> adjust k now h = None"
begin

text \<open>With a clock that does not run backwards, any sequence of operations is the map's.\<close>

lemma run_refines:
  assumes "ok h" and "sorted (map op_time ops)" and "\<forall>op\<in>set ops. floor_time \<le> op_time op"
    and "\<forall>op\<in>set ops. \<forall>e\<in>ran (pending h). e \<le> due (op_time op)"
  shows "map_option pending (run_ops add adjust ops h) =
      run_ops (spec_add due) (spec_adjust due) ops (pending h) \<and>
    (\<forall>h'. run_ops add adjust ops h = Some h' \<longrightarrow> ok h')"
  using assms
proof (induction ops arbitrary: h)
  case (Cons op ops)
  have next_ok: "\<forall>op\<in>set ops. \<forall>e\<in>ran (pending h'). e \<le> due (op_time op)"
    if "pending h' = (pending h)(k \<mapsto> due (op_time op))" for h' k
    using that Cons.prems due_mono by (fastforce simp: ran_def split: if_splits)
  show ?case
  proof (cases op)
    case (OpAdd k now)
    then obtain h' where h': "add k now h = Some h'" "ok h'" "pending h' = (pending h)(k \<mapsto> due now)"
      using add_law [of h now k] Cons.prems by auto
    have "\<forall>op\<in>set ops. \<forall>e\<in>ran (pending h'). e \<le> due (op_time op)"
      using next_ok [of h' k] h'(3) OpAdd by simp
    then have "map_option pending (run_ops add adjust ops h') =
        run_ops (spec_add due) (spec_adjust due) ops (pending h') \<and>
        (\<forall>h''. run_ops add adjust ops h' = Some h'' \<longrightarrow> ok h'')"
      using Cons.IH [OF h'(2)] Cons.prems by simp
    then show ?thesis using OpAdd h'(1)
      by (simp add: spec_add_def [of due k now "pending h"] h'(3))
  next
    case (OpAdjust k now)
    show ?thesis
    proof (cases "pending h k")
      case None
      then show ?thesis using OpAdjust adjust_absent Cons.prems(1) by (simp add: spec_adjust_def)
    next
      case (Some e)
      moreover have "e \<le> due now" using Some OpAdjust Cons.prems(4) by (auto simp: ran_def)
      ultimately obtain h' where
        h': "adjust k now h = Some h'" "ok h'" "pending h' = (pending h)(k \<mapsto> due now)"
        using adjust_law [of h now k e] OpAdjust Cons.prems by auto
      have "\<forall>op\<in>set ops. \<forall>e\<in>ran (pending h'). e \<le> due (op_time op)"
        using next_ok [of h' k] h'(3) OpAdjust by simp
      then have "map_option pending (run_ops add adjust ops h') =
          run_ops (spec_add due) (spec_adjust due) ops (pending h') \<and>
          (\<forall>h''. run_ops add adjust ops h' = Some h'' \<longrightarrow> ok h'')"
        using Cons.IH [OF h'(2)] Cons.prems by simp
      then show ?thesis using OpAdjust h'(1) Some
        by (simp add: spec_adjust_def [of due k now "pending h"] h'(3))
    qed
  qed
qed simp

end

lemma stray_timers: "ref_ok h \<Longrightarrow> stray_ok st h \<longleftrightarrow> (\<forall>e\<in>ran (timers h). st \<le> e)"
  by (auto simp: stray_ok_def ran_def timers_Some)

lemma Adjust_absent:
  assumes "timer_ok h" and "timers h k = None"
  shows "Adjust (int k) T now h = None"
  using assms ref_None_timers [of h k] by (auto simp: Adjust_def timer_ok_def)

text \<open>What lies beside the heap may differ from call to call: \<open>st k now\<close> is what the call of
  \<open>Add\<close> for the id \<open>k\<close> at the reading \<open>now\<close> finds there.\<close>

definition timer_add :: "(nat \<Rightarrow> int \<Rightarrow> int) \<Rightarrow> int \<Rightarrow> nat \<Rightarrow> int \<Rightarrow> heap_timer \<Rightarrow> heap_timer option" where
  "timer_add st T k now = Add (st k now) (int k) T now"

definition timer_adjust :: "int \<Rightarrow> nat \<Rightarrow> int \<Rightarrow> heap_timer \<Rightarrow> heap_timer option" where
  "timer_adjust T k now = Adjust (int k) T now"

interpretation tm: expiry_map "\<lambda>h. timer_ok h \<and> stray_ok st h" timers "\<lambda>now. now + MS T" "st - MS T"
  "timer_add (\<lambda>_ _. st) T" "timer_adjust T" for st T
proof
  fix h :: heap_timer and now k e
  show "\<exists>h'. timer_add (\<lambda>_ _. st) T k now h = Some h' \<and> (timer_ok h' \<and> stray_ok st h') \<and>
      timers h' = (timers h)(k \<mapsto> now + MS T)"
    if "timer_ok h \<and> stray_ok st h" "st - MS T \<le> now"
    using Add_correct [of h st now T "int k"] that by (simp add: timer_add_def)
  show "timer_adjust T k now h = None" if "timer_ok h \<and> stray_ok st h" "timers h k = None"
    using Adjust_absent that by (simp add: timer_adjust_def)
  assume a: "timer_ok h \<and> stray_ok st h" "st - MS T \<le> now" "timers h k = Some e" "e \<le> now + MS T"
  then obtain h' where "Adjust (int k) T now h = Some h'" "timer_ok h'"
    "timers h' = (timers h)(k \<mapsto> now + MS T)"
    using Adjust_correct [of h "int k" e now T] by auto
  moreover from this have "stray_ok st h'"
    using a stray_timers timer_okD(3) by (auto simp: ran_def)
  ultimately show "\<exists>h'. timer_adjust T k now h = Some h' \<and> (timer_ok h' \<and> stray_ok st h') \<and>
      timers h' = (timers h)(k \<mapsto> now + MS T)"
    by (simp add: timer_adjust_def)
qed simp

lemma HeapTimer_new_ok [simp]: "timer_ok HeapTimer_new" "stray_ok st HeapTimer_new"
  by (simp_all add: timer_ok_def HeapTimer_new_def heap_ordered_def ids_in_def ref_ok_def stray_ok_def)

lemma timers_new [simp]: "timers HeapTimer_new = Map.empty"
  by (simp add: timers_def HeapTimer_new_def)

subsection \<open>The value beside the heap\<close>

text \<open>
  A sift that ends at the root compares the node it moved with the stray value, and nothing else
  depends on it. So two values no larger than that node's expiry give the same result, and a
  call that returns would return the same with any smaller value.
\<close>

lemma SiftUp_loop_stray:
  "i < length (heap h) \<Longrightarrow> a \<le> expires (heap h ! i) \<Longrightarrow> b \<le> expires (heap h ! i) \<Longrightarrow>
   SiftUp_loop a i h = SiftUp_loop b i h"
proof (induction a i h rule: SiftUp_loop.induct)
  case (1 a i h)
  show ?case
  proof (cases "i = 0 \<or> \<not> expires (heap h ! ((i - 1) div 2)) > expires (heap h ! i)")
    case True
    show ?thesis
    proof (cases "i = 0")
      case True
      with "1.prems" show ?thesis by (simp add: SiftUp_loop.simps [of _ 0 h])
    next
      case False
      with True show ?thesis by (subst (1 2) SiftUp_loop.simps) simp
    qed
  next
    case False
    let ?p = "(i - 1) div 2"
    have p: "?p < length (heap h)" "?p \<noteq> i" using "1.prems"(1) False by auto
    have "SiftUp_loop a ?p h1 = SiftUp_loop b ?p h1" if h1: "SwapNode i ?p h = Some h1" for h1
    proof -
      have "heap h1 = swap_at (heap h) i ?p" using SwapNode_heap [OF h1] .
      then have "heap h1 ! ?p = heap h ! i" "length (heap h1) = length (heap h)"
        using p "1.prems"(1) by (simp_all add: swap_at_def)
      with "1.IH" [OF _ refl _ h1] False p(1) "1.prems" show ?thesis by simp
    qed
    with False show ?thesis
      by (cases "SwapNode i ?p h") (simp_all add: SiftUp_loop.simps [of _ i h] Let_def)
  qed
qed

lemma SiftUp_loop_mono:
  "SiftUp_loop a i h = Some r \<Longrightarrow> b \<le> a \<Longrightarrow> SiftUp_loop b i h = Some r"
proof (induction a i h rule: SiftUp_loop.induct)
  case (1 a i h)
  let ?p = "(i - 1) div 2"
  show ?case
  proof (cases "i = 0 \<or> \<not> expires (heap h ! ?p) > expires (heap h ! i)")
    case True
    with "1.prems" show ?thesis by (subst SiftUp_loop.simps, subst (asm) SiftUp_loop.simps) (auto split: if_splits)
  next
    case False
    with "1.prems"(1) obtain h1 where h1: "SwapNode i ?p h = Some h1" "SiftUp_loop a ?p h1 = Some r"
      by (cases "SwapNode i ?p h") (simp_all add: SiftUp_loop.simps [of _ i h] Let_def)
    with "1.IH" [OF _ refl _ h1(1) h1(2)] False "1.prems"(2) have "SiftUp_loop b ?p h1 = Some r" by simp
    with False h1(1) show ?thesis by (simp add: SiftUp_loop.simps [of _ i h] Let_def)
  qed
qed

lemma SiftUp_mono: "SiftUp a i h = Some r \<Longrightarrow> b \<le> a \<Longrightarrow> SiftUp b i h = Some r"
  by (auto simp: SiftUp_def intro: SiftUp_loop_mono split: if_splits)

lemma SiftDown_loop_index:
  "SiftDown_loop i n h = Some (j, h') \<Longrightarrow> i \<le> j \<and> (j = i \<longrightarrow> h' = h)"
proof (induction i n h rule: SiftDown_loop.induct)
  case (1 i n h)
  let ?c = "smaller_child (2 * i + 1) n (heap h)"
  have c: "i < ?c" by (simp add: smaller_child_def)
  show ?case
  proof (cases "2 * i + 1 < n \<and> \<not> expires (heap h ! i) < expires (heap h ! ?c)")
    case True
    with "1.prems" obtain h1 where h1: "SwapNode i ?c h = Some h1" "SiftDown_loop ?c n h1 = Some (j, h')"
      by (cases "SwapNode i ?c h") (simp_all add: SiftDown_loop.simps [of i n h] Let_def)
    with "1.IH" [OF _ refl _ h1(1) h1(2)] True c show ?thesis by simp
  qed (use "1.prems" in \<open>auto simp: SiftDown_loop.simps [of i n h] split: if_splits\<close>)
qed

lemma SiftDown_unmoved: "SiftDown i n h = Some (False, h') \<Longrightarrow> h' = h"
  using SiftDown_loop_index [of i n h] by (fastforce simp: SiftDown_def split: if_splits bind_splits)

lemma set_expires_nth: "set_expires i t h = Some h' \<Longrightarrow> i < length (heap h') \<and> expires (heap h' ! i) = t"
  by (auto simp: set_expires_def split: if_splits)

lemma SiftUp_stray:
  "a \<le> expires (heap h ! i) \<Longrightarrow> b \<le> expires (heap h ! i) \<Longrightarrow> SiftUp a i h = SiftUp b i h"
  using SiftUp_loop_stray [of i h a b] by (simp add: SiftUp_def)

text \<open>The two ways an \<open>Add\<close> ends: in a sift of the node whose expiry it has set, or without one.\<close>

lemma Add_shape:
  obtains (sift) i h1 where "\<And>st. Add st tid T now h = SiftUp st i h1" and "expires (heap h1 ! i) = now + MS T"
    | (no_sift) r where "\<And>st. Add st tid T now h = r"
proof -
  define h0 where "h0 = (if nat tid \<ge> length (ref h) then h\<lparr>ref := ref_resize (nat tid * 2) (ref h)\<rparr> else h)"
  show thesis
  proof (cases "0 \<le> tid \<and> nat tid < length (ref h0)")
    case False
    then show thesis by (intro no_sift [of None]) (auto simp: Add_def Let_def h0_def)
  next
    case ok: True
    show thesis
    proof (cases "ref h0 ! nat tid")
      case None
      with ok show thesis
        by (intro sift [of "length (heap h0)" "h0\<lparr>ref := (ref h0)[nat tid := Some (length (heap h0))],
              heap := heap h0 @ [\<lparr>node_id = nat tid, expires = now + MS T\<rparr>]\<rparr>"])
          (simp_all add: Add_def Let_def h0_def [symmetric] set_ref_def)
    next
      case (Some i)
      with ok have A: "Add st tid T now h = do { h1 \<leftarrow> set_expires i (now + MS T) h0;
          (moved, h2) \<leftarrow> SiftDown i (length (heap h1)) h1;
          if \<not> moved then SiftUp st i h2 else Some h2 }" for st
        by (simp add: Add_def Let_def h0_def [symmetric])
      show thesis
      proof (cases "set_expires i (now + MS T) h0")
        case None
        with A show thesis by (intro no_sift [of None]) simp
      next
        case h1: (Some h1)
        show thesis
        proof (cases "\<exists>h2. SiftDown i (length (heap h1)) h1 = Some (False, h2)")
          case True
          with SiftDown_unmoved have "SiftDown i (length (heap h1)) h1 = Some (False, h1)" by blast
          with A h1 set_expires_nth [OF h1] show thesis by (intro sift [of i h1]) simp_all
        next
          case False
          then show thesis using A h1
            by (cases "SiftDown i (length (heap h1)) h1") (auto intro: no_sift)
        qed
      qed
    qed
  qed
qed

lemma Add_stray:
  "a \<le> now + MS T \<Longrightarrow> b \<le> now + MS T \<Longrightarrow> Add a tid T now h = Add b tid T now h"
  by (rule Add_shape [of tid T now h]) (metis SiftUp_stray)+

lemma Add_mono: "Add a tid T now h = Some r \<Longrightarrow> b \<le> a \<Longrightarrow> Add b tid T now h = Some r"
  by (rule Add_shape [of tid T now h]) (metis SiftUp_mono)+

lemma Pop_mono:
  assumes "Pop a h = Some r" and "b \<le> a"
  shows "Pop b h = Some r"
  using assms(1)
  by (auto simp: Pop_def Del_def dest!: SiftUp_mono [OF _ assms(2)] split: if_splits bind_splits)

lemma run_ops_mono:
  assumes "run_ops (timer_add st T) (timer_adjust T) ops h = Some h'"
    and "\<forall>op\<in>set ops. b \<le> op_time op + MS T"
  shows "run_ops (timer_add (\<lambda>_ _. b) T) (timer_adjust T) ops h = Some h'"
  using assms
proof (induction ops arbitrary: h)
  case (Cons op ops)
  show ?case
  proof (cases op)
    case (OpAdd k now)
    then obtain h1 where h1: "Add (st k now) (int k) T now h = Some h1"
      "run_ops (timer_add st T) (timer_adjust T) ops h1 = Some h'"
      using Cons.prems(1) by (cases "Add (st k now) (int k) T now h") (simp_all add: timer_add_def [of st T k now])
    have "b \<le> now + MS T" using Cons.prems(2) OpAdd by simp
    then have "Add b (int k) T now h = Some h1"
      using h1(1) Add_stray [of "st k now" now T b] Add_mono [OF h1(1), of b] by (cases "st k now \<le> now + MS T") auto
    with h1(2) Cons OpAdd show ?thesis by (simp add: timer_add_def [of _ T k now])
  next
    case (OpAdjust k now)
    with Cons show ?thesis by (cases "timer_adjust T k now h") simp_all
  qed
qed simp

lemma run_ops_stray:
  assumes "\<forall>op\<in>set ops. b \<le> op_time op + MS T" and "\<forall>k now. OpAdd k now \<in> set ops \<longrightarrow> st k now \<le> now + MS T"
  shows "run_ops (timer_add st T) (timer_adjust T) ops h =
    run_ops (timer_add (\<lambda>_ _. b) T) (timer_adjust T) ops h"
  using assms
proof (induction ops arbitrary: h)
  case (Cons op ops)
  have IH: "run_ops (timer_add st T) (timer_adjust T) ops h1 =
      run_ops (timer_add (\<lambda>_ _. b) T) (timer_adjust T) ops h1" for h1
    using Cons by simp
  show ?case
  proof (cases op)
    case (OpAdd k now)
    with Cons.prems have "Add (st k now) (int k) T now h = Add b (int k) T now h"
      by (intro Add_stray) auto
    with IH OpAdd show ?thesis by (simp add: timer_add_def [of _ T k now] cong: Option.bind_cong)
  qed (simp add: IH cong: Option.bind_cong)
qed simp

text \<open>Property C13. From the empty timer, every sequence of \<open>Add\<close> and \<open>Adjust\<close> calls with one
  timeout, made at nondecreasing clock readings, behaves as the map from id to expiry, whatever
  each \<open>Add\<close> finds beside the heap: when all calls return, the timer holds for each id its last
  reading plus the timeout, as the map does, and the heap order and the index vector are correct;
  and a call that does not return is either an \<open>Adjust\<close> of an id that was never added, where
  the map stops too, or an \<open>Add\<close> that found beside the heap a value above the expiry it set.
  The hypothesis is that the clock does not run backwards.\<close>

theorem timer_refines_map:
  assumes "sorted (map op_time ops)"
  shows "(\<forall>h. run_ops (timer_add st T) (timer_adjust T) ops HeapTimer_new = Some h \<longrightarrow> timer_ok h \<and>
      run_ops (spec_add (\<lambda>now. now + MS T)) (spec_adjust (\<lambda>now. now + MS T)) ops Map.empty = Some (timers h)) \<and>
    (run_ops (timer_add st T) (timer_adjust T) ops HeapTimer_new = None \<longrightarrow>
      run_ops (spec_add (\<lambda>now. now + MS T)) (spec_adjust (\<lambda>now. now + MS T)) ops Map.empty = None \<or>
      (\<exists>k now. OpAdd k now \<in> set ops \<and> now + MS T < st k now))"
proof -
  obtain b where b: "\<forall>op\<in>set ops. b \<le> op_time op"
  proof (cases ops)
    case (Cons op ops')
    with assms show thesis by (intro that [of "op_time op"]) auto
  qed (rule that, simp)
  let ?run = "\<lambda>st. run_ops (timer_add st T) (timer_adjust T) ops HeapTimer_new"
  let ?b = "\<lambda>_ _. b + MS T"
  have R: "map_option timers (?run ?b) =
      run_ops (spec_add (\<lambda>now. now + MS T)) (spec_adjust (\<lambda>now. now + MS T)) ops Map.empty"
    "\<And>h. ?run ?b = Some h \<Longrightarrow> timer_ok h"
    using tm.run_refines [where st = "b + MS T" and h = HeapTimer_new and ops = ops and T = T] assms b by simp_all
  have le: "\<forall>op\<in>set ops. b + MS T \<le> op_time op + MS T" using b by simp
  have "?run ?b = Some h" if "?run st = Some h" for h by (rule run_ops_mono [OF that le])
  moreover have "?run st = ?run ?b" if "\<not> (\<exists>k now. OpAdd k now \<in> set ops \<and> now + MS T < st k now)"
    by (rule run_ops_stray [OF le]) (use that in \<open>auto simp: not_less\<close>)
  ultimately show ?thesis using R by (cases "?run st") fastforce+
qed

theorem timer_refines_map_witness:
  "sorted (map op_time [OpAdd 7 100, OpAdd 9 200, OpAdjust 7 300]) \<and>
   map_option timers (run_ops (timer_add (\<lambda>k _. int k) 50) (timer_adjust 50)
     [OpAdd 7 100, OpAdd 9 200, OpAdjust 7 300] HeapTimer_new) =
   Some [7 \<mapsto> 50000300, 9 \<mapsto> 50000200]"
proof -
  let ?ops = "[OpAdd 7 100, OpAdd 9 200, OpAdjust 7 300]"
  let ?spec = "run_ops (spec_add (\<lambda>now. now + MS 50)) (spec_adjust (\<lambda>now. now + MS 50)) ?ops Map.empty"
  have spec: "?spec = Some [7 \<mapsto> 50000300, 9 \<mapsto> 50000200]"
    by (simp add: MS_def spec_add_def spec_adjust_def fun_upd_twist)
  have "\<not> (\<exists>k now. OpAdd k now \<in> set ?ops \<and> now + MS 50 < int k)" by (auto simp: MS_def)
  with spec timer_refines_map [of ?ops "\<lambda>k _. int k" 50] show ?thesis
    by (cases "run_ops (timer_add (\<lambda>k _. int k) 50) (timer_adjust 50) ?ops HeapTimer_new") auto
qed

section \<open>Expiry\<close>

lemma heap_min:
  assumes "heap_ordered n xs" and "i < n"
  shows "expires (xs ! 0) \<le> expires (xs ! i)"
  using assms(2)
proof (induction i rule: less_induct)
  case (less i)
  show ?case
  proof (cases "i = 0")
    case False
    then have "expires (xs ! 0) \<le> expires (xs ! par i)"
      using less.IH [of "par i"] less.prems by (simp add: par_lt)
    also have "\<dots> \<le> expires (xs ! i)"
      using assms(1) less.prems False by (simp add: heap_ordered_def)
    finally show ?thesis .
  qed simp
qed

lemma hd_min:
  "heap_ordered (length xs) xs \<Longrightarrow> nd \<in> set xs \<Longrightarrow> expires (hd xs) \<le> expires nd"
  by (metis heap_min hd_conv_nth in_set_conv_nth length_pos_if_in_set length_greater_0_conv)

lemma count_ms_pos: "count_ms d > 0 \<longleftrightarrow> MS 1 \<le> d"
  by (auto simp: count_ms_def MS_def)

lemma Pop_correct:
  assumes "heap h \<noteq> []" and "heap_ordered (length (heap h)) (heap h)" and "ids_in h" and "stray_ok st h"
  obtains h' where "Pop st h = Some h'" and "mset (heap h') = mset (heap h) - {#hd (heap h)#}"
    and "heap_ordered (length (heap h')) (heap h')" and "ids_in h'" and "stray_ok st h'"
  using Del_correct [of 0 h st] assms by (auto simp: Pop_def hd_conv_nth)

text \<open>
  The specification of a sweep: the timers that fired, in order, each no longer than a
  millisecond ahead of the clock reading it was compared with.
\<close>

definition sweep :: "(nat \<Rightarrow> int) \<Rightarrow> nat \<Rightarrow> heap_timer \<Rightarrow> timer_node list \<Rightarrow> heap_timer \<Rightarrow> bool" where
  "sweep clock k h fired h' \<longleftrightarrow>
     mset fired + mset (heap h') = mset (heap h) \<and>
     sorted (map expires fired) \<and>
     (\<forall>j<length fired. expires (fired ! j) < clock (k + j) + MS 1) \<and>
     (\<forall>nd\<in>set (heap h'). clock (k + length fired) + MS 1 \<le> expires nd) \<and>
     (\<forall>nd\<in>set fired. \<forall>nd'\<in>set (heap h'). expires nd \<le> expires nd')"

lemma Tick_sweep:
  assumes "heap_ordered (length (heap h)) (heap h)" and "ids_in h" and "stray_ok st h"
  shows "\<exists>fired h'. Tick st cb clock (k, s, h) =
      Some (k + length fired + (if heap h' = [] then 0 else 1),
            fold (call_back cb) (map node_id fired) s, h') \<and>
    sweep clock k h fired h' \<and> heap_ordered (length (heap h')) (heap h') \<and> ids_in h' \<and> stray_ok st h'"
  using assms
proof (induction "length (heap h)" arbitrary: k s h rule: less_induct)
  case less
  show ?case
  proof (cases "heap h = [] \<or> count_ms (expires (hd (heap h)) - clock k) > 0")
    case True
    then have "Tick st cb clock (k, s, h) = Some (k + (if heap h = [] then 0 else 1), s, h)"
      by (auto simp: Tick.simps)
    moreover have "sweep clock k h [] h"
      using True hd_min [OF less.prems(1)] by (fastforce simp: sweep_def count_ms_pos)
    ultimately show ?thesis using less.prems by (intro exI [of _ "[]"] exI [of _ h]) simp
  next
    case False
    then obtain h1 where h1: "Pop st h = Some h1"
      "mset (heap h1) = mset (heap h) - {#hd (heap h)#}"
      "heap_ordered (length (heap h1)) (heap h1)" "ids_in h1" "stray_ok st h1"
      using Pop_correct less.prems by blast
    let ?n = "hd (heap h)"
    obtain fired h' where IH: "Tick st cb clock (k + 1, call_back cb (node_id ?n) s, h1) =
        Some (k + 1 + length fired + (if heap h' = [] then 0 else 1),
              fold (call_back cb) (map node_id fired) (call_back cb (node_id ?n) s), h')"
      "sweep clock (k + 1) h1 fired h'" "heap_ordered (length (heap h')) (heap h')" "ids_in h'"
      "stray_ok st h'"
      using less.hyps [OF Pop_length [OF h1(1)] h1(3-5)] by blast
    have mem: "?n \<in># mset (heap h)" using False by simp
    have sub: "set fired \<union> set (heap h') \<subseteq> set (heap h)"
      using IH(2) h1(2) by (auto simp: sweep_def dest!: arg_cong [where f = set_mset] in_diffD)
    have "sweep clock k h (?n # fired) h'"
      using False IH(2) h1(2) mem sub hd_min [OF less.prems(1)]
      by (auto simp: sweep_def count_ms_pos nth_Cons add.commute split: nat.splits)
    with False h1(1) IH show ?thesis
      by (intro exI [of _ "?n # fired"] exI [of _ h']) (simp add: Tick.simps)
  qed
qed

text \<open>A sweep that returns does what it would do with any smaller stray value.\<close>

lemma Tick_mono: "Tick a cb clock (k, s, h) = Some r \<Longrightarrow> b \<le> a \<Longrightarrow> Tick b cb clock (k, s, h) = Some r"
proof (induction "length (heap h)" arbitrary: k s h rule: less_induct)
  case less
  show ?case
  proof (cases "heap h = [] \<or> count_ms (expires (hd (heap h)) - clock k) > 0")
    case True
    with less.prems(1) show ?thesis by (auto simp: Tick.simps [of _ _ _ k s h] Let_def)
  next
    case False
    with less.prems(1) obtain h1 where h1: "Pop a h = Some h1"
      "Tick a cb clock (k + 1, call_back cb (node_id (hd (heap h))) s, h1) = Some r"
      by (auto simp: Tick.simps [of _ _ _ k s h] Let_def split: option.splits)
    have "Tick b cb clock (k + 1, call_back cb (node_id (hd (heap h))) s, h1) = Some r"
      by (rule less.hyps [OF Pop_length [OF h1(1)] h1(2) less.prems(2)])
    with False Pop_mono [OF h1(1) less.prems(2)] show ?thesis
      by (simp add: Tick.simps [of _ _ _ k s h] Let_def)
  qed
qed

lemma stray_below: obtains b where "b \<le> a" and "stray_ok b h"
proof (cases "heap h = []")
  case False
  show thesis
    by (rule that [of "min a (Min (expires ` set (heap h)))"])
      (use False in \<open>auto simp: stray_ok_def min_le_iff_disj\<close>)
qed (rule that [of a], simp_all add: stray_ok_def)

text \<open>Property C14. Whatever memory lies beside the heap: where \<open>Tick\<close> returns there is a list of
  fired timers such that the callback ran exactly on their ids and in that order; fired and
  remaining timers together are the timers there were; they fired in order of expiry and before
  every timer that remains; each was due within a millisecond of the clock reading it was compared
  with; every remaining timer is at least a millisecond beyond the last reading. Where it does not
  return, the value read beside the heap was above the expiry of a timer of the heap. The
  hypotheses are the heap order and ids within the index vector; both hold again at the end, so
  the next sweep is covered as well. (The entries of the index vector are not claimed: a removal
  leaves them wrong.)\<close>

theorem Tick_correct:
  assumes "heap_ordered (length (heap h)) (heap h)" and "ids_in h"
  shows "(\<forall>r. Tick st cb clock (0, s, h) = Some r \<longrightarrow>
      (\<exists>fired h'. r = (length fired + (if heap h' = [] then 0 else 1),
            fold (call_back cb) (map node_id fired) s, h') \<and>
        sweep clock 0 h fired h' \<and> heap_ordered (length (heap h')) (heap h') \<and> ids_in h')) \<and>
    (Tick st cb clock (0, s, h) = None \<longrightarrow> (\<exists>nd\<in>set (heap h). expires nd < st))"
proof -
  obtain b where b: "b \<le> st" "stray_ok b h" using stray_below .
  have T: "\<exists>fired h'. Tick x cb clock (0, s, h) =
      Some (length fired + (if heap h' = [] then 0 else 1), fold (call_back cb) (map node_id fired) s, h') \<and>
      sweep clock 0 h fired h' \<and> heap_ordered (length (heap h')) (heap h') \<and> ids_in h'" if "stray_ok x h" for x
    using Tick_sweep [OF assms that, of cb clock 0 s] unfolding add_0 by blast
  show ?thesis
  proof (intro conjI allI impI)
    fix r assume "Tick st cb clock (0, s, h) = Some r"
    with Tick_mono [OF this b(1)] T [OF b(2)]
    show "\<exists>fired h'. r = (length fired + (if heap h' = [] then 0 else 1),
        fold (call_back cb) (map node_id fired) s, h') \<and>
        sweep clock 0 h fired h' \<and> heap_ordered (length (heap h')) (heap h') \<and> ids_in h'" by force
  next
    assume "Tick st cb clock (0, s, h) = None"
    with T [of st] have "\<not> stray_ok st h" by auto
    then show "\<exists>nd\<in>set (heap h). expires nd < st" by (auto simp: stray_ok_def not_le)
  qed
qed

definition example_timer :: heap_timer where
  "example_timer = \<lparr>heap = [\<lparr>node_id = 1, expires = 5000000\<rparr>, \<lparr>node_id = 0, expires = 9000000\<rparr>],
     ref = [Some 1, Some 0, None]\<rparr>"

lemma example_timer_ok: "timer_ok example_timer" "stray_ok 0 example_timer"
  by (auto simp: example_timer_def timer_ok_def heap_ordered_def ids_in_def ref_ok_def stray_ok_def
      par_def less_Suc_eq nth_Cons split: nat.splits)

theorem Tick_correct_witness:
  "\<exists>fired h'. Tick 0 (Some (\<lambda>k s. s @ [k])) (\<lambda>_. 6000000) (0, [], example_timer) =
      Some (length fired + (if heap h' = [] then 0 else 1),
            fold (call_back (Some (\<lambda>k s. s @ [k]))) (map node_id fired) [], h') \<and>
    sweep (\<lambda>_. 6000000) 0 example_timer fired h' \<and>
    heap_ordered (length (heap h')) (heap h') \<and> ids_in h'"
proof (cases "Tick 0 (Some (\<lambda>k s. s @ [k])) (\<lambda>_. 6000000) (0, [], example_timer)")
  case None
  then show ?thesis
    using Tick_correct [OF timer_okD(1,2) [OF example_timer_ok(1)], of 0 "Some (\<lambda>k s. s @ [k])" "\<lambda>_. 6000000" "[]"]
    by (auto simp: example_timer_def)
next
  case (Some r)
  with Tick_correct [OF timer_okD(1,2) [OF example_timer_ok(1)], of 0 "Some (\<lambda>k s. s @ [k])" "\<lambda>_. 6000000" "[]"]
  show ?thesis by blast
qed

section \<open>The wait for the event loop\<close>

lemma word_roundtrip:
  assumes "- (2 ^ 31) \<le> x" and "x < 2 ^ 31"
  shows "sint (ucast (word_of_int x :: u64) :: u32) = x"
proof -
  have "ucast (word_of_int x :: u64) = (word_of_int x :: u32)"
    by (rule bit_word_eqI) (simp add: bit_ucast_iff bit_word_of_int_iff)
  with assms show ?thesis by (simp add: signed_of_int signed_take_bit_int_eq_self)
qed

text \<open>\<open>GetNextTick\<close> sweeps and then returns -1 when no timer is left, and
  otherwise the whole milliseconds from its own, later clock reading to the first expiry (where
  that fits an \<open>int\<close>). The clamp to 0 never applies: if the expiry passes between the
  two readings the result is negative.\<close>

lemma GetNextTick_correct:
  assumes "timer_ok h" and "stray_ok st h"
    and fits: "\<forall>nd\<in>set (heap h). \<forall>k. \<bar>count_ms (expires nd - clock k)\<bar> < 2 ^ 31"
  shows "\<exists>fired h'. GetNextTick st cb clock (s, h) =
      Some (if heap h' = [] then -1
            else count_ms (expires (hd (heap h')) - clock (length fired + 1)),
            fold (call_back cb) (map node_id fired) s, h') \<and> sweep clock 0 h fired h'"
proof -
  obtain fired h' where t: "Tick st cb clock (0, s, h) =
      Some (length fired + (if heap h' = [] then 0 else 1),
            fold (call_back cb) (map node_id fired) s, h')" and sw: "sweep clock 0 h fired h'"
    using Tick_sweep [OF timer_okD(1,2) [OF assms(1)] assms(2), of cb clock 0 s] by auto
  have "hd (heap h') \<in> set (heap h)" if "heap h' \<noteq> []"
    using sw that by (auto simp: sweep_def dest!: arg_cong [where f = set_mset])
  with fits have b: "\<bar>count_ms (expires (hd (heap h')) - clock k)\<bar> < 2 ^ 31" if "heap h' \<noteq> []" for k
    using that by blast
  have "sint (ucast (word_of_int (count_ms (expires (hd (heap h')) - clock k)) :: u64) :: u32) =
      count_ms (expires (hd (heap h')) - clock k)" if "heap h' \<noteq> []" for k
    by (rule word_roundtrip) (use b [OF that, of k] in linarith)+
  moreover have "sint (ucast (- 1 :: u64) :: u32) = - 1"
    using word_roundtrip [of "- 1"] by simp
  ultimately show ?thesis using t sw
    by (intro exI [of _ fired] exI [of _ h']) (auto simp: GetNextTick_def Let_def not_less)
qed

lemma GetNextTick_correct_witness:
  "\<exists>fired h'. GetNextTick 0 (None :: (nat \<Rightarrow> unit \<Rightarrow> unit) option)
      (\<lambda>k. if k = 0 then 3000000 else 7000000) ((), example_timer) =
      Some (if heap h' = [] then -1
            else count_ms (expires (hd (heap h')) -
              (if length fired + 1 = 0 then 3000000 else 7000000)),
            fold (call_back None) (map node_id fired) (), h') \<and>
    sweep (\<lambda>k. if k = 0 then 3000000 else 7000000) 0 example_timer fired h'"
  by (rule GetNextTick_correct [OF example_timer_ok]) (auto simp: example_timer_def count_ms_def)

lemma GetNextTick_negative:
  "GetNextTick 0 (None :: (nat \<Rightarrow> unit \<Rightarrow> unit) option)
     (\<lambda>k. if k = 0 then 3000000 else 7000000) ((), example_timer) =
   Some (-2, (), example_timer)"
  by (simp add: GetNextTick_def example_timer_def Tick.simps count_ms_def call_back_def)

section \<open>What removal does to the index vector\<close>

text \<open>After \<open>Del_\<close> of a node that is not the last, \<open>ref_\<close> still names the
  removed id, with an index one past the end of the heap, while the timer now at the removed
  position has lost its entry: \<open>Adjust\<close> on that live timer fails its assertion.\<close>

lemma Del_clears_wrong_ref:
  assumes ok: "timer_ok h" and "stray_ok st h" and i: "i < length (heap h) - 1"
  shows "\<exists>h'. Del st i h = Some h' \<and>
    ref h' ! node_id (heap h ! i) = Some (length (heap h')) \<and>
    ref h' ! node_id (heap h' ! i) = None \<and>
    (\<forall>T now. Adjust (int (node_id (heap h' ! i))) T now h' = None)"
proof -
  obtain n where n: "Suc n = length (heap h)" "i < n"
    using i by (cases "length (heap h)") auto
  obtain h3 where h3: "Del st i h = Some (h3\<lparr>ref := (ref h3)[node_id (heap h3 ! i) := None],
      heap := butlast (heap h3)\<rparr>)" "sift_frame (Suc n) h h3" "heap h3 ! n = heap h ! i"
    using Del_nonlast [OF n] timer_okD(1,2) [OF ok] assms(2) n(1) by auto
  have len: "length (heap h3) = Suc n" using sift_frame_length [OF h3(2)] n(1) by simp
  have rok: "ref_ok h3" and ids: "ids_in h3"
    using h3(2) timer_okD [OF ok] sift_frame_ids by (auto simp: sift_frame_def)
  have "node_id (heap h3 ! i) \<noteq> node_id (heap h3 ! n)"
    using ref_ok_distinct [OF rok, of i n] len n(2) by auto
  moreover have "ref h3 ! node_id (heap h3 ! n) = Some n"
    using rok len by (simp add: ref_ok_def)
  moreover have "node_id (heap h3 ! i) < length (ref h3)"
    using ids len n(2) by (simp add: ids_in_def)
  ultimately show ?thesis
    using h3(1,3) len n(2) by (auto simp: nth_butlast Adjust_def)
qed

text \<open>The first \<open>Add\<close> into an empty timer compares its node with a stray value.\<close>

lemma Add_first_stray:
  assumes "now + MS T < st" and "0 \<le> tid" and "nat tid < length (ref h)" and "heap h = []"
    and "ref h ! nat tid = None"
  shows "Add st tid T now h = None"
  using assms by (simp add: Add_def Let_def set_ref_def SiftUp_def SiftUp_loop.simps)

end
