(* ===== verification/Webserver.thy ===== *)
theory Webserver
  imports Chat_Services Heap_Timer
begin

text \<open>
  The server (\<open>core/webserver.cpp\<close>): accepting, closing, reading and writing connections, the
  idle timer, and the handling of one batch of epoll events.

  Model. A server is the shared state together with the timer and the configuration. Results of
  system calls, the address of a new object, clock readings and the stray timer value are
  arguments. \<open>deliver\<close> is the kernel's side of \<open>EPOLLONESHOT\<close>: reporting an event
  disarms the descriptor. Tasks run one at a time and as a whole, with one exception: a push
  releases the lock on the registry before it uses the pointer it found, so its second half may
  also come later, after any other steps (\<open>late_push\<close>).
\<close>

section \<open>State\<close>

record ('db, 'sc) server =
  s_world :: "('db, 'sc) world"
  s_timer :: heap_timer
  s_timeout_ms :: int
  s_listen_fd :: int
  s_listen_event :: u32
  s_conn_event :: u32

definition MAX_FD :: int where
  "MAX_FD = 65536"

text \<open>The masks and \<open>TcpConnection::is_et\<close> for a trigger mode.\<close>

definition InitEventMode :: "int \<Rightarrow> u32 \<times> u32 \<times> bool" where
  "InitEventMode trig_mode =
     (let listen = EPOLLRDHUP; conn = EPOLLONESHOT OR EPOLLRDHUP;
          (l, c) = (if trig_mode = 0 then (listen, conn)
            else if trig_mode = 1 then (listen, conn OR EPOLLET)
            else if trig_mode = 2 then (listen OR EPOLLET, conn)
            else (listen OR EPOLLET, conn OR EPOLLET))
      in (l, c, c AND EPOLLET \<noteq> 0))"

definition on_world ::
  "(('db, 'sc) world \<Rightarrow> ('db, 'sc) world option) \<Rightarrow> ('db, 'sc) server \<Rightarrow> ('db, 'sc) server option" where
  "on_world f s = map_option (\<lambda>w. s\<lparr>s_world := w\<rparr>) (f (s_world s))"

section \<open>Opening and closing\<close>

definition CloseConn :: "nat \<Rightarrow> ('db, 'sc) world \<Rightarrow> ('db, 'sc) world option" where
  "CloseConn p w = do { c \<leftarrow> deref p w; close_conn p (snd (delFd (c_fd c) w)) }"

text \<open>\<open>~TcpConnection\<close>, and the object is gone.\<close>

definition destroy :: "nat \<Rightarrow> ('db, 'sc) world \<Rightarrow> ('db, 'sc) world option" where
  "destroy p w = do { w1 \<leftarrow> close_conn p w; Some (w1\<lparr>w_objs := (w_objs w1)(p := None)\<rparr>) }"

definition ExtendTime :: "int \<Rightarrow> nat \<Rightarrow> ('db, 'sc) server \<Rightarrow> ('db, 'sc) server option" where
  "ExtendTime now p s =
     do { c \<leftarrow> deref p (s_world s);
          if s_timeout_ms s > 0
          then do { t \<leftarrow> Adjust (c_fd c) (s_timeout_ms s) now (s_timer s); Some (s\<lparr>s_timer := t\<rparr>) }
          else Some s }"

text \<open>The world part of \<open>AddClient_\<close> up to the timer, for a new object at address \<open>p\<close>.\<close>

definition insert_conn :: "int \<Rightarrow> nat \<Rightarrow> ('db, 'sc) world \<Rightarrow> ('db, 'sc) world option" where
  "insert_conn fd p w =
     do { c \<leftarrow> conn_init fd TcpConnection_new;
          let w1 = put_conn p c (w\<lparr>w_user_count := w_user_count w + 1\<rparr>);
              old = w_connections w1 fd;
              w2 = w1\<lparr>w_connections := (w_connections w1)(fd \<mapsto> p)\<rparr>
          in (case old of None \<Rightarrow> Some w2 | Some q \<Rightarrow> destroy q w2) }"

definition register_conn :: "u32 \<Rightarrow> int \<Rightarrow> nat \<Rightarrow> ('db, 'sc) world \<Rightarrow> ('db, 'sc) world option" where
  "register_conn conn_event fd p w =
     (let (ok, w1) = addFd fd (EPOLLIN OR conn_event) w in
      if ok then do { c \<leftarrow> deref p w1; Some (put_conn p (c\<lparr>c_events := EPOLLIN OR conn_event\<rparr>) w1) }
      else Some w1)"

definition AddClient ::
  "int \<Rightarrow> int \<Rightarrow> int \<Rightarrow> nat \<Rightarrow> ('db, 'sc) server \<Rightarrow> ('db, 'sc) server option" where
  "AddClient stray now fd p s =
     (if fd > 0
      then do { s1 \<leftarrow> on_world (insert_conn fd p) s;
                s2 \<leftarrow> (if s_timeout_ms s1 > 0
                      then do { t \<leftarrow> Add stray fd (s_timeout_ms s1) now (s_timer s1); Some (s1\<lparr>s_timer := t\<rparr>) }
                      else Some s1);
                on_world (register_conn (s_conn_event s) fd p) s2 }
      else None)"

text \<open>\<open>accept\<close>: a descriptor that was not open; \<open>SendError_\<close> closes it again.\<close>

definition accept_fd :: "int \<Rightarrow> ('db, 'sc) world \<Rightarrow> ('db, 'sc) world" where
  "accept_fd fd w = w\<lparr>w_open := insert fd (w_open w)\<rparr>"

definition SendError :: "int \<Rightarrow> ('db, 'sc) world \<Rightarrow> ('db, 'sc) world option" where
  "SendError fd w = (if fd > 0 then Some (close_fd fd w) else None)"

text \<open>One entry per call of \<open>accept\<close>: the descriptor, the address of the object that is
  allocated for it, and the clock; the list ends where \<open>accept\<close> fails.\<close>

fun DealListen ::
  "int \<Rightarrow> (int \<times> nat \<times> int) list \<Rightarrow> ('db, 'sc) server \<Rightarrow> ('db, 'sc) server option" where
  "DealListen stray [] s = Some s"
| "DealListen stray ((fd, p, now) # accepts) s =
     (if fd \<le> 0 then Some s
      else let s0 = s\<lparr>s_world := accept_fd fd (s_world s)\<rparr> in
        if w_user_count (s_world s) \<ge> MAX_FD then on_world (SendError fd) s0
        else do { s1 \<leftarrow> AddClient stray now fd p s0;
                  if s_listen_event s AND EPOLLET \<noteq> 0 then DealListen stray accepts s1 else Some s1 })"

section \<open>Tasks\<close>

definition DealRead :: "int \<Rightarrow> nat \<Rightarrow> ('db, 'sc) server \<Rightarrow> ('db, 'sc) server option" where
  "DealRead now p s =
     do { s1 \<leftarrow> ExtendTime now p s;
          on_world (\<lambda>w. Some (w\<lparr>w_tasks := w_tasks w @ [OnReadTask p]\<rparr>)) s1 }"

definition DealWrite :: "int \<Rightarrow> nat \<Rightarrow> ('db, 'sc) server \<Rightarrow> ('db, 'sc) server option" where
  "DealWrite now p s =
     do { s1 \<leftarrow> ExtendTime now p s;
          on_world (\<lambda>w. Some (w\<lparr>w_tasks := w_tasks w @ [OnWriteTask p]\<rparr>)) s1 }"

text \<open>\<open>modFd\<close> followed by \<open>UpdateEvents\<close>, whatever the former returns.\<close>

definition rearm :: "nat \<Rightarrow> u32 \<Rightarrow> ('db, 'sc) world \<Rightarrow> ('db, 'sc) world option" where
  "rearm p events w =
     do { c \<leftarrow> deref p w;
          Some (put_conn p (c\<lparr>c_events := events\<rparr>) (snd (modFd (c_fd c) events w))) }"

definition OnProcess ::
  "('db, 'sc) server_env \<Rightarrow> u32 \<Rightarrow> nat \<Rightarrow> ('db, 'sc) world \<Rightarrow> ('db, 'sc) world option" where
  "OnProcess e conn_event p w =
     do { (ok, w1) \<leftarrow> conn_process e p w;
          rearm p (if ok then conn_event OR EPOLLOUT else conn_event OR EPOLLIN) w1 }"

definition OnRead ::
  "('db, 'sc) server_env \<Rightarrow> u32 \<Rightarrow> bytes sysret list \<Rightarrow> nat \<Rightarrow> ('db, 'sc) world \<Rightarrow> ('db, 'sc) world option" where
  "OnRead e conn_event rs p w =
     do { c \<leftarrow> deref p w;
          (ret, readErrno, c1) \<leftarrow> conn_read (e_is_et e) rs c;
          let w1 = put_conn p c1 w in
          if ret \<le> 0 \<and> readErrno \<noteq> Some EAGAIN then CloseConn p w1 else OnProcess e conn_event p w1 }"

text \<open>The bytes that \<open>OnWrite_\<close> hands to the kernel are its second result.\<close>

definition OnWrite ::
  "('db, 'sc) server_env \<Rightarrow> u32 \<Rightarrow> nat sysret list \<Rightarrow> nat \<Rightarrow> ('db, 'sc) world \<Rightarrow>
   (('db, 'sc) world \<times> bytes) option" where
  "OnWrite e conn_event rs p w =
     do { c \<leftarrow> deref p w;
          (ret, writeErrno, c1, out) \<leftarrow> conn_write (e_is_et e) rs c;
          w2 \<leftarrow> (let w1 = put_conn p c1 w in
                if to_write_bytes c1 = 0 \<and> conn_keep_alive c1 then rearm p (conn_event OR EPOLLIN) w1
                else if to_write_bytes c1 \<noteq> 0 \<and> ret < 0 \<and> writeErrno = Some EAGAIN
                then rearm p (conn_event OR EPOLLOUT) w1
                else CloseConn p w1);
          Some (w2, out) }"

section \<open>Events\<close>

text \<open>The kernel reports an event: a descriptor registered with \<open>EPOLLONESHOT\<close> is disarmed.\<close>

definition deliver :: "int \<Rightarrow> ('db, 'sc) world \<Rightarrow> ('db, 'sc) world" where
  "deliver fd w =
     (case w_interest w fd of
        Some ev \<Rightarrow> if ev AND EPOLLONESHOT \<noteq> 0 then w\<lparr>w_interest := (w_interest w)(fd \<mapsto> 0)\<rparr> else w
      | None \<Rightarrow> w)"

text \<open>The body of the event loop of \<open>Start\<close>; \<open>accepts\<close> are the connections waiting.\<close>

definition handle_event ::
  "int \<Rightarrow> int \<Rightarrow> (int \<times> nat \<times> int) list \<Rightarrow> int \<times> u32 \<Rightarrow> ('db, 'sc) server \<Rightarrow> ('db, 'sc) server option" where
  "handle_event stray now accepts = (\<lambda>(fd, events) s.
     if fd = s_listen_fd s then DealListen stray accepts s
     else if events AND (EPOLLRDHUP OR EPOLLHUP OR EPOLLERR) \<noteq> 0
     then do { p \<leftarrow> w_connections (s_world s) fd; on_world (CloseConn p) s }
     else if events AND EPOLLIN \<noteq> 0
     then do { p \<leftarrow> w_connections (s_world s) fd; DealRead now p s }
     else if events AND EPOLLOUT \<noteq> 0
     then do { p \<leftarrow> w_connections (s_world s) fd; DealWrite now p s }
     else Some s)"

text \<open>The callback of the timer; a fault in it is a fault of the sweep.\<close>

definition timer_callback :: "nat \<Rightarrow> ('db, 'sc) world option \<Rightarrow> ('db, 'sc) world option" where
  "timer_callback k wo =
     do { w \<leftarrow> wo;
          case w_connections w (int k) of None \<Rightarrow> Some w | Some p \<Rightarrow> CloseConn p w }"

text \<open>The wait that \<open>Start\<close> computes before \<open>epoll_wait\<close>.\<close>

definition next_wait ::
  "int \<Rightarrow> (nat \<Rightarrow> int) \<Rightarrow> int \<Rightarrow> ('db, 'sc) server \<Rightarrow> (int \<times> ('db, 'sc) server) option" where
  "next_wait stray clock time_ms s =
     (if s_timeout_ms s > 0
      then do { (ms, wo, t) \<leftarrow> GetNextTick stray (Some timer_callback) clock (Some (s_world s), s_timer s);
                w \<leftarrow> wo;
                Some (ms, s\<lparr>s_world := w, s_timer := t\<rparr>) }
      else Some (time_ms, s))"


text \<open>One pass of the loop of \<open>Start\<close>, for the events that \<open>epoll_wait\<close> reports.\<close>

fun handle_events ::
  "int \<Rightarrow> int \<Rightarrow> (int \<times> nat \<times> int) list \<Rightarrow> (int \<times> u32) list \<Rightarrow> ('db, 'sc) server \<Rightarrow> ('db, 'sc) server option"
where
  "handle_events stray now accepts [] s = Some s"
| "handle_events stray now accepts (ev # evs) s =
     do { s1 \<leftarrow> handle_event stray now accepts ev s; handle_events stray now accepts evs s1 }"

definition Start_pass ::
  "int \<Rightarrow> (nat \<Rightarrow> int) \<Rightarrow> int \<Rightarrow> (int \<times> nat \<times> int) list \<Rightarrow> (int \<times> u32) list \<Rightarrow> int \<Rightarrow> ('db, 'sc) server \<Rightarrow>
   (int \<times> ('db, 'sc) server) option" where
  "Start_pass stray clock now accepts evs time_ms s =
     do { (ms, s1) \<leftarrow> next_wait stray clock time_ms s;
          s2 \<leftarrow> handle_events stray now accepts evs
                 (s1\<lparr>s_world := fold (\<lambda>ev. deliver (fst ev)) evs (s_world s1)\<rparr>);
          Some (ms, s2) }"

section \<open>The event masks\<close>

lemmas epoll_masks = EPOLLIN_def EPOLLOUT_def EPOLLERR_def EPOLLHUP_def EPOLLRDHUP_def EPOLLONESHOT_def EPOLLET_def

definition conn_mask_ok :: "u32 \<Rightarrow> bool" where
  "conn_mask_ok ev \<longleftrightarrow> ev AND EPOLLIN = 0 \<and> ev AND EPOLLOUT = 0 \<and> ev AND EPOLLONESHOT \<noteq> 0"

lemma InitEventMode_masks:
  "InitEventMode m = (l, c, et) \<Longrightarrow> conn_mask_ok c \<and> et = (m \<noteq> 0 \<and> m \<noteq> 2) \<and>
     c = EPOLLONESHOT OR EPOLLRDHUP OR (if et then EPOLLET else 0) \<and>
     l = EPOLLRDHUP OR (if m = 0 \<or> m = 1 then 0 else EPOLLET)"
  by (auto simp: InitEventMode_def conn_mask_ok_def epoll_masks split: if_splits)


section \<open>What a task does to the connections\<close>

text \<open>
  \<open>static\<close>: registrations and the identity of every connection (descriptor, open or closed,
  user) stay. \<open>served conn\<close>: the same up to the user of \<open>conn\<close> and its registration.
\<close>

definition conn_static :: "tcp_conn \<Rightarrow> tcp_conn \<Rightarrow> bool" where
  "conn_static c c' \<longleftrightarrow> c_fd c' = c_fd c \<and> c_is_close c' = c_is_close c \<and> c_user_id c' = c_user_id c"

definition static :: "('db, 'sc) world \<Rightarrow> ('db, 'sc) world \<Rightarrow> bool" where
  "static w w' \<longleftrightarrow> w_connections w' = w_connections w \<and> w_user_count w' = w_user_count w \<and>
     w_open w' = w_open w \<and> dom (w_interest w') = dom (w_interest w) \<and> w_online w' = w_online w \<and>
     (\<forall>p. rel_option conn_static (deref p w) (deref p w'))"

definition served :: "nat \<Rightarrow> ('db, 'sc) world \<Rightarrow> ('db, 'sc) world \<Rightarrow> bool" where
  "served conn w w' \<longleftrightarrow> w_connections w' = w_connections w \<and> w_user_count w' = w_user_count w \<and>
     w_open w' = w_open w \<and> dom (w_interest w') = dom (w_interest w) \<and>
     (\<forall>p. rel_option (\<lambda>c c'. c_fd c' = c_fd c \<and> c_is_close c' = c_is_close c) (deref p w) (deref p w')) \<and>
     (\<forall>u p. w_online w' u = Some p \<longrightarrow> w_online w u = Some p \<or>
        p = conn \<and> (\<exists>c. deref conn w' = Some c \<and> c_user_id c = u))"

lemma rel_option_comp:
  "rel_option R a b \<Longrightarrow> rel_option S b c \<Longrightarrow> (\<And>x y z. R x y \<Longrightarrow> S y z \<Longrightarrow> T x z) \<Longrightarrow> rel_option T a c"
  by (cases a; cases b; cases c) auto

lemma conn_static_refl [simp]: "rel_option conn_static x x"
  by (cases x) (simp_all add: conn_static_def)

lemma static_refl [simp]: "static w w"
  by (simp add: static_def)

lemma static_trans [trans]: "static a b \<Longrightarrow> static b c \<Longrightarrow> static a c"
  unfolding static_def by (auto intro: rel_option_comp [where R = conn_static and S = conn_static] simp: conn_static_def)

lemma served_from_rel:
  assumes "\<And>p. rel_option R (deref p w) (deref p w')"
    and "\<And>c c'. R c c' \<Longrightarrow> c_fd c' = c_fd c \<and> c_is_close c' = c_is_close c"
  shows "rel_option (\<lambda>c c'. c_fd c' = c_fd c \<and> c_is_close c' = c_is_close c) (deref p w) (deref p w')"
  by (rule option.rel_mono_strong [OF assms(1)]) (rule assms(2))

lemma static_served: "static w w' \<Longrightarrow> served conn w w'"
  using served_from_rel [of conn_static w w'] by (simp add: static_def served_def conn_static_def)

lemma conn_kept_ids: "conn_kept c c' \<Longrightarrow> c_fd c' = c_fd c \<and> c_is_close c' = c_is_close c"
  by (auto simp: conn_kept_def)

lemma kept_served: "kept conn w w' \<Longrightarrow> served conn w w'"
  using served_from_rel [of conn_kept w w', OF _ conn_kept_ids] by (simp add: kept_def served_def)

lemma static_then_served:
  assumes t: "static a b" and s: "served conn b c"
  shows "served conn a c"
proof -
  have "rel_option (\<lambda>c c'. c_fd c' = c_fd c \<and> c_is_close c' = c_is_close c) (deref p a) (deref p c)" for p
  proof (rule rel_option_comp)
    show "rel_option conn_static (deref p a) (deref p b)" using t by (simp add: static_def)
    show "rel_option (\<lambda>c c'. c_fd c' = c_fd c \<and> c_is_close c' = c_is_close c) (deref p b) (deref p c)"
      using s by (simp add: served_def)
  qed (simp add: conn_static_def)
  with s t show ?thesis by (simp add: served_def static_def)
qed

lemma served_then_static:
  assumes s: "served conn a b" and t: "static b c"
  shows "served conn a c"
proof -
  have rel: "rel_option conn_static (deref p b) (deref p c)" for p using t by (simp add: static_def)
  have "\<exists>x'. deref conn c = Some x' \<and> c_user_id x' = u" if "\<exists>x. deref conn b = Some x \<and> c_user_id x = u" for u
    using that rel [of conn] by (auto simp: option_rel_Some1 conn_static_def)
  moreover have "rel_option (\<lambda>c c'. c_fd c' = c_fd c \<and> c_is_close c' = c_is_close c) (deref p a) (deref p c)" for p
    by (rule rel_option_comp [OF _ rel]) (use s in \<open>auto simp: served_def conn_static_def\<close>)
  ultimately show ?thesis using s t unfolding served_def static_def by simp blast
qed

lemma static_put:
  "deref p w = Some c \<Longrightarrow> conn_static c c' \<Longrightarrow> static w (put_conn p c' w)"
  by (simp add: static_def) (simp add: put_conn_def)

lemma static_db [simp]: "static w (w\<lparr>w_db := s\<rparr>)" "static w (w\<lparr>w_tasks := ts\<rparr>)"
  by (simp_all add: static_def)

lemma modFd_static [simp]: "static w (snd (modFd fd ev w))"
  by (auto simp: static_def modFd_def deref_def)

lemma deliver_static: "static w (deliver fd w)"
  by (auto simp: static_def deliver_def deref_def split: option.splits)

lemma rearm_static:
  assumes "deref p w = Some c"
  obtains w' where "rearm p ev w = Some w'" and "static w w'"
    and "deref p w' = Some (c\<lparr>c_events := ev\<rparr>)"
    and "c_fd c \<in> w_open w \<and> w_interest w (c_fd c) \<noteq> None \<and> c_fd c \<ge> 0 \<longrightarrow> w_interest w' (c_fd c) = Some ev"
proof -
  let ?w = "snd (modFd (c_fd c) ev w)"
  have d: "deref p ?w = Some c" using assms by (simp add: modFd_def deref_def)
  have "static w (put_conn p (c\<lparr>c_events := ev\<rparr>) ?w)"
    by (rule static_trans [OF modFd_static static_put [OF d]]) (simp add: conn_static_def)
  with assms show thesis by (intro that) (auto simp: rearm_def put_conn_def deref_def modFd_def)
qed


lemma Dispatch_served:
  assumes "deref conn w = Some c" and "Dispatch e conn request r w = Some (resp, w')"
  shows "served conn w w'"
  by (rule kept_served [OF Dispatch_keeps [OF assms]])

lemma ProtobufHandler_served:
  assumes c: "deref conn w = Some c" and run: "ProtobufHandler_Process e conn w = Some (ok, w')"
  shows "served conn w w'"
proof -
  obtain msg rb where d: "TryDecodeMessage (e_parse e) (c_read_buff c) = Some (msg, rb)"
    using run c by (auto simp: ProtobufHandler_Process_def bind_eq_Some_conv)
  let ?c = "c\<lparr>c_read_buff := rb\<rparr>" and ?w = "put_conn conn (c\<lparr>c_read_buff := rb\<rparr>) w"
  have st: "static w ?w" by (rule static_put [OF c]) (simp add: conn_static_def)
  show ?thesis
  proof (cases msg)
    case None
    with run c d have "w' = ?w" by (simp add: ProtobufHandler_Process_def Let_def)
    with st show ?thesis by (simp add: static_served)
  next
    case (Some request)
    obtain resp w2 c2 wb where r: "Dispatch e conn request (new_response e request) ?w = Some (resp, w2)"
      "deref conn w2 = Some c2" "w' = put_conn conn (c2\<lparr>c_write_buff := wb\<rparr>) w2"
      using run c d Some by (auto simp: ProtobufHandler_Process_def Let_def bind_eq_Some_conv split: bind_splits)
    have "served conn ?w w2" by (rule Dispatch_served [OF _ r(1)]) simp
    moreover have "static w2 w'"
      unfolding r(3) by (rule static_put [OF r(2)]) (simp add: conn_static_def)
    ultimately show ?thesis using static_then_served [OF st] served_then_static by blast
  qed
qed

lemma determine_protocol_static: "determine_protocol c = (go, c') \<Longrightarrow> conn_static c c'"
  by (auto simp: determine_protocol_def conn_static_def Let_def split: if_splits)

lemma setup_iov_static: "conn_static c (setup_iov_for_http c)"
  by (auto simp: setup_iov_for_http_def conn_static_def Let_def split: option.splits handler.splits)

lemma conn_process_served:
  assumes c: "deref conn w = Some c" and run: "conn_process e conn w = Some (ok, w')"
  shows "served conn w w'"
proof -
  obtain go c1 where d: "determine_protocol c = (go, c1)" by fastforce
  let ?w = "put_conn conn c1 w"
  have cs: "conn_static c c1" by (rule determine_protocol_static [OF d])
  have st: "static w ?w" by (rule static_put [OF c cs])
  consider (stop) "\<not> go \<or> c_handler c1 = None" | (pb) go "c_handler c1 = Some ProtobufH"
    | (http) h where go "c_handler c1 = Some (HttpH h)"
    by (metis handler.exhaust option.exhaust)
  then show ?thesis
  proof cases
    case stop
    with run c d have "w' = ?w" by (auto simp: conn_process_def Let_def split: if_splits)
    with st show ?thesis by (simp add: static_served)
  next
    case pb
    with run c d have "ProtobufHandler_Process e conn ?w = Some (ok, w')" by (simp add: conn_process_def)
    then show ?thesis
      by (intro static_then_served [OF st ProtobufHandler_served]) simp_all
  next
    case http
    obtain ok' h1 rb wb s where "HttpHandler_Process (e_mysql e) (e_rand_id e) (e_fs e) (e_src_dir e) h
        (c_read_buff c1) (c_write_buff c1) (w_db ?w) = Some (ok', h1, rb, wb, s)"
      using run c d http by (auto simp: conn_process_def Let_def bind_eq_Some_conv)
    moreover define c2 where "c2 = c1\<lparr>c_handler := Some (HttpH h1), c_read_buff := rb, c_write_buff := wb\<rparr>"
    ultimately have "conn_process e conn w =
        Some (ok', put_conn conn (if ok' \<and> c_type c2 = HTTP then setup_iov_for_http c2 else c2) (?w\<lparr>w_db := s\<rparr>))"
      using c d http by (simp add: conn_process_def Let_def)
    from trans [OF run [symmetric] this]
    have w': "w' = put_conn conn (if ok' \<and> c_type c2 = HTTP then setup_iov_for_http c2 else c2)
        (?w\<lparr>w_db := s\<rparr>)" by (simp only: option.inject prod.inject)
    have "conn_static c1 c2" by (simp add: c2_def conn_static_def)
    then have "conn_static c1 (if ok' \<and> c_type c2 = HTTP then setup_iov_for_http c2 else c2)"
      using setup_iov_static [of c2] by (auto simp: conn_static_def)
    then have "static (?w\<lparr>w_db := s\<rparr>) w'" unfolding w' by (intro static_put) simp_all
    then have "static ?w w'" by (rule static_trans [OF static_db(1)])
    then show ?thesis by (rule static_served [OF static_trans [OF st]])
  qed
qed


lemma conn_read_static: "conn_read is_et rs c = Some (len, err, c') \<Longrightarrow> conn_static c c'"
  by (auto simp: conn_read_def conn_static_def bind_eq_Some_conv)

lemma conn_write_static: "conn_write is_et rs c = Some (len, err, c', out) \<Longrightarrow> conn_static c c'"
  by (auto simp: conn_write_def conn_static_def flush_pending_to_buffer_def bind_eq_Some_conv split: if_splits)

section \<open>The invariant of the server\<close>

definition open_conns :: "('db, 'sc) world \<Rightarrow> nat set" where
  "open_conns w = {p. \<exists>c. deref p w = Some c \<and> \<not> c_is_close c}"

text \<open>The objects are those the map of connections owns, under their descriptors.\<close>

definition owned :: "('db, 'sc) world \<Rightarrow> bool" where
  "owned w \<longleftrightarrow> (\<forall>fd p. w_connections w fd = Some p \<longrightarrow> (\<exists>c. deref p w = Some c \<and> c_fd c = fd)) \<and>
     (\<forall>p c. deref p w = Some c \<longrightarrow> w_connections w (c_fd c) = Some p)"

text \<open>
  \<open>base_inv\<close>: the map of connections, the objects, the descriptors, the epoll set and the count fit
  together. \<open>srv_inv\<close>: the registry of online users does as well. The first is kept by everything
  the server does; the second is not, so the two are apart.
\<close>

definition base_inv :: "('db, 'sc) world \<Rightarrow> bool" where
  "base_inv w \<longleftrightarrow> owned w \<and>
     (\<forall>p c. deref p w = Some c \<and> \<not> c_is_close c \<longrightarrow> c_fd c \<in> w_open w \<and> c_fd c \<in> dom (w_interest w)) \<and>
     dom (w_interest w) \<subseteq> w_open w \<and>
     finite (dom (w_objs w)) \<and> w_user_count w = int (card (open_conns w))"

definition srv_inv :: "('db, 'sc) world \<Rightarrow> bool" where
  "srv_inv w \<longleftrightarrow> live w \<and> w_online w 0 = None \<and> base_inv w"

text \<open>No connection goes from one user to another.\<close>

definition no_relogin :: "('db, 'sc) world \<Rightarrow> ('db, 'sc) world \<Rightarrow> bool" where
  "no_relogin w w' \<longleftrightarrow> (\<forall>p c c'. deref p w = Some c \<and> deref p w' = Some c' \<and> c_user_id c \<noteq> 0 \<longrightarrow>
     c_user_id c' = c_user_id c)"

lemma served_deref:
  assumes "served conn w w'"
  shows "deref p w = Some c \<Longrightarrow> \<exists>c'. deref p w' = Some c' \<and> c_fd c' = c_fd c \<and> c_is_close c' = c_is_close c"
    and "deref p w' = Some c' \<Longrightarrow> \<exists>c. deref p w = Some c \<and> c_fd c' = c_fd c \<and> c_is_close c' = c_is_close c"
  using assms by (auto simp: served_def option_rel_Some1 option_rel_Some2 dest!: spec [of _ p])

lemma served_live:
  assumes l: "live w" and s: "served conn w w'"
    and c: "\<And>v p. w_online w' v = Some p \<Longrightarrow> w_online w v \<noteq> Some p \<Longrightarrow> p \<in> open_conns w"
    and u: "no_relogin w w'" "w_online w' 0 = None"
  shows "live w'"
  unfolding live_def
proof (intro allI impI)
  note d = served_deref [OF s]
  fix v p assume v: "w_online w' v = Some p"
  show "\<exists>c. w_objs w' p = Some c \<and> \<not> c_is_close c \<and> c_user_id c = v"
  proof (cases "w_online w v = Some p")
    case True
    with l obtain x where x: "deref p w = Some x" "\<not> c_is_close x" "c_user_id x = v"
      by (auto simp: live_def deref_def)
    have "v \<noteq> 0" using u(2) v by auto
    obtain x' where "deref p w' = Some x'" "\<not> c_is_close x'" using d(1) [OF x(1)] x(2) by auto
    with x \<open>v \<noteq> 0\<close> u(1) show ?thesis by (auto simp: no_relogin_def deref_def)
  next
    case False
    with s v have "p = conn \<and> (\<exists>x'. deref conn w' = Some x' \<and> c_user_id x' = v)"
      unfolding served_def by blast
    moreover from c [OF v False] obtain c0 where "deref p w = Some c0" "\<not> c_is_close c0"
      by (auto simp: open_conns_def)
    ultimately show ?thesis using d(1) [of conn c0] by (auto simp: deref_def)
  qed
qed

lemma served_owned:
  assumes own: "owned w" and s: "served conn w w'"
  shows "owned w'"
proof -
  note d = served_deref [OF s]
  have con: "w_connections w' = w_connections w" using s by (simp add: served_def)
  show ?thesis
    unfolding owned_def con
  proof (intro conjI allI impI)
    fix fd p assume "w_connections w fd = Some p"
    then obtain x where "deref p w = Some x" "c_fd x = fd" using own unfolding owned_def by blast
    with d(1) [of p x] show "\<exists>x. deref p w' = Some x \<and> c_fd x = fd" by auto
  next
    fix p x assume "deref p w' = Some x"
    from d(2) [OF this] own show "w_connections w (c_fd x) = Some p" by (auto simp: owned_def)
  qed
qed

lemma served_base:
  assumes I: "base_inv w" and s: "served conn w w'"
  shows "base_inv w'"
proof -
  note d = served_deref [OF s]
  have "open_conns w' = open_conns w" unfolding open_conns_def using d by blast
  moreover have "dom (w_objs w') = dom (w_objs w)" using d by (force simp: deref_def dom_def)
  moreover have "owned w'" by (rule served_owned [OF _ s]) (use I in \<open>simp add: base_inv_def\<close>)
  moreover have cnt: "w_user_count w' = w_user_count w" and ints: "dom (w_interest w') = dom (w_interest w)"
    and opn: "w_open w' = w_open w"
    using s by (simp_all add: served_def)
  moreover have "c_fd x \<in> w_open w \<and> c_fd x \<in> dom (w_interest w)" if x: "deref p w' = Some x" and nc: "\<not> c_is_close x" for p x
  proof -
    obtain y where "deref p w = Some y" "c_fd x = c_fd y" "c_is_close x = c_is_close y"
      using d(2) [OF x] by blast
    with I nc show ?thesis by (auto simp: base_inv_def)
  qed
  then have "\<forall>p x. deref p w' = Some x \<and> \<not> c_is_close x \<longrightarrow> c_fd x \<in> w_open w \<and> c_fd x \<in> dom (w_interest w)"
    by blast
  ultimately show ?thesis using I unfolding base_inv_def ints opn cnt by simp
qed

lemma static_base: "base_inv w \<Longrightarrow> static w w' \<Longrightarrow> base_inv w'"
  using served_base [OF _ static_served] .

lemma static_no_relogin:
  assumes "static w w'"
  shows "no_relogin w w'"
  unfolding no_relogin_def
proof (intro allI impI)
  fix p c c' assume "deref p w = Some c \<and> deref p w' = Some c' \<and> c_user_id c \<noteq> 0"
  moreover have "rel_option conn_static (deref p w) (deref p w')" using assms by (simp add: static_def)
  ultimately show "c_user_id c' = c_user_id c" by (auto simp: conn_static_def)
qed

lemma static_live:
  assumes "live w" and "w_online w 0 = None" and s: "static w w'"
  shows "live w'" and "w_online w' 0 = None"
proof -
  have on: "w_online w' = w_online w" using s by (simp add: static_def)
  show "w_online w' 0 = None" using on assms(2) by simp
  show "live w'" by (rule served_live [OF assms(1) static_served [OF s, of 0] _ static_no_relogin [OF s]]) (use on assms(2) in simp_all)
qed

lemma static_inv: "srv_inv w \<Longrightarrow> static w w' \<Longrightarrow> srv_inv w'"
  unfolding srv_inv_def using static_live static_base by blast

section \<open>Closing and opening keep the invariant\<close>

lemma delFd_keeps:
  "w_objs (snd (delFd fd w)) = w_objs w \<and> w_connections (snd (delFd fd w)) = w_connections w \<and>
   w_online (snd (delFd fd w)) = w_online w \<and> w_user_count (snd (delFd fd w)) = w_user_count w \<and>
   w_open (snd (delFd fd w)) = w_open w \<and> dom (w_interest w) - {fd} \<subseteq> dom (w_interest (snd (delFd fd w))) \<and>
   dom (w_interest (snd (delFd fd w))) \<subseteq> dom (w_interest w)"
  by (auto simp: delFd_def)

lemma CloseConn_effect:
  assumes c: "deref p w = Some c"
  obtains w' where "CloseConn p w = Some w'"
    and "w_objs w' = (w_objs w)(p \<mapsto> c\<lparr>c_is_close := True\<rparr>)" and "w_connections w' = w_connections w"
    and "w_user_count w' = (if c_is_close c then w_user_count w else w_user_count w - 1)"
    and "w_online w' = (if \<not> c_is_close c \<and> c_user_id c \<noteq> 0 then (w_online w)(c_user_id c := None) else w_online w)"
    and "w_open w' = (if c_is_close c then w_open w else w_open w - {c_fd c})"
    and "dom (w_interest w) - {c_fd c} \<subseteq> dom (w_interest w')"
    and "dom (w_interest w') \<subseteq> (if c_is_close c then dom (w_interest w) else dom (w_interest w) - {c_fd c})"
proof -
  let ?w = "snd (delFd (c_fd c) w)"
  note k = delFd_keeps [of "c_fd c" w]
  have d: "deref p ?w = Some c" using c k by (simp add: deref_def)
  show thesis
  proof (cases "c_is_close c")
    case True
    have "(w_objs w)(p \<mapsto> c\<lparr>c_is_close := True\<rparr>) = w_objs w"
      using c True by (auto simp: deref_def fun_upd_idem)
    with True c d k show thesis by (intro that [of ?w]) (simp_all add: CloseConn_def close_conn_def)
  next
    case False
    let ?w1 = "put_conn p (c\<lparr>c_is_close := True\<rparr>) ?w"
    let ?w2 = "?w1\<lparr>w_user_count := w_user_count ?w1 - 1\<rparr>"
    let ?w3 = "if c_user_id c \<noteq> 0 then remove_client (c_user_id c) ?w2 else ?w2"
    have on: "w_online ?w3 = (if c_user_id c \<noteq> 0 then (w_online w)(c_user_id c := None) else w_online w)"
      using k by (auto simp: remove_client_def put_conn_def)
    have run: "CloseConn p w = Some (close_fd (c_fd c) ?w3)"
      using False c d by (simp add: CloseConn_def close_conn_def Let_def)
    show thesis
      by (rule that [OF run])
        (use k on False in \<open>auto simp: close_fd_def remove_client_def put_conn_def\<close>)
  qed
qed


lemma CloseConn_run:
  assumes run: "CloseConn p w = Some w'"
  obtains c where "deref p w = Some c"
    and "\<forall>q. deref q w' = (if q = p then Some (c\<lparr>c_is_close := True\<rparr>) else deref q w)"
    and "w_connections w' = w_connections w" and "dom (w_objs w') = dom (w_objs w)"
    and "w_user_count w' = (if c_is_close c then w_user_count w else w_user_count w - 1)"
    and "w_online w' = (if \<not> c_is_close c \<and> c_user_id c \<noteq> 0 then (w_online w)(c_user_id c := None) else w_online w)"
    and "w_open w' = (if c_is_close c then w_open w else w_open w - {c_fd c})"
    and "dom (w_interest w) - {c_fd c} \<subseteq> dom (w_interest w')"
    and "dom (w_interest w') \<subseteq> (if c_is_close c then dom (w_interest w) else dom (w_interest w) - {c_fd c})"
proof -
  obtain c where c: "deref p w = Some c" using run by (auto simp: CloseConn_def bind_eq_Some_conv)
  from run CloseConn_effect [OF c] have w': "w_objs w' = (w_objs w)(p \<mapsto> c\<lparr>c_is_close := True\<rparr>)"
    "w_connections w' = w_connections w"
    "w_user_count w' = (if c_is_close c then w_user_count w else w_user_count w - 1)"
    "w_online w' = (if \<not> c_is_close c \<and> c_user_id c \<noteq> 0 then (w_online w)(c_user_id c := None) else w_online w)"
    "w_open w' = (if c_is_close c then w_open w else w_open w - {c_fd c})"
    "dom (w_interest w) - {c_fd c} \<subseteq> dom (w_interest w')"
    "dom (w_interest w') \<subseteq> (if c_is_close c then dom (w_interest w) else dom (w_interest w) - {c_fd c})"
    by (metis option.inject)+
  show thesis by (rule that [OF c _ w'(2) _ w'(3-7)]) (use w'(1) c in \<open>auto simp: deref_def\<close>)
qed

lemma CloseConn_live:
  assumes l: "live w" and z: "w_online w 0 = None" and c: "deref p w = Some c"
    and d: "\<And>q. deref q w' = (if q = p then Some (c\<lparr>c_is_close := True\<rparr>) else deref q w)"
    and on: "w_online w' = (if \<not> c_is_close c \<and> c_user_id c \<noteq> 0 then (w_online w)(c_user_id c := None) else w_online w)"
  shows "live w'"
  unfolding live_def
proof (intro allI impI)
  fix u q assume u: "w_online w' u = Some q"
  then have o: "w_online w u = Some q" and u0: "\<not> c_is_close c \<Longrightarrow> c_user_id c = 0 \<or> u \<noteq> c_user_id c"
    using on by (auto split: if_splits)
  with l obtain x where x: "deref q w = Some x" "\<not> c_is_close x" "c_user_id x = u"
    by (auto simp: live_def deref_def)
  have "q \<noteq> p" using x c u0 z o by auto
  with x d [of q] show "\<exists>x. w_objs w' q = Some x \<and> \<not> c_is_close x \<and> c_user_id x = u" by (simp add: deref_def)
qed

lemma CloseConn_base:
  assumes I: "base_inv w" and run: "CloseConn p w = Some w'"
  shows "base_inv w'"
proof -
  have own: "owned w" and fin: "finite (dom (w_objs w))"
    and cnt: "w_user_count w = int (card (open_conns w))"
    and op: "\<And>q x. deref q w = Some x \<Longrightarrow> \<not> c_is_close x \<Longrightarrow> c_fd x \<in> w_open w \<and> c_fd x \<in> dom (w_interest w)"
    and sub: "dom (w_interest w) \<subseteq> w_open w"
    using I by (auto simp: base_inv_def)
  obtain c where c: "deref p w = Some c"
    and d0: "\<forall>q. deref q w' = (if q = p then Some (c\<lparr>c_is_close := True\<rparr>) else deref q w)"
    and w': "w_connections w' = w_connections w" "dom (w_objs w') = dom (w_objs w)"
      "w_user_count w' = (if c_is_close c then w_user_count w else w_user_count w - 1)"
      "w_online w' = (if \<not> c_is_close c \<and> c_user_id c \<noteq> 0 then (w_online w)(c_user_id c := None) else w_online w)"
      "w_open w' = (if c_is_close c then w_open w else w_open w - {c_fd c})"
      "dom (w_interest w) - {c_fd c} \<subseteq> dom (w_interest w')"
      "dom (w_interest w') \<subseteq> (if c_is_close c then dom (w_interest w) else dom (w_interest w) - {c_fd c})"
    by (rule CloseConn_run [OF run])
  note d = d0 [rule_format]
  have other: "c_fd x \<noteq> c_fd c" if "deref q w = Some x" "q \<noteq> p" for q x
    using own c that unfolding owned_def by (metis option.inject)
  have ofin: "finite (open_conns w)" by (rule finite_subset [OF _ fin]) (auto simp: open_conns_def deref_def)
  have "open_conns w' = open_conns w - {p}" unfolding open_conns_def d by auto
  moreover have "p \<in> open_conns w \<longleftrightarrow> \<not> c_is_close c" using c by (auto simp: open_conns_def)
  moreover have "card (open_conns w) > 0" if "p \<in> open_conns w" using that ofin by (auto simp: card_gt_0_iff)
  ultimately have "w_user_count w' = int (card (open_conns w'))"
    using w'(3) cnt ofin by (auto simp: card_Diff_singleton of_nat_diff Suc_leI)
  moreover have "owned w'" using own c unfolding owned_def w'(1) d by (fastforce split: if_splits)
  moreover have "c_fd x \<in> w_open w' \<and> c_fd x \<in> dom (w_interest w')"
    if x: "deref q w' = Some x" and nc: "\<not> c_is_close x" for q x
  proof -
    from x nc d [of q] have q: "q \<noteq> p" "deref q w = Some x" by (auto split: if_splits)
    with op [OF q(2) nc] other [OF q(2,1)] w'(5,6) show ?thesis by auto
  qed
  moreover have "dom (w_interest w') \<subseteq> w_open w'" using w'(5,7) sub by (auto split: if_splits)
  ultimately show ?thesis using fin w'(2) unfolding base_inv_def by auto
qed

lemma CloseConn_registry:
  assumes "live w" and "w_online w 0 = None" and run: "CloseConn p w = Some w'"
  shows "live w' \<and> w_online w' 0 = None"
proof -
  obtain c where c: "deref p w = Some c"
    and d: "\<forall>q. deref q w' = (if q = p then Some (c\<lparr>c_is_close := True\<rparr>) else deref q w)"
    and on: "w_online w' = (if \<not> c_is_close c \<and> c_user_id c \<noteq> 0 then (w_online w)(c_user_id c := None) else w_online w)"
    by (rule CloseConn_run [OF run])
  have "w_online w' 0 = None" using assms(2) on by auto
  with CloseConn_live [OF assms(1,2) c d [rule_format] on] show ?thesis by simp
qed

lemma CloseConn_inv: "srv_inv w \<Longrightarrow> CloseConn p w = Some w' \<Longrightarrow> srv_inv w'"
  unfolding srv_inv_def using CloseConn_registry CloseConn_base by blast


lemma insert_conn_effect:
  assumes own: "owned w" and op: "\<And>q x. deref q w = Some x \<Longrightarrow> \<not> c_is_close x \<Longrightarrow> c_fd x \<in> w_open w"
    and p: "deref p w = None" and fd: "fd > 0" "fd \<notin> w_open w"
    and ins: "insert_conn fd p (accept_fd fd w) = Some w'"
  obtains c where "c_fd c = fd" and "\<not> c_is_close c"
    and "c_user_id c = 0" and "w_connections w' = (w_connections w)(fd \<mapsto> p)"
    and "w_user_count w' = w_user_count w + 1" and "w_online w' = w_online w"
    and "w_open w' = insert fd (w_open w)" and "w_interest w' = w_interest w"
    and "w_objs w' = (case w_connections w fd of None \<Rightarrow> w_objs w | Some q \<Rightarrow> (w_objs w)(q := None))(p \<mapsto> c)"
    and "\<forall>q x. w_connections w fd = Some q \<longrightarrow> deref q w = Some x \<longrightarrow> c_is_close x"
proof -
  obtain c where c: "conn_init fd TcpConnection_new = Some c" "c_fd c = fd" "\<not> c_is_close c" "c_user_id c = 0"
    using fd(1) by (simp add: conn_init_def)
  let ?w1 = "put_conn p c ((accept_fd fd w)\<lparr>w_user_count := w_user_count w + 1\<rparr>)"
  let ?w2 = "?w1\<lparr>w_connections := (w_connections w)(fd \<mapsto> p)\<rparr>"
  have old: "\<forall>q x. w_connections w fd = Some q \<longrightarrow> deref q w = Some x \<longrightarrow> c_is_close x"
    using own op fd(2) unfolding owned_def by fastforce
  show thesis
  proof (cases "w_connections w fd")
    case None
    have "insert_conn fd p (accept_fd fd w) = Some ?w2"
      using c(1) None by (simp add: insert_conn_def Let_def accept_fd_def put_conn_def)
    with ins have "w' = ?w2" by simp
    with c(2-4) None old show thesis by (intro that [of c]) (simp_all add: put_conn_def accept_fd_def)
  next
    case (Some q)
    then obtain x where x: "deref q w = Some x" using own unfolding owned_def by blast
    with p have "q \<noteq> p" by auto
    have "c_is_close x" using old Some x by blast
    with x \<open>q \<noteq> p\<close> have "destroy q ?w2 = Some (?w2\<lparr>w_objs := (w_objs ?w2)(q := None)\<rparr>)"
      by (simp add: destroy_def close_conn_def deref_def put_conn_def accept_fd_def)
    then have run: "insert_conn fd p (accept_fd fd w) = Some (?w2\<lparr>w_objs := (w_objs ?w2)(q := None)\<rparr>)"
      using c(1) Some by (simp add: insert_conn_def Let_def accept_fd_def put_conn_def)
    with ins have w': "w' = ?w2\<lparr>w_objs := (w_objs ?w2)(q := None)\<rparr>" by simp
    show thesis
      by (rule that [OF c(2-4)])
        (use w' Some \<open>q \<noteq> p\<close> old in \<open>auto simp: put_conn_def accept_fd_def fun_upd_twist\<close>)
  qed
qed

lemma register_conn_static:
  assumes "deref p w = Some c" and "fd \<in> w_open w" and "w_interest w fd = None" and "fd \<ge> 0"
    and reg: "register_conn ce fd p w = Some w'"
  obtains c' where "w_objs w' = (w_objs w)(p \<mapsto> c')" and "conn_static c c'"
    and "w_connections w' = w_connections w" and "w_user_count w' = w_user_count w" and "w_online w' = w_online w"
    and "w_open w' = w_open w" and "dom (w_interest w') = insert fd (dom (w_interest w))"
proof -
  let ?w1 = "w\<lparr>w_interest := (w_interest w)(fd \<mapsto> EPOLLIN OR ce)\<rparr>"
  let ?c = "c\<lparr>c_events := EPOLLIN OR ce\<rparr>"
  have "w' = put_conn p ?c ?w1"
    using assms by (simp add: register_conn_def addFd_def deref_def)
  then show thesis by (intro that [of ?c]) (auto simp: put_conn_def conn_static_def)
qed


text \<open>The state after an accepted connection has been inserted and registered.\<close>

lemma accept_effect:
  assumes I: "base_inv w" and p: "deref p w = None" and fd: "fd > 0" "fd \<notin> w_open w"
    and ins: "insert_conn fd p (accept_fd fd w) = Some w1" and reg: "register_conn ce fd p w1 = Some w2"
  obtains c where "c_fd c = fd" and "\<not> c_is_close c"
    and "\<forall>q. deref q w2 = (if q = p then Some c else if w_connections w fd = Some q then None else deref q w)"
    and "\<forall>q x. w_connections w fd = Some q \<longrightarrow> deref q w = Some x \<longrightarrow> c_is_close x"
    and "w_connections w2 = (w_connections w)(fd \<mapsto> p)" and "w_user_count w2 = w_user_count w + 1"
    and "w_online w2 = w_online w" and "w_open w2 = insert fd (w_open w)"
    and "dom (w_interest w2) = insert fd (dom (w_interest w))" and "finite (dom (w_objs w2))"
proof -
  have own: "owned w" and sub: "dom (w_interest w) \<subseteq> w_open w" and fin: "finite (dom (w_objs w))"
    and op: "\<And>q x. deref q w = Some x \<Longrightarrow> \<not> c_is_close x \<Longrightarrow> c_fd x \<in> w_open w"
    using I by (auto simp: base_inv_def)
  obtain c where w1: "c_fd c = fd" "\<not> c_is_close c" "c_user_id c = 0" "w_connections w1 = (w_connections w)(fd \<mapsto> p)"
    "w_user_count w1 = w_user_count w + 1" "w_online w1 = w_online w" "w_open w1 = insert fd (w_open w)"
    "w_interest w1 = w_interest w"
    "w_objs w1 = (case w_connections w fd of None \<Rightarrow> w_objs w | Some q \<Rightarrow> (w_objs w)(q := None))(p \<mapsto> c)"
    "\<forall>q x. w_connections w fd = Some q \<longrightarrow> deref q w = Some x \<longrightarrow> c_is_close x"
    by (rule insert_conn_effect [OF own op p fd ins])
  have nint: "w_interest w1 fd = None" using w1(8) sub fd(2) by auto
  have dp: "deref p w1 = Some c" using w1(9) by (simp add: deref_def)
  obtain c' where w2: "w_objs w2 = (w_objs w1)(p \<mapsto> c')" "conn_static c c'" "w_connections w2 = w_connections w1"
    "w_user_count w2 = w_user_count w1" "w_online w2 = w_online w1" "w_open w2 = w_open w1"
    "dom (w_interest w2) = insert fd (dom (w_interest w1))"
    by (rule register_conn_static [OF dp _ nint _ reg]) (use w1(7) fd(1) in auto)
  have "deref q w2 = (if q = p then Some c' else if w_connections w fd = Some q then None else deref q w)" for q
    using w1(9) w2(1) by (auto simp: deref_def split: option.splits)
  moreover have "finite (dom (w_objs w2))"
    using fin w1(9) w2(1) by (auto split: option.splits intro: finite_subset [OF dom_fun_upd [THEN equalityD1]])
  ultimately show thesis
    using w1 w2 by (intro that [of c']) (auto simp: conn_static_def)
qed

lemma accept_owned:
  assumes own: "owned w" and p: "deref p w = None" and c: "c_fd c = fd"
    and d: "\<And>q. deref q w2 = (if q = p then Some c else if w_connections w fd = Some q then None else deref q w)"
    and con: "w_connections w2 = (w_connections w)(fd \<mapsto> p)"
  shows "owned w2"
  unfolding owned_def
proof (intro conjI allI impI)
  fix f q assume f: "w_connections w2 f = Some q"
  show "\<exists>x. deref q w2 = Some x \<and> c_fd x = f"
  proof (cases "f = fd")
    case True
    with f con c d [of q] show ?thesis by simp
  next
    case False
    with f con have "w_connections w f = Some q" by simp
    then obtain x where x: "deref q w = Some x" "c_fd x = f" using own unfolding owned_def by blast
    have "w_connections w fd \<noteq> Some q" using own x False unfolding owned_def by (metis option.inject)
    with x p d [of q] show ?thesis by auto
  qed
next
  fix q x assume x: "deref q w2 = Some x"
  show "w_connections w2 (c_fd x) = Some q"
  proof (cases "q = p")
    case True
    with x d [of q] c con show ?thesis by simp
  next
    case False
    with x d [of q] have q: "w_connections w fd \<noteq> Some q" "deref q w = Some x" by (auto split: if_splits)
    then have "w_connections w (c_fd x) = Some q" using own unfolding owned_def by blast
    with q(1) con show ?thesis by auto
  qed
qed

lemma accept_base:
  assumes I: "base_inv w" and p: "deref p w = None" and fd: "fd > 0" "fd \<notin> w_open w"
    and run: "insert_conn fd p (accept_fd fd w) = Some w1" "register_conn ce fd p w1 = Some w2"
  shows "base_inv w2 \<and> w_open w2 = insert fd (w_open w) \<and> (\<forall>q. q \<noteq> p \<and> deref q w = None \<longrightarrow> deref q w2 = None)"
proof -
  have own: "owned w" and fin: "finite (dom (w_objs w))"
    and cnt: "w_user_count w = int (card (open_conns w))"
    and op: "\<And>q x. deref q w = Some x \<Longrightarrow> \<not> c_is_close x \<Longrightarrow> c_fd x \<in> w_open w \<and> c_fd x \<in> dom (w_interest w)"
    and sub: "dom (w_interest w) \<subseteq> w_open w"
    using I by (auto simp: base_inv_def)
  obtain c where c: "c_fd c = fd" "\<not> c_is_close c"
    and d0: "\<forall>q. deref q w2 = (if q = p then Some c else if w_connections w fd = Some q then None else deref q w)"
    and closed0: "\<forall>q x. w_connections w fd = Some q \<longrightarrow> deref q w = Some x \<longrightarrow> c_is_close x"
    and w2: "w_connections w2 = (w_connections w)(fd \<mapsto> p)" "w_user_count w2 = w_user_count w + 1"
      "w_online w2 = w_online w" "w_open w2 = insert fd (w_open w)"
      "dom (w_interest w2) = insert fd (dom (w_interest w))" "finite (dom (w_objs w2))"
    by (rule accept_effect [OF I p fd run])
  note d = d0 [rule_format] and closed = closed0 [rule_format]
  have "open_conns w2 = insert p (open_conns w)"
    unfolding open_conns_def d using c(2) closed p by auto
  moreover have "p \<notin> open_conns w" "finite (open_conns w)"
    using p finite_subset [OF _ fin, of "open_conns w"] by (auto simp: open_conns_def deref_def)
  ultimately have "w_user_count w2 = int (card (open_conns w2))" using cnt w2(2) by simp
  moreover have "owned w2" by (rule accept_owned [OF own p c(1) d w2(1)])
  moreover have "\<forall>q x. deref q w2 = Some x \<and> \<not> c_is_close x \<longrightarrow> c_fd x \<in> w_open w2 \<and> c_fd x \<in> dom (w_interest w2)"
    unfolding d using op c(1) w2(4,5) by auto
  moreover have "dom (w_interest w2) \<subseteq> w_open w2" using sub w2(4,5) by auto
  ultimately have "base_inv w2" using w2(6) unfolding base_inv_def by simp
  with w2(4) show ?thesis unfolding d by simp
qed

lemma accept_registry:
  assumes I: "base_inv w" and p: "deref p w = None" and fd: "fd > 0" "fd \<notin> w_open w"
    and run: "insert_conn fd p (accept_fd fd w) = Some w1" "register_conn ce fd p w1 = Some w2"
    and l: "live w" and z: "w_online w 0 = None"
  shows "live w2 \<and> w_online w2 0 = None"
proof -
  obtain c where d: "\<forall>q. deref q w2 = (if q = p then Some c else if w_connections w fd = Some q then None else deref q w)"
    and closed: "\<forall>q x. w_connections w fd = Some q \<longrightarrow> deref q w = Some x \<longrightarrow> c_is_close x"
    and on: "w_online w2 = w_online w"
    by (rule accept_effect [OF I p fd run])
  have "\<exists>x. w_objs w2 q = Some x \<and> \<not> c_is_close x \<and> c_user_id x = u" if u: "w_online w2 u = Some q" for u q
  proof -
    obtain x where x: "deref q w = Some x" "\<not> c_is_close x" "c_user_id x = u"
      using u l on by (auto simp: live_def deref_def)
    then have "q \<noteq> p" "w_connections w fd \<noteq> Some q" using p closed by auto
    with x d show ?thesis by (simp add: deref_def)
  qed
  with on z show ?thesis by (simp add: live_def)
qed


section \<open>What the kernel, the tasks and the sweep do\<close>

text \<open>
  \<open>accept\<close> returns descriptors that are not open, and a new object has an address that no
  live object has.
\<close>

definition fresh_accepts :: "(int \<times> nat \<times> int) list \<Rightarrow> ('db, 'sc) world \<Rightarrow> bool" where
  "fresh_accepts accepts w \<longleftrightarrow> distinct (map fst accepts) \<and> distinct (map (fst \<circ> snd) accepts) \<and>
     (\<forall>(fd, p, now) \<in> set accepts. fd \<notin> w_open w \<and> deref p w = None)"

abbreviation take_task :: "task \<Rightarrow> ('db, 'sc) world \<Rightarrow> ('db, 'sc) world" where
  "take_task t w \<equiv> w\<lparr>w_tasks := remove1 t (w_tasks w)\<rparr>"

text \<open>A task closes its connection, or it leaves the identity of every connection alone.\<close>

lemma OnWrite_cases:
  assumes run: "OnWrite e ce rs p w = Some (w', out)"
  shows "\<exists>w1. static w w1 \<and> (static w1 w' \<or> CloseConn p w1 = Some w')"
proof -
  obtain c ret er c1 where c: "deref p w = Some c" "conn_write (e_is_et e) rs c = Some (ret, er, c1, out)"
    using run by (auto simp: OnWrite_def bind_eq_Some_conv)
  have "(\<exists>ev. rearm p ev (put_conn p c1 w) = Some w') \<or> CloseConn p (put_conn p c1 w) = Some w'"
    using run c by (auto simp: OnWrite_def Let_def bind_eq_Some_conv split: if_splits)
  moreover have "deref p (put_conn p c1 w) = Some c1" by simp
  ultimately have "static (put_conn p c1 w) w' \<or> CloseConn p (put_conn p c1 w) = Some w'"
    by (metis rearm_static option.inject)
  with static_put [OF c(1) conn_write_static [OF c(2)]] show ?thesis by blast
qed

lemma OnRead_cases:
  assumes run: "OnRead e ce rs p w = Some w'"
  shows "served p w w' \<or> (\<exists>w1. static w w1 \<and> CloseConn p w1 = Some w')"
proof -
  obtain c ret er c1 where c: "deref p w = Some c" "conn_read (e_is_et e) rs c = Some (ret, er, c1)"
    using run by (auto simp: OnRead_def bind_eq_Some_conv)
  let ?w = "put_conn p c1 w"
  note cs = conn_read_static [OF c(2)]
  have st: "static w ?w" by (rule static_put [OF c(1) cs])
  show ?thesis
  proof (cases "ret \<le> 0 \<and> er \<noteq> Some EAGAIN")
    case True
    with run c have "CloseConn p ?w = Some w'" by (simp add: OnRead_def)
    with st show ?thesis by blast
  next
    case False
    with run c obtain ok w1 ev where r: "conn_process e p ?w = Some (ok, w1)" "rearm p ev w1 = Some w'"
      by (auto simp: OnRead_def OnProcess_def bind_eq_Some_conv)
    from conn_process_served [OF _ r(1), of c1] have "served p w w1" by (intro static_then_served [OF st]) simp
    moreover obtain c2 where "deref p w1 = Some c2" using r(2) by (auto simp: rearm_def bind_eq_Some_conv)
    from rearm_static [OF this, of ev] r(2) have "static w1 w'" by (metis option.inject)
    ultimately show ?thesis using served_then_static by blast
  qed
qed

lemma push_pending_steps:
  "push_pending e u reqs w = safe_step.steps (\<lambda>(u, d). push_to_user e u d)
     (map (Pair u) (List.map_filter (\<lambda>r. e_serialize e (pending_envelope (e_time e) r)) reqs)) w"
  by (induction reqs arbitrary: w) (auto simp: List.map_filter_simps split: option.splits bind_splits)

lemma pending_task_safe: "live w \<Longrightarrow> \<exists>w'. pending_task e u w = Some w' \<and> quiet w w'"
proof -
  assume l: "live w"
  let ?w = "w\<lparr>w_db := snd (FriendDao_GetPendingRequests (e_mysql e) u (w_db w))\<rparr>"
  have "live ?w" using l by simp
  then obtain w' where "pending_task e u w = Some w'" "quiet ?w w'"
    using pushes.steps_ok [of ?w e]
    by (auto simp: pending_task_def GetPendingRequests_def with_db_eq push_pending_steps)
  then show ?thesis using quiet_trans [of w ?w w'] by simp
qed

lemma quiet_static: "quiet w w' \<Longrightarrow> static w w'"
proof -
  assume q: "quiet w w'"
  have "rel_option conn_static (deref p w) (deref p w')" for p
    using quiet_deref [OF q, of p]
    by (cases "deref p w") (auto simp: conn_static_def dest!: conn_grows_same)
  with q show ?thesis by (simp add: static_def quiet_def)
qed

lemma pending_task_static: "pending_task e u w = Some w' \<Longrightarrow> static w w'"
  by (rule quiet_static [OF pending_task_quiet])

text \<open>A sweep of the timer closes connections and does nothing else.\<close>

lemma timer_callback_preserves:
  assumes close: "\<And>p w w'. CloseConn p w = Some w' \<Longrightarrow> P w \<Longrightarrow> P w'" and inv: "\<And>w. P w \<Longrightarrow> base_inv w"
    and w: "\<exists>w. wo = Some w \<and> P w"
  shows "\<exists>w'. timer_callback k wo = Some w' \<and> P w'"
proof -
  obtain w where w: "wo = Some w" "P w" using w by blast
  show ?thesis
  proof (cases "w_connections w (int k)")
    case None
    with w show ?thesis by (simp add: timer_callback_def)
  next
    case (Some p)
    with inv [OF w(2)] obtain c where "deref p w = Some c" unfolding base_inv_def owned_def by blast
    then obtain w' where r: "CloseConn p w = Some w'" by (rule CloseConn_effect)
    with Some w(1) have "timer_callback k wo = Some w'" by (simp add: timer_callback_def)
    with close [OF r w(2)] show ?thesis by blast
  qed
qed

lemma timer_callback_base: "base_inv w \<Longrightarrow> \<exists>w'. timer_callback k (Some w) = Some w' \<and> base_inv w'"
  by (rule timer_callback_preserves [where P = base_inv]) (auto intro: CloseConn_base)

lemma next_wait_preserves:
  assumes close: "\<And>p w w'. CloseConn p w = Some w' \<Longrightarrow> P w \<Longrightarrow> P w'" and inv: "\<And>w. P w \<Longrightarrow> base_inv w"
    and "P (s_world s)" and run: "next_wait stray clock t s = Some (ms, s')"
  shows "P (s_world s')"
proof (cases "s_timeout_ms s > 0")
  case True
  with run obtain k wo h w where t: "Tick stray (Some timer_callback) clock (0, Some (s_world s), s_timer s) = Some (k, wo, h)"
    and w: "wo = Some w" "s_world s' = w"
    by (auto simp: next_wait_def GetNextTick_def Let_def bind_eq_Some_conv)
  have "\<exists>w. wo = Some w \<and> P w"
    by (rule Tick_invariant [where P = "\<lambda>wo. \<exists>w. wo = Some w \<and> P w", OF timer_callback_preserves [OF close inv] _ t])
      (use assms(3) in simp_all)
  with w show ?thesis by simp
next
  case False
  with assms show ?thesis by (simp add: next_wait_def)
qed

lemma fresh_deliver: "fresh_accepts accepts (deliver fd w) = fresh_accepts accepts w"
  by (simp add: fresh_accepts_def deliver_def deref_def split: option.splits)

lemma SendError_static:
  assumes I: "base_inv w" and "fd \<notin> w_open w" and run: "SendError fd (accept_fd fd w) = Some w'"
  shows "static w w'"
proof -
  have "w_interest w fd = None" using I assms(2) by (auto simp: base_inv_def)
  then have "(w_interest w)(fd := None) = w_interest w" by (rule fun_upd_idem)
  then have "static w (close_fd fd (accept_fd fd w))"
    using assms(2) by (simp add: static_def close_fd_def accept_fd_def deref_def)
  moreover have "w' = close_fd fd (accept_fd fd w)" using run by (simp add: SendError_def split: if_splits)
  ultimately show ?thesis by simp
qed

lemma AddClient_world:
  assumes "AddClient stray now fd p s = Some s'"
  shows "fd > 0 \<and> s_conn_event s' = s_conn_event s \<and> (\<exists>w1. insert_conn fd p (s_world s) = Some w1 \<and>
     register_conn (s_conn_event s) fd p w1 = Some (s_world s'))"
  using assms by (auto simp: AddClient_def on_world_def bind_eq_Some_conv split: if_splits)

text \<open>An accepted connection, and the connections that wait behind it.\<close>

lemma AddClient_base:
  assumes I: "base_inv (s_world s)" and fr: "fresh_accepts ((fd, p, now) # accepts) (s_world s)"
    and run: "AddClient stray now fd p (s\<lparr>s_world := accept_fd fd (s_world s)\<rparr>) = Some s1"
  shows "base_inv (s_world s1)" and "fresh_accepts accepts (s_world s1)"
proof -
  from AddClient_world [OF run] obtain w1 where w1: "fd > 0" "insert_conn fd p (accept_fd fd (s_world s)) = Some w1"
    "register_conn (s_conn_event s) fd p w1 = Some (s_world s1)" by auto
  have new: "fd \<notin> w_open (s_world s)" "deref p (s_world s) = None" using fr by (simp_all add: fresh_accepts_def)
  note a = accept_base [OF I new(2) w1(1) new(1) w1(2,3)]
  from a show "base_inv (s_world s1)" by simp
  show "fresh_accepts accepts (s_world s1)"
    unfolding fresh_accepts_def
  proof (intro conjI ballI, goal_cases)
    case (3 x)
    obtain f q t where x: "x = (f, q, t)" by (cases x)
    have "f \<noteq> fd" "q \<noteq> p" "f \<notin> w_open (s_world s)" "deref q (s_world s) = None"
      using fr 3 x by (auto simp: fresh_accepts_def image_iff)
    with a x show ?case by simp
  qed (use fr in \<open>simp_all add: fresh_accepts_def\<close>)
qed

section \<open>Properties that everything keeps\<close>

text \<open>
  What the sweep, the events and the tasks do to the shared state is made of three elementary
  changes: one that leaves the registrations and the identity of every connection alone, closing a
  connection, and accepting one. A property that these keep, together with \<open>base_inv\<close>, is
  kept by all of them.
\<close>

locale world_property =
  fixes P :: "('db, 'sc) world \<Rightarrow> bool"
  assumes unmoved: "static w w' \<Longrightarrow> P w \<Longrightarrow> P w'"
    and closed: "base_inv w \<Longrightarrow> CloseConn p w = Some w' \<Longrightarrow> P w \<Longrightarrow> P w'"
    and accepted: "base_inv w \<Longrightarrow> deref p w = None \<Longrightarrow> fd > 0 \<Longrightarrow> fd \<notin> w_open w \<Longrightarrow>
      insert_conn fd p (accept_fd fd w) = Some w1 \<Longrightarrow> register_conn ce fd p w1 = Some w2 \<Longrightarrow> P w \<Longrightarrow> P w2"
begin

definition keeps :: "('db, 'sc) world \<Rightarrow> bool" where
  "keeps w \<longleftrightarrow> base_inv w \<and> P w"

lemma keeps_static: "static w w' \<Longrightarrow> keeps w \<Longrightarrow> keeps w'"
  unfolding keeps_def using static_base unmoved by blast

lemma keeps_close: "CloseConn p w = Some w' \<Longrightarrow> keeps w \<Longrightarrow> keeps w'"
  unfolding keeps_def using CloseConn_base closed by blast

lemma keeps_wait:
  assumes "keeps (s_world s)" and "next_wait stray clock t s = Some (ms, s')"
  shows "keeps (s_world s')"
proof (rule next_wait_preserves [where P = keeps, OF keeps_close _ assms])
  show "keeps w \<Longrightarrow> base_inv w" for w by (simp add: keeps_def)
qed

lemma keeps_listen:
  assumes "keeps (s_world s)" and "fresh_accepts accepts (s_world s)" and "DealListen stray accepts s = Some s'"
  shows "keeps (s_world s')"
  using assms
proof (induction accepts arbitrary: s)
  case (Cons a accepts)
  obtain fd p now where a: "a = (fd, p, now)" by (cases a)
  note fr = Cons.prems(2) [unfolded a]
  have I: "base_inv (s_world s)" "P (s_world s)" and new: "fd \<notin> w_open (s_world s)" "deref p (s_world s) = None"
    using Cons.prems(1) fr by (simp_all add: keeps_def fresh_accepts_def)
  show ?case
  proof (cases "fd \<le> 0 \<or> w_user_count (s_world s) \<ge> MAX_FD")
    case True
    then have "s' = s \<or> SendError fd (accept_fd fd (s_world s)) = Some (s_world s')"
      using Cons.prems(3) a by (auto simp: on_world_def Let_def split: if_splits)
    then show ?thesis using Cons.prems(1) keeps_static [OF SendError_static [OF I(1) new(1)]] by auto
  next
    case False
    with Cons.prems(3) a obtain s1 where s1: "AddClient stray now fd p (s\<lparr>s_world := accept_fd fd (s_world s)\<rparr>) = Some s1"
      "s' = s1 \<or> DealListen stray accepts s1 = Some s'"
      by (auto simp: Let_def bind_eq_Some_conv split: if_splits)
    note n = AddClient_base [OF I(1) fr s1(1)]
    from AddClient_world [OF s1(1)] accepted [OF I(1) new(2) _ new(1) _ _ I(2)] have "P (s_world s1)" by auto
    with n have "keeps (s_world s1)" by (simp add: keeps_def)
    with s1(2) n(2) Cons.IH [of s1] show ?thesis by auto
  qed
qed simp

lemma keeps_event:
  assumes "keeps (s_world s)" and "fresh_accepts accepts (s_world s)" and "handle_event stray now accepts ev s = Some s'"
  shows "keeps (s_world s')"
proof (cases "fst ev = s_listen_fd s")
  case True
  with assms(3) have "DealListen stray accepts s = Some s'" by (simp add: handle_event_def split: prod.splits)
  then show ?thesis by (rule keeps_listen [OF assms(1,2)])
next
  case False
  with assms(3) have "(\<exists>p. CloseConn p (s_world s) = Some (s_world s')) \<or> static (s_world s) (s_world s')"
    by (cases ev) (auto simp: handle_event_def on_world_def DealRead_def DealWrite_def ExtendTime_def bind_eq_Some_conv
        split: if_splits)
  with assms(1) keeps_static keeps_close show ?thesis by blast
qed

lemma keeps_task: "keeps w \<Longrightarrow> keeps (take_task t w)"
  by (rule keeps_static [OF static_db(2)])

lemma keeps_write: "keeps w \<Longrightarrow> OnWrite e ce rs p (take_task t w) = Some (w', out) \<Longrightarrow> keeps w'"
  using OnWrite_cases [of e ce rs p "take_task t w" w' out] keeps_task [of w t] keeps_static keeps_close by blast

lemma keeps_pending: "keeps w \<Longrightarrow> pending_task e u (take_task t w) = Some w' \<Longrightarrow> keeps w'"
  using keeps_static [OF pending_task_static keeps_task] by blast

lemma keeps_late_push: "keeps w \<Longrightarrow> push_found e conn d w = Some w' \<Longrightarrow> keeps w'"
  using keeps_static [OF quiet_static [OF push_found_quiet]] by blast

end

text \<open>A property that does not depend on the users either: reading keeps it too.\<close>

locale served_property =
  fixes P :: "('db, 'sc) world \<Rightarrow> bool"
  assumes served: "served p w w' \<Longrightarrow> P w \<Longrightarrow> P w'"
    and closing: "base_inv w \<Longrightarrow> CloseConn p w = Some w' \<Longrightarrow> P w \<Longrightarrow> P w'"
    and accepting: "base_inv w \<Longrightarrow> deref p w = None \<Longrightarrow> fd > 0 \<Longrightarrow> fd \<notin> w_open w \<Longrightarrow>
      insert_conn fd p (accept_fd fd w) = Some w1 \<Longrightarrow> register_conn ce fd p w1 = Some w2 \<Longrightarrow> P w \<Longrightarrow> P w2"

sublocale served_property \<subseteq> world_property P
  by unfold_locales (rule served [OF static_served], assumption+, rule closing, assumption+, rule accepting)

context served_property
begin

lemma keeps_read:
  assumes I: "keeps w" and run: "OnRead e ce rs p (take_task t w) = Some w'"
  shows "keeps w'"
  using OnRead_cases [OF run]
proof (elim disjE exE conjE)
  assume "served p (take_task t w) w'"
  with keeps_task [OF I, of t] show ?thesis unfolding keeps_def using served_base served by blast
next
  fix w1 assume "static (take_task t w) w1" "CloseConn p w1 = Some w'"
  with keeps_task [OF I] keeps_static keeps_close show ?thesis by blast
qed

end

interpretation base: served_property "\<lambda>w. True"
  by unfold_locales simp_all

lemma base_keeps [simp]: "base.keeps w = base_inv w"
  by (simp add: base.keeps_def)

interpretation registry: world_property "\<lambda>w. live w \<and> w_online w 0 = None"
  by unfold_locales (auto dest: static_live CloseConn_registry accept_registry)

lemma registry_keeps [simp]: "registry.keeps w = srv_inv w"
  by (auto simp: registry.keeps_def srv_inv_def)

section \<open>Every run of the server\<close>

text \<open>
  The steps of the server. The main thread sweeps the timer and handles events that the kernel
  delivers; the worker threads take the tasks in any order. A push that a worker has begun can end
  in a later step: \<open>late_push\<close> uses a pointer, any pointer, that a lookup gave at some earlier time.
  Where a step is not defined (the timer's assertion, a pointer to an object that is gone) there is
  no further state.
\<close>

inductive server_step :: "('db, 'sc) server_env \<Rightarrow> ('db, 'sc) server \<Rightarrow> ('db, 'sc) server \<Rightarrow> bool" for e where
  tick: "next_wait stray clock t s = Some (ms, s') \<Longrightarrow> server_step e s s'"
| event: "fresh_accepts accepts (s_world s) \<Longrightarrow>
    handle_event stray now accepts ev (s\<lparr>s_world := deliver (fst ev) (s_world s)\<rparr>) = Some s' \<Longrightarrow> server_step e s s'"
| receive: "OnReadTask p \<in> set (w_tasks (s_world s)) \<Longrightarrow>
    OnRead e (s_conn_event s) rs p (take_task (OnReadTask p) (s_world s)) = Some w' \<Longrightarrow>
    server_step e s (s\<lparr>s_world := w'\<rparr>)"
| send: "OnWriteTask p \<in> set (w_tasks (s_world s)) \<Longrightarrow>
    OnWrite e (s_conn_event s) rs p (take_task (OnWriteTask p) (s_world s)) = Some (w', out) \<Longrightarrow>
    server_step e s (s\<lparr>s_world := w'\<rparr>)"
| pending: "PushPendingTask u \<in> set (w_tasks (s_world s)) \<Longrightarrow>
    pending_task e u (take_task (PushPendingTask u) (s_world s)) = Some w' \<Longrightarrow> server_step e s (s\<lparr>s_world := w'\<rparr>)"
| late_push: "push_found e (Some p) d (s_world s) = Some w' \<Longrightarrow> server_step e s (s\<lparr>s_world := w'\<rparr>)"

inductive_cases server_step_cases: "server_step e s s'"

definition started :: "('db, 'sc) server \<Rightarrow> bool" where
  "started s \<longleftrightarrow> w_objs (s_world s) = Map.empty \<and> w_connections (s_world s) = Map.empty \<and>
     w_online (s_world s) = Map.empty \<and> w_user_count (s_world s) = 0 \<and>
     dom (w_interest (s_world s)) \<subseteq> w_open (s_world s)"

inductive server_run :: "('db, 'sc) server_env \<Rightarrow> ('db, 'sc) server \<Rightarrow> bool" for e where
  start: "started s \<Longrightarrow> server_run e s"
| step: "server_run e s \<Longrightarrow> server_step e s s' \<Longrightarrow> server_run e s'"

text \<open>
  The registry of online users is kept only by runs in which no connection that has a user gets
  another one, no failed account lookup registers the user 0, and only connections that are still
  open are registered. It is reading alone that can break these, by a login.
\<close>

definition orderly :: "('db, 'sc) world \<Rightarrow> ('db, 'sc) world \<Rightarrow> bool" where
  "orderly w w' \<longleftrightarrow> no_relogin w w' \<and> w_online w' 0 = None \<and>
     (\<forall>u p. w_online w' u = Some p \<and> w_online w u \<noteq> Some p \<longrightarrow> p \<in> open_conns w)"

inductive orderly_run :: "('db, 'sc) server_env \<Rightarrow> ('db, 'sc) server \<Rightarrow> bool" for e where
  start: "started s \<Longrightarrow> orderly_run e s"
| step: "orderly_run e s \<Longrightarrow> server_step e s s' \<Longrightarrow> orderly (s_world s) (s_world s') \<Longrightarrow> orderly_run e s'"

lemma orderly_server_run: "orderly_run e s \<Longrightarrow> server_run e s"
  by (induction rule: orderly_run.induct) (auto intro: server_run.intros)

lemma started_inv: "started s \<Longrightarrow> srv_inv (s_world s)"
  by (auto simp: started_def srv_inv_def base_inv_def live_def owned_def deref_def open_conns_def)

context world_property
begin

text \<open>Every step but a reading one.\<close>

lemma keeps_step:
  assumes step: "server_step e s s'" and I: "keeps (s_world s)"
    and read: "\<And>p rs t w'. OnRead e (s_conn_event s) rs p (take_task t (s_world s)) = Some w' \<Longrightarrow>
      s_world s' = w' \<Longrightarrow> keeps w'"
  shows "keeps (s_world s')"
  using step
proof cases
  case (tick stray clock t ms)
  from keeps_wait [OF I this] show ?thesis .
next
  case (event accepts stray now ev)
  show ?thesis
    by (rule keeps_event [OF _ _ event(2)])
      (use keeps_static [OF deliver_static I] event(1) in \<open>simp_all add: fresh_deliver\<close>)
next
  case (receive p rs w')
  from read [OF receive(3)] receive(1) show ?thesis by simp
next
  case (send p rs w' out)
  from keeps_write [OF I send(3)] send(1) show ?thesis by simp
next
  case (pending u w')
  from keeps_pending [OF I pending(3)] pending(1) show ?thesis by simp
next
  case (late_push p d w')
  from keeps_late_push [OF I late_push(2)] late_push(1) show ?thesis by simp
qed

end

lemma server_run_base: "server_run e s \<Longrightarrow> base_inv (s_world s)"
proof (induction rule: server_run.induct)
  case (start s)
  then show ?case using started_inv by (auto simp: srv_inv_def)
next
  case (step s s')
  have I: "base.keeps (s_world s)" using step.IH by simp
  have "base.keeps (s_world s')" by (rule base.keeps_step [OF step.hyps(2) I]) (rule base.keeps_read [OF I])
  then show ?case by simp
qed

lemma read_registry:
  assumes I: "srv_inv w" and run: "OnRead e ce rs p (take_task t w) = Some w'" and o: "orderly w w'"
  shows "srv_inv w'"
  using OnRead_cases [OF run]
proof (elim disjE exE conjE)
  assume s: "served p (take_task t w) w'"
  have g: "no_relogin (take_task t w) w'" "w_online w' 0 = None" using o by (simp_all add: orderly_def no_relogin_def)
  have l: "live (take_task t w)" using I by (simp add: srv_inv_def)
  have "live w'" by (rule served_live [OF l s _ g]) (use o in \<open>auto simp: orderly_def open_conns_def\<close>)
  with g(2) base.keeps_read [OF _ run] I show ?thesis by (simp add: srv_inv_def)
next
  fix w1 assume "static (take_task t w) w1" "CloseConn p w1 = Some w'"
  moreover have "srv_inv (take_task t w)" using registry.keeps_task [of w t] I by simp
  ultimately show ?thesis using CloseConn_inv static_inv by blast
qed

lemma orderly_run_inv: "orderly_run e s \<Longrightarrow> srv_inv (s_world s)"
proof (induction rule: orderly_run.induct)
  case (start s)
  then show ?case by (rule started_inv)
next
  case (step s s')
  have "registry.keeps (s_world s')"
    by (rule registry.keeps_step [OF step.hyps(2)])
      (use step.IH read_registry [OF step.IH] step.hyps(3) in simp_all)
  then show ?case by simp
qed


text \<open>A server that has just started; descriptor 3 listens.\<close>

definition ex_start :: "(db_view, mem_store) server" where
  "ex_start = \<lparr>s_world = ex_world\<lparr>w_objs := Map.empty, w_connections := Map.empty, w_online := Map.empty,
       w_user_count := 0, w_open := {3}, w_interest := [3 \<mapsto> EPOLLIN]\<rparr>,
     s_timer = HeapTimer_new, s_timeout_ms = 0, s_listen_fd = 3, s_listen_event = EPOLLRDHUP,
     s_conn_event = EPOLLONESHOT OR EPOLLRDHUP\<rparr>"


end
