(* ===== verification/Server_Behaviour.thy ===== *)
theory Server_Behaviour
  imports Webserver
begin

text \<open>
  What the parts of the server do together: a request on a connection is read, answered and the
  answer sent; and the places where the handling of connections, pushes and timers does not fit.
\<close>

section \<open>A chat connection\<close>

definition chat_conn :: "nat \<Rightarrow> tcp_conn \<Rightarrow> ('db, 'sc) world \<Rightarrow> bool" where
  "chat_conn p c w \<longleftrightarrow> deref p w = Some c \<and> \<not> c_is_close c \<and>
     (c_determined c \<longrightarrow> c_handler c = Some ProtobufH \<and> c_type c = PROTOBUF) \<and>
     buf_ok (c_read_buff c) \<and> buf_ok (c_write_buff c) \<and>
     0 \<le> c_fd c \<and> c_fd c \<in> w_open w \<and> c_fd c \<in> dom (w_interest w)"

text \<open>The first byte of a frame within the limit is 0, so no frame looks like a request line.\<close>

lemma frame_not_http:
  assumes "length s \<le> kMaxMessageSize"
  shows "\<not> is_http_request (frame s @ r)"
proof -
  have "unat (word_of_nat (length s) :: u32) = length s"
    using assms by (simp add: unsigned_of_nat take_bit_nat_eq_self kMaxMessageSize_def)
  then have "unat (drop_bit 24 (word_of_nat (length s) :: u32)) = length s div 2 ^ 24"
    by (metis unat_drop_bit_eq drop_bit_eq_div)
  also have "\<dots> = 0" using assms by (simp add: kMaxMessageSize_def)
  finally have "\<exists>xs. take 4 (frame s @ r) = char_of (0 :: nat) # xs"
    by (simp add: frame_def htonl_bytes_def)
  then obtain xs where "take 4 (frame s @ r) = CHR 0x00 # xs" by (auto simp: char_of_def)
  then show ?thesis by (simp add: is_http_request_def)
qed

lemma determine_chat:
  assumes c: "chat_conn p c w" and r: "contents (c_read_buff c) = frame payload @ rest"
    and n: "length payload \<le> kMaxMessageSize"
  obtains c1 where "determine_protocol c = (True, c1)" and "c_handler c1 = Some ProtobufH"
    and "chat_conn p c1 (put_conn p c1 w)" and "c_determined c1" and "c_read_buff c1 = c_read_buff c"
    and "c_write_buff c1 = c_write_buff c" and "c_outgoing c1 = c_outgoing c" and "c_fd c1 = c_fd c"
    and "conn_static c c1"
proof -
  have ok: "buf_ok (c_read_buff c)" using c by (simp add: chat_conn_def)
  have data: "bytes_at (c_read_buff c) (peek (c_read_buff c)) (readable_bytes (c_read_buff c)) = frame payload @ rest"
    using bytes_at_peek [of "c_read_buff c"] r by simp
  have "readable_bytes (c_read_buff c) \<noteq> 0"
    using readable_bytes_contents [OF ok] r by (simp add: frame_def)
  with data frame_not_http [OF n, of rest]
  have go: "determine_protocol c = (True, if c_determined c then c
      else c\<lparr>c_handler := Some ProtobufH, c_type := PROTOBUF, c_determined := True\<rparr>)" (is "_ = (True, ?c1)")
    by (simp add: determine_protocol_def)
  show thesis
    by (rule that [OF go]) (use c in \<open>auto simp: chat_conn_def put_conn_def deref_def conn_static_def\<close>)
qed

lemma conn_process_chat:
  assumes c: "chat_conn p c w" and l: "live w" and r: "contents (c_read_buff c) = frame payload @ rest"
    and n: "length payload \<le> kMaxMessageSize" and req: "e_parse e payload = Some request"
  obtains w' c' response q where "conn_process e p w = Some (True, w')" and "chat_conn p c' w'" and "c_determined c'"
    and "contents (c_read_buff c') = rest" and "answers request response"
    and "contents (c_write_buff c') = contents (c_write_buff c) @ response_bytes e response"
    and "c_outgoing c' = c_outgoing c @ q" and "c_fd c' = c_fd c"
proof -
  from determine_chat [OF c r n] obtain c1 where c1: "determine_protocol c = (True, c1)"
    "c_handler c1 = Some ProtobufH" "chat_conn p c1 (put_conn p c1 w)" "c_determined c1" "c_read_buff c1 = c_read_buff c"
    "c_write_buff c1 = c_write_buff c" "c_outgoing c1 = c_outgoing c" "c_fd c1 = c_fd c" "conn_static c c1" .
  let ?w = "put_conn p c1 w"
  have d: "deref p w = Some c" using c by (simp add: chat_conn_def)
  have lw: "live ?w" by (rule live_put [OF l d]) (use c1(9) in \<open>simp_all add: conn_static_def\<close>)
  have dec: "decode_bytes (e_parse e) (contents (c_read_buff c1)) = (Some request, rest)"
    using decode_frame [OF n] r req c1(5) by simp
  from ProtobufHandler_answers [OF lw _ _ _ dec, where conn = p] c1(3) obtain w' c' response where
    a: "ProtobufHandler_Process e p ?w = Some (True, w')" "deref p w' = Some c'" "contents (c_read_buff c') = rest"
      "answers request response"
      "contents (c_write_buff c') = contents (c_write_buff c1) @ response_bytes e response"
      "conn_served c1 c'" "w_open w' = w_open ?w" "dom (w_interest w') = dom (w_interest ?w)"
    by (auto simp: chat_conn_def)
  have "conn_process e p w = Some (True, w')" using a(1) c1(1,2) d by (simp add: conn_process_def)
  moreover have "chat_conn p c' w'" "c_determined c'" "c_fd c' = c_fd c"
    using a(2,6-8) c1(2-4,8) by (auto simp: chat_conn_def conn_served_def)
  ultimately show thesis using that a(3-6) c1(6,7) unfolding conn_served_def by auto
qed

lemma rearm_chat:
  assumes c: "chat_conn p c w"
  obtains w' where "rearm p ev w = Some w'" and "chat_conn p (c\<lparr>c_events := ev\<rparr>) w'"
    and "w_interest w' (c_fd c) = Some ev"
proof -
  have d: "deref p w = Some c" using c by (simp add: chat_conn_def)
  from rearm_static [OF d, of ev] obtain w' where w': "rearm p ev w = Some w'" "static w w'"
    "deref p w' = Some (c\<lparr>c_events := ev\<rparr>)" "w_interest w' (c_fd c) = Some ev"
    using c by (auto simp: chat_conn_def domIff)
  moreover have "chat_conn p (c\<lparr>c_events := ev\<rparr>) w'"
    using c w'(2,3) by (auto simp: chat_conn_def static_def)
  ultimately show thesis using that by blast
qed

lemma conn_write_shape:
  "\<not> sends_iov c \<Longrightarrow> conn_write is_et rs c = Some (len, err, c', out) \<Longrightarrow>
   \<exists>b. c' = c\<lparr>c_outgoing := [], c_write_buff := b\<rparr>"
  by (auto simp: conn_write_def sends_iov_def flush_pending_to_buffer_def bind_eq_Some_conv)

lemma OnWrite_chat:
  assumes c: "chat_conn p c w" "c_determined c"
    and out: "out = contents (c_write_buff c) @ concat (c_outgoing c)" "out \<noteq> []"
  obtains w' c' where "OnWrite e ce [Ok (length out)] p w = Some (w', out)" and "chat_conn p c' w'" and "c_determined c'"
    and "c_read_buff c' = c_read_buff c" and "pending_out c' = []" and "w_interest w' (c_fd c) = Some (ce OR EPOLLIN)"
    and "c_fd c' = c_fd c"
proof -
  have d: "deref p w = Some c" using c by (simp add: chat_conn_def)
  have ns: "\<not> sends_iov c" using c by (simp add: chat_conn_def sends_iov_def)
  have po: "pending_out c = out" using ns out(1) by (simp add: pending_out_def)
  have ok: "out_ok c" using c ns by (simp add: out_ok_def chat_conn_def)
  from conn_write_all [OF ok, of "e_is_et e" "[]"] out(2) po obtain c1 where
    w: "conn_write (e_is_et e) [Ok (length out)] c = Some (int (length out), None, c1, out)" "pending_out c1 = []"
    by auto
  obtain b where b: "c1 = c\<lparr>c_outgoing := [], c_write_buff := b\<rparr>" using conn_write_shape [OF ns w(1)] by blast
  have okb: "buf_ok b" using conn_write_buffered [OF ok ns w(1)] b by (simp add: out_ok_def)
  have ns1: "\<not> sends_iov c1" using ns b by (simp add: sends_iov_def)
  have e: "contents b = []" using w(2) ns1 b by (simp add: pending_out_def)
  then have t: "to_write_bytes c1 = 0"
    using b okb c ns1 by (simp add: to_write_bytes_def chat_conn_def buf_ok_empty)
  have k: "conn_keep_alive c1" using b c by (simp add: conn_keep_alive_def chat_conn_def)
  have "chat_conn p c1 (put_conn p c1 w)"
    using c b okb by (simp add: chat_conn_def) (simp add: put_conn_def)
  then obtain w' where w': "rearm p (ce OR EPOLLIN) (put_conn p c1 w) = Some w'"
      "chat_conn p (c1\<lparr>c_events := ce OR EPOLLIN\<rparr>) w'" "w_interest w' (c_fd c1) = Some (ce OR EPOLLIN)"
    by (rule rearm_chat)
  have "OnWrite e ce [Ok (length out)] p w = Some (w', out)"
    using d w(1) t k w'(1) by (simp add: OnWrite_def)
  moreover have "pending_out (c1\<lparr>c_events := ce OR EPOLLIN\<rparr>) = []"
    using b e ns by (auto simp: pending_out_def sends_iov_def)
  ultimately show thesis using w' b c(2) by (intro that [of w' "c1\<lparr>c_events := ce OR EPOLLIN\<rparr>"]) simp_all
qed

section \<open>Reading\<close>

text \<open>What the kernel gives to one call of \<open>read\<close> when the bytes arrive in pieces.\<close>

definition arrival :: "bool \<Rightarrow> bytes list \<Rightarrow> bytes sysret list" where
  "arrival is_et chunks = (if is_et then map Ok chunks @ [Fail EAGAIN] else [Ok (concat chunks)])"

lemma read_loop_chunks:
  assumes "buf_ok b" and "[] \<notin> set chunks"
  shows "\<exists>b'. read_loop True (map Ok chunks @ [r]) err b =
      do { (len, e, b2) \<leftarrow> read_fd r b'; Some (if len \<le> 0 then (len, case e of None \<Rightarrow> err | Some x \<Rightarrow> Some x, b2)
            else (-1, Some EAGAIN, b2)) } \<and>
    buf_ok b' \<and> contents b' = contents b @ concat chunks"
  using assms
proof (induction chunks arbitrary: b)
  case Nil
  then show ?case by (intro exI [of _ b]) (auto split: bind_splits)
next
  case (Cons x chunks)
  obtain b1 where b1: "read_fd (Ok x) b = Some (int (length x), None, b1)" "buf_ok b1" "contents b1 = contents b @ x"
    by (rule read_fd_Some [OF Cons.prems(1)])
  have "length x > 0" using Cons.prems(2) by auto
  moreover have "[] \<notin> set chunks" using Cons.prems(2) by simp
  ultimately show ?case using Cons.IH [OF b1(2)] b1(1,3) by (simp add: Let_def)
qed

lemma conn_read_arrival:
  assumes "buf_ok (c_read_buff c)" and "[] \<notin> set chunks" and "chunks \<noteq> []"
  obtains ret err b where "conn_read is_et (arrival is_et chunks) c = Some (ret, err, c\<lparr>c_read_buff := b\<rparr>)"
    and "\<not> (ret \<le> 0 \<and> err \<noteq> Some EAGAIN)" and "buf_ok b" and "contents b = contents (c_read_buff c) @ concat chunks"
proof (cases is_et)
  case True
  from read_loop_chunks [OF assms(1,2), of "Fail EAGAIN" None] True show thesis
    by (auto simp: conn_read_def arrival_def read_fd_Fail intro: that)
next
  case False
  obtain b1 where b1: "read_fd (Ok (concat chunks)) (c_read_buff c) = Some (int (length (concat chunks)), None, b1)"
    "buf_ok b1" "contents b1 = contents (c_read_buff c) @ concat chunks"
    by (rule read_fd_Some [OF assms(1)])
  have "concat chunks \<noteq> []" using assms(2,3) by (cases chunks) auto
  then have "\<not> int (length (concat chunks)) \<le> 0" by simp
  with b1 False show thesis by (intro that) (auto simp: conn_read_def arrival_def)
qed

section \<open>A request and its answer\<close>

lemma in_mask:
  assumes "conn_mask_ok ce"
  shows "(ce OR EPOLLIN) AND EPOLLIN \<noteq> 0 \<and> (ce OR EPOLLIN) AND EPOLLOUT = 0"
  using assms by (simp add: conn_mask_ok_def bit.conj_disj_distrib2 and.commute [of EPOLLIN]) (simp add: epoll_masks)

text \<open>The read task on an idle connection goes on to process exactly what arrived.\<close>

lemma OnRead_arrival:
  assumes c: "chat_conn p c w" "contents (c_read_buff c) = []" and ch: "concat chunks = bs" "bs \<noteq> []" "[] \<notin> set chunks"
  obtains b where "OnRead e ce (arrival (e_is_et e) chunks) p w = OnProcess e ce p (put_conn p (c\<lparr>c_read_buff := b\<rparr>) w)"
    and "contents b = bs" and "chat_conn p (c\<lparr>c_read_buff := b\<rparr>) (put_conn p (c\<lparr>c_read_buff := b\<rparr>) w)"
proof -
  have d: "deref p w = Some c" "buf_ok (c_read_buff c)" using c(1) by (simp_all add: chat_conn_def)
  have "chunks \<noteq> []" using ch(1,2) by auto
  with conn_read_arrival [of c chunks "e_is_et e"] d(2) ch(1,3) c(2) obtain ret err b where
    rd: "conn_read (e_is_et e) (arrival (e_is_et e) chunks) c = Some (ret, err, c\<lparr>c_read_buff := b\<rparr>)"
      "\<not> (ret \<le> 0 \<and> err \<noteq> Some EAGAIN)" "buf_ok b" "contents b = bs" by auto
  have "chat_conn p (c\<lparr>c_read_buff := b\<rparr>) (put_conn p (c\<lparr>c_read_buff := b\<rparr>) w)"
    using c(1) rd(3) by (simp add: chat_conn_def) (simp add: put_conn_def)
  with d(1) rd show thesis by (intro that) (auto simp: OnRead_def Let_def)
qed

lemma request_processed:
  assumes l: "live w" and c: "chat_conn p c w" "contents (c_read_buff c) = []" "contents (c_write_buff c) = []"
      "c_outgoing c = []"
    and ch: "concat chunks = frame payload @ rest" "[] \<notin> set chunks"
    and n: "length payload \<le> kMaxMessageSize" and req: "e_parse e payload = Some request"
  obtains w1 c1 response where "OnRead e ce (arrival (e_is_et e) chunks) p w = Some w1"
    and "w_interest w1 (c_fd c) = Some (ce OR EPOLLOUT)" and "chat_conn p c1 w1" and "c_determined c1"
    and "contents (c_read_buff c1) = rest" and "answers request response"
    and "contents (c_write_buff c1) = response_bytes e response" and "c_fd c1 = c_fd c"
proof -
  have d: "deref p w = Some c" using c(1) by (simp add: chat_conn_def)
  have "frame payload @ rest \<noteq> []" by simp
  from OnRead_arrival [OF c(1,2) ch(1) this ch(2), of e ce] obtain b where
    rd: "OnRead e ce (arrival (e_is_et e) chunks) p w = OnProcess e ce p (put_conn p (c\<lparr>c_read_buff := b\<rparr>) w)"
      "contents b = frame payload @ rest" "chat_conn p (c\<lparr>c_read_buff := b\<rparr>) (put_conn p (c\<lparr>c_read_buff := b\<rparr>) w)" .
  let ?c = "c\<lparr>c_read_buff := b\<rparr>"
  let ?w = "put_conn p ?c w"
  have lw: "live ?w" by (rule live_put [OF l d]) simp_all
  have "contents (c_read_buff ?c) = frame payload @ rest" using rd(2) by simp
  from conn_process_chat [OF rd(3) lw this n req] obtain w' c' response q where
    p: "conn_process e p ?w = Some (True, w')" "chat_conn p c' w'" "c_determined c'" "contents (c_read_buff c') = rest"
      "answers request response"
      "contents (c_write_buff c') = contents (c_write_buff ?c) @ response_bytes e response"
      "c_outgoing c' = c_outgoing ?c @ q" "c_fd c' = c_fd ?c" .
  obtain w1 where w1: "rearm p (ce OR EPOLLOUT) w' = Some w1" "chat_conn p (c'\<lparr>c_events := ce OR EPOLLOUT\<rparr>) w1"
      "w_interest w1 (c_fd c') = Some (ce OR EPOLLOUT)"
    by (rule rearm_chat [OF p(2)])
  have "OnRead e ce (arrival (e_is_et e) chunks) p w = Some w1"
    using rd(1) p(1) w1(1) by (simp add: OnProcess_def)
  then show thesis
    by (rule that [OF _ _ w1(2)]) (use w1(3) p(3-8) c(3) in simp_all)
qed

lemma answered:
  assumes "live w" and "chat_conn p c w" and "contents (c_read_buff c) = []" and "contents (c_write_buff c) = []"
    and "c_outgoing c = []" and "concat chunks = frame payload @ rest" and "[] \<notin> set chunks"
    and "length payload \<le> kMaxMessageSize" and "e_parse e payload = Some request"
    and ser: "\<And>r. e_serialize e r \<noteq> None"
  shows "\<exists>w1 w2 c2 response d q. OnRead e ce (arrival (e_is_et e) chunks) p w = Some w1 \<and>
     w_interest w1 (c_fd c) = Some (ce OR EPOLLOUT) \<and>
     answers request response \<and> e_serialize e response = Some d \<and>
     OnWrite e ce [Ok (length (frame d @ concat q))] p w1 = Some (w2, frame d @ concat q) \<and>
     w_interest w2 (c_fd c) = Some (ce OR EPOLLIN) \<and> chat_conn p c2 w2 \<and>
     contents (c_read_buff c2) = rest \<and> pending_out c2 = []"
proof -
  obtain w1 c1 response where r: "OnRead e ce (arrival (e_is_et e) chunks) p w = Some w1"
    "w_interest w1 (c_fd c) = Some (ce OR EPOLLOUT)" "chat_conn p c1 w1" "c_determined c1"
    "contents (c_read_buff c1) = rest" "answers request response"
    "contents (c_write_buff c1) = response_bytes e response" "c_fd c1 = c_fd c"
    by (rule request_processed [OF assms(1-9), of ce])
  obtain d where d: "e_serialize e response = Some d" using ser by blast
  let ?out = "frame d @ concat (c_outgoing c1)"
  obtain w2 c2 where w2: "OnWrite e ce [Ok (length ?out)] p w1 = Some (w2, ?out)" "chat_conn p c2 w2"
      "c_read_buff c2 = c_read_buff c1" "pending_out c2 = []" "w_interest w2 (c_fd c1) = Some (ce OR EPOLLIN)"
    by (rule OnWrite_chat [OF r(3,4), of ?out e ce]) (use r(7) d in \<open>simp_all add: response_bytes_def\<close>)
  show ?thesis
    using r d w2
    by (intro exI [of _ w1] exI [of _ w2] exI [of _ c2] exI [of _ response] exI [of _ d] exI [of _ "c_outgoing c1"]) simp
qed

text \<open>
  Property C3. A request that arrives on an idle chat connection, in whatever pieces and in either
  trigger mode, is answered: the read task leaves the connection armed for writing, and when the
  kernel then takes what is offered, the write task sends a frame with a response to that request
  (followed by frames pushed to the connection meanwhile), after which the connection is idle and
  armed for reading again.
\<close>

theorem request_answered:
  assumes "live w" and "chat_conn p c w" and "contents (c_read_buff c) = []"
    and "contents (c_write_buff c) = []" and "c_outgoing c = []"
    and "concat chunks = frame payload" and "[] \<notin> set chunks"
    and "length payload \<le> kMaxMessageSize" and "e_parse e payload = Some request"
    and "\<And>r. e_serialize e r \<noteq> None"
  shows "\<exists>w1 w2 c2 response d q. OnRead e ce (arrival (e_is_et e) chunks) p w = Some w1 \<and>
     w_interest w1 (c_fd c) = Some (ce OR EPOLLOUT) \<and>
     answers request response \<and> e_serialize e response = Some d \<and>
     OnWrite e ce [Ok (length (frame d @ concat q))] p w1 = Some (w2, frame d @ concat q) \<and>
     w_interest w2 (c_fd c) = Some (ce OR EPOLLIN) \<and> chat_conn p c2 w2 \<and>
     contents (c_read_buff c2) = [] \<and> pending_out c2 = []"
  by (rule answered [OF assms(1-5) _ assms(7-10)]) (use assms(6) in simp)

definition ex_idle :: "(db_view, mem_store) world" where
  "ex_idle = ex_world\<lparr>w_objs := [0 \<mapsto> ex_c0\<lparr>c_read_buff := Buffer_new 1024\<rparr>, 1 \<mapsto> ex_c1]\<rparr>"

lemma ex_idle_ok: "live ex_idle" "chat_conn 0 (ex_c0\<lparr>c_read_buff := Buffer_new 1024\<rparr>) ex_idle"
  "contents (c_read_buff (ex_c0\<lparr>c_read_buff := Buffer_new 1024\<rparr>)) = []"
  "contents (c_write_buff (ex_c0\<lparr>c_read_buff := Buffer_new 1024\<rparr>)) = []" "c_outgoing (ex_c0\<lparr>c_read_buff := Buffer_new 1024\<rparr>) = []"
  by (auto simp: live_def chat_conn_def ex_idle_def ex_world_def ex_c0_def ex_c1_def deref_def TcpConnection_new_def
      split: if_splits)

lemma ex_request: "e_parse ex_senv ''hb'' = Some ex_env" "length ''hb'' \<le> kMaxMessageSize"
  "\<And>r. e_serialize ex_senv r \<noteq> None"
  by (simp_all add: ex_senv_def ex_parse_def kMaxMessageSize_def)

theorem request_answered_witness:
  "\<exists>w1 w2 d q. OnRead ex_senv EPOLLONESHOT (arrival True [take 3 (frame ''hb''), drop 3 (frame ''hb'')]) 0 ex_idle = Some w1 \<and>
     w_interest w1 5 = Some (EPOLLONESHOT OR EPOLLOUT) \<and>
     OnWrite ex_senv EPOLLONESHOT [Ok (length (frame d @ concat q))] 0 w1 = Some (w2, frame d @ concat q) \<and>
     w_interest w2 5 = Some (EPOLLONESHOT OR EPOLLIN)"
proof -
  have "[] \<notin> set [take 3 (frame ''hb''), drop 3 (frame ''hb'')]" by (simp add: frame_def htonl_bytes_def)
  then show ?thesis
    using request_answered [OF ex_idle_ok, of "[take 3 (frame ''hb''), drop 3 (frame ''hb'')]" "''hb''" ex_senv ex_env
        EPOLLONESHOT] ex_request
    by (auto simp: ex_senv_def ex_c0_def)
qed

text \<open>
  Property C38. Of two requests that arrive together only the first is answered: after its answer
  has been sent the second lies complete in the read buffer, nothing is left to send, and the
  connection waits for bytes that need not come.
\<close>

theorem pipelined_request_stalls:
  assumes "live w" and "chat_conn p c w" and "contents (c_read_buff c) = []"
    and "contents (c_write_buff c) = []" and "c_outgoing c = []"
    and "concat chunks = frame payload @ frame payload2" and "[] \<notin> set chunks"
    and "length payload \<le> kMaxMessageSize" and "e_parse e payload = Some request"
    and "length payload2 \<le> kMaxMessageSize" and "e_parse e payload2 = Some request2"
    and "\<And>r. e_serialize e r \<noteq> None" and "conn_mask_ok ce"
  shows "\<exists>w1 w2 c2 response d q ev. OnRead e ce (arrival (e_is_et e) chunks) p w = Some w1 \<and>
     answers request response \<and> e_serialize e response = Some d \<and>
     OnWrite e ce [Ok (length (frame d @ concat q))] p w1 = Some (w2, frame d @ concat q) \<and>
     chat_conn p c2 w2 \<and> pending_out c2 = [] \<and>
     decode_bytes (e_parse e) (contents (c_read_buff c2)) = (Some request2, []) \<and>
     w_interest w2 (c_fd c) = Some ev \<and> ev AND EPOLLIN \<noteq> 0 \<and> ev AND EPOLLOUT = 0"
proof -
  from answered [OF assms(1-9,12), of ce] obtain w1 w2 c2 response d q where
    a: "OnRead e ce (arrival (e_is_et e) chunks) p w = Some w1"
     "answers request response" "e_serialize e response = Some d"
     "OnWrite e ce [Ok (length (frame d @ concat q))] p w1 = Some (w2, frame d @ concat q)"
     "w_interest w2 (c_fd c) = Some (ce OR EPOLLIN)" "chat_conn p c2 w2"
     "contents (c_read_buff c2) = frame payload2" "pending_out c2 = []"
    by blast
  moreover have "decode_bytes (e_parse e) (frame payload2) = (Some request2, [])"
    using decode_frame [OF assms(10), of "e_parse e" "[]"] assms(11) by simp
  ultimately show ?thesis using in_mask [OF assms(13)] by metis
qed

theorem pipelined_request_stalls_witness:
  "\<exists>w1 w2 c2 d q. OnRead ex_senv EPOLLONESHOT (arrival True [frame ''hb'' @ frame ''hb'']) 0 ex_idle = Some w1 \<and>
     OnWrite ex_senv EPOLLONESHOT [Ok (length (frame d @ concat q))] 0 w1 = Some (w2, frame d @ concat q) \<and>
     deref 0 w2 = Some c2 \<and> pending_out c2 = [] \<and>
     decode_bytes (e_parse ex_senv) (contents (c_read_buff c2)) = (Some ex_env, [])"
proof -
  have "[] \<notin> set [frame ''hb'' @ frame ''hb'']" by (simp add: frame_def)
  moreover have "conn_mask_ok EPOLLONESHOT" by (simp add: conn_mask_ok_def epoll_masks)
  ultimately show ?thesis
    using pipelined_request_stalls [OF ex_idle_ok, of "[frame ''hb'' @ frame ''hb'']" "''hb''" "''hb''" ex_senv ex_env
        ex_env EPOLLONESHOT] ex_request
    by (auto simp: ex_senv_def chat_conn_def)
qed

section \<open>Pushes\<close>

definition ex_queued_conn :: tcp_conn where
  "ex_queued_conn = ex_c0\<lparr>c_read_buff := Buffer_new 1024, c_handler := Some ProtobufH, c_type := PROTOBUF,
     c_determined := True, c_outgoing := [frame ''m'']\<rparr>"

definition ex_queued :: "(db_view, mem_store) world" where
  "ex_queued = ex_world\<lparr>w_objs := [0 \<mapsto> ex_queued_conn, 1 \<mapsto> ex_c1]\<rparr>"

lemma ex_queued_ok: "live ex_queued" "chat_conn 0 ex_queued_conn ex_queued" "c_determined ex_queued_conn"
  "pending_out ex_queued_conn \<noteq> []" "decode_bytes (e_parse ex_senv) (contents (c_read_buff ex_queued_conn)) = (None, [])"
  "pending_out ex_queued_conn = frame ''m''"
  by (auto simp: live_def chat_conn_def ex_queued_def ex_queued_conn_def ex_world_def ex_c0_def ex_c1_def deref_def
      TcpConnection_new_def pending_out_def sends_iov_def decode_bytes_def split: if_splits)

text \<open>
  Property C37. A push can be left waiting: when a read task finds no complete request (an
  incomplete frame, or one that does not parse), it arms the connection for reading only, although
  frames are queued on it for which \<open>notify_writable\<close> had asked for writing.
\<close>

theorem push_stranded:
  assumes l: "live w" and c: "chat_conn p c w" "c_determined c" and q: "pending_out c \<noteq> []"
    and d: "decode_bytes (e_parse e) (contents (c_read_buff c)) = (None, rest)" and m: "conn_mask_ok ce"
  shows "\<exists>w' c' ev. OnProcess e ce p w = Some w' \<and> deref p w' = Some c' \<and>
     pending_out c' = pending_out c \<and> pending_out c' \<noteq> [] \<and> w_interest w' (c_fd c) = Some ev \<and> ev AND EPOLLOUT = 0"
proof -
  have dp: "deref p w = Some c" "buf_ok (c_read_buff c)" "buf_ok (c_write_buff c)" using c(1) by (simp_all add: chat_conn_def)
  have det: "determine_protocol c = (True, c)" using c(2) by (simp add: determine_protocol_def)
  have [simp]: "put_conn p c w = w" using dp(1) by (simp add: put_conn_def deref_def fun_upd_idem)
  from ProtobufHandler_answers [OF l dp d] obtain w1 c1 where
    a: "ProtobufHandler_Process e p w = Some (False, w1)" "deref p w1 = Some c1"
      "contents (c_write_buff c1) = contents (c_write_buff c)" "conn_served c c1" "w_open w1 = w_open w"
      "dom (w_interest w1) = dom (w_interest w)" "c_outgoing c1 = c_outgoing c"
    by auto
  have c1: "chat_conn p c1 w1" using c a(2,4-6) by (auto simp: chat_conn_def conn_served_def)
  from rearm_chat [OF this, of "ce OR EPOLLIN"] obtain w' where
    r: "rearm p (ce OR EPOLLIN) w1 = Some w'" "chat_conn p (c1\<lparr>c_events := ce OR EPOLLIN\<rparr>) w'"
      "w_interest w' (c_fd c1) = Some (ce OR EPOLLIN)" .
  have "conn_process e p w = Some (False, w1)" using a(1) c dp(1) det by (simp add: conn_process_def chat_conn_def)
  then have run: "OnProcess e ce p w = Some w'" using r(1) by (simp add: OnProcess_def)
  have "\<not> sends_iov c" "\<not> sends_iov (c1\<lparr>c_events := ce OR EPOLLIN\<rparr>)"
    using c c1 a(4) by (auto simp: chat_conn_def sends_iov_def conn_served_def)
  then have po: "pending_out (c1\<lparr>c_events := ce OR EPOLLIN\<rparr>) = pending_out c" using a(3,7) by (simp add: pending_out_def)
  show ?thesis
  proof (intro exI conjI)
    show "OnProcess e ce p w = Some w'" by (rule run)
    show "deref p w' = Some (c1\<lparr>c_events := ce OR EPOLLIN\<rparr>)" using r(2) by (simp add: chat_conn_def)
    show "pending_out (c1\<lparr>c_events := ce OR EPOLLIN\<rparr>) = pending_out c" by (rule po)
    show "pending_out (c1\<lparr>c_events := ce OR EPOLLIN\<rparr>) \<noteq> []" using po q by simp
    show "w_interest w' (c_fd c) = Some (ce OR EPOLLIN)" using r(3) a(4) by (simp add: conn_served_def)
  qed (use in_mask [OF m] in blast)
qed

theorem push_stranded_witness:
  "\<exists>w' c' ev. OnProcess ex_senv EPOLLONESHOT 0 ex_queued = Some w' \<and> deref 0 w' = Some c' \<and>
     pending_out c' = frame ''m'' \<and> w_interest w' 5 = Some ev \<and> ev AND EPOLLOUT = 0"
proof -
  have "conn_mask_ok EPOLLONESHOT" by (simp add: conn_mask_ok_def epoll_masks)
  from push_stranded [OF ex_queued_ok(1-5) this] show ?thesis
    unfolding ex_queued_ok(6) by (auto simp: ex_queued_conn_def ex_c0_def)
qed

section \<open>Users and connections\<close>

text \<open>
  Closing an old connection of a user unregisters the user's newer connection: the
  entry is removed by user, not by connection. The newer connection stays open and unchanged, but
  every later push to the user is dropped.
\<close>

lemma older_connection_unregisters:
  assumes "deref p w = Some c" and "\<not> c_is_close c" and "c_user_id c = u" and "u \<noteq> 0"
    and "w_online w u = Some q" and "q \<noteq> p" and "deref q w = Some cq"
  shows "\<exists>w'. CloseConn p w = Some w' \<and> w_online w' u = None \<and> deref q w' = Some cq \<and>
    (\<forall>d. push_to_user e u d w' = Some w')"
  by (rule CloseConn_effect [OF assms(1)]) (use assms in \<open>auto simp: deref_def push_to_user_def push_found_def find_client_def\<close>)

lemma older_connection_unregisters_witness:
  "\<exists>w'. CloseConn 1 (ex_world\<lparr>w_objs := [0 \<mapsto> ex_c0\<lparr>c_user_id := 22\<rparr>, 1 \<mapsto> ex_c1], w_online := [22 \<mapsto> 0]\<rparr>) = Some w' \<and>
     w_online w' 22 = None \<and> deref 0 w' = Some (ex_c0\<lparr>c_user_id := 22\<rparr>)"
  using older_connection_unregisters [of 1 "ex_world\<lparr>w_objs := [0 \<mapsto> ex_c0\<lparr>c_user_id := 22\<rparr>, 1 \<mapsto> ex_c1], w_online := [22 \<mapsto> 0]\<rparr>"
      ex_c1 22 0 "ex_c0\<lparr>c_user_id := 22\<rparr>" ex_senv]
  by (auto simp: deref_def ex_c1_def)

text \<open>When the descriptor of a closed connection is used again, its object is destroyed.\<close>

lemma reuse_destroys:
  assumes "deref p w = Some x" and "c_is_close x" and "w_connections w fd = Some p" and "0 < fd" and "q \<noteq> p"
  obtains w' where "insert_conn fd q (accept_fd fd w) = Some w'" and "deref p w' = None" and "w_online w' = w_online w"
proof -
  obtain y where y: "conn_init fd TcpConnection_new = Some y" using assms(4) by (simp add: conn_init_def)
  let ?w = "(put_conn q y ((accept_fd fd w)\<lparr>w_user_count := w_user_count w + 1\<rparr>))
      \<lparr>w_connections := (w_connections w)(fd \<mapsto> q)\<rparr>"
  show thesis
    by (rule that [of "?w\<lparr>w_objs := (w_objs ?w)(p := None)\<rparr>"])
      (use y assms in \<open>simp_all add: insert_conn_def Let_def accept_fd_def put_conn_def destroy_def close_conn_def deref_def\<close>)
qed

text \<open>
  A push looks its receiver up under the lock of the registry and uses the pointer after the lock is
  gone. If the connection is closed in between and its descriptor used again, the object is destroyed
  and the push goes through a stale pointer, although the registry never had a wrong entry.
\<close>

lemma push_races_close:
  assumes I: "base_inv w" and u: "find_client u w = Some p" and c: "deref p w = Some c" "\<not> c_is_close c" "0 < c_fd c"
    and q: "deref q w = None"
  shows "\<exists>w1 w2. CloseConn p w = Some w1 \<and> insert_conn (c_fd c) q (accept_fd (c_fd c) w1) = Some w2 \<and>
    push_found e (find_client u w) d w2 = None"
proof -
  obtain w1 where w1: "CloseConn p w = Some w1" "w_objs w1 = (w_objs w)(p \<mapsto> c\<lparr>c_is_close := True\<rparr>)"
    "w_connections w1 = w_connections w"
    by (rule CloseConn_effect [OF c(1)])
  have "w_connections w (c_fd c) = Some p" using I c(1) by (auto simp: base_inv_def owned_def)
  moreover have "q \<noteq> p" using q c(1) by auto
  moreover have "deref p w1 = Some (c\<lparr>c_is_close := True\<rparr>)" by (simp add: deref_def w1(2))
  ultimately obtain w2 where "insert_conn (c_fd c) q (accept_fd (c_fd c) w1) = Some w2" "deref p w2 = None"
    using w1(3) c(3) reuse_destroys [of p w1 "c\<lparr>c_is_close := True\<rparr>" "c_fd c" q] by auto
  with w1(1) u show ?thesis by (auto simp: push_found_def enqueue_message_def)
qed

text \<open>
  Property C36. A second login on a connection, as another user, leaves the first registration in
  place. When the connection is closed and its descriptor is used again, the object is destroyed
  and the registration dangles: the next push to the first user goes through a stale pointer.
\<close>

theorem relogin_dangling:
  assumes I: "srv_inv w" and c: "deref p w = Some c" "\<not> c_is_close c" "0 < c_fd c" and q: "deref q w = None"
    and u: "a \<noteq> 0" "b \<noteq> 0" "a \<noteq> b"
  shows "\<exists>w1 w2 w3 w4. set_user_id p a w = Some w1 \<and> set_user_id p b w1 = Some w2 \<and> CloseConn p w2 = Some w3 \<and>
     insert_conn (c_fd c) q (accept_fd (c_fd c) w3) = Some w4 \<and>
     w_online w4 a = Some p \<and> deref p w4 = None \<and> push_to_user e a d w4 = None"
proof -
  define w1 where "w1 = add_client a p (put_conn p (c\<lparr>c_user_id := a\<rparr>) w)"
  define w2 where "w2 = add_client b p (put_conn p (c\<lparr>c_user_id := b\<rparr>) w1)"
  have 1: "set_user_id p a w = Some w1" using c by (simp add: set_user_id_def w1_def)
  have 2: "set_user_id p b w1 = Some w2" by (simp add: set_user_id_def w1_def w2_def add_client_def put_conn_def deref_def)
  have d2: "deref p w2 = Some (c\<lparr>c_user_id := b\<rparr>)" by (simp add: w2_def add_client_def put_conn_def deref_def)
  have conn: "w_connections w (c_fd c) = Some p" using I c(1) by (auto simp: srv_inv_def base_inv_def owned_def)
  obtain w3 where
    3: "CloseConn p w2 = Some w3" "w_objs w3 = (w_objs w2)(p \<mapsto> c\<lparr>c_user_id := b, c_is_close := True\<rparr>)"
       "w_connections w3 = w_connections w2" "w_online w3 = (w_online w2)(b := None)"
    by (rule CloseConn_effect [OF d2], rule that) (use c(2) u(2) in simp_all)
  have on: "w_online w3 a = Some p" using u(3) by (simp add: 3(4) w2_def w1_def add_client_def put_conn_def)
  have co: "w_connections w3 (c_fd c) = Some p" using conn by (simp add: 3(3) w2_def w1_def add_client_def put_conn_def)
  have qp: "q \<noteq> p" using q c(1) by auto
  have d3: "deref p w3 = Some (c\<lparr>c_user_id := b, c_is_close := True\<rparr>)" by (simp add: deref_def 3(2))
  obtain w4 where 4: "insert_conn (c_fd c) q (accept_fd (c_fd c) w3) = Some w4" "deref p w4 = None" "w_online w4 = w_online w3"
    by (rule reuse_destroys [OF d3 _ co c(3) qp]) simp
  from 4 on have "push_to_user e a d w4 = None"
    by (simp add: push_to_user_def push_found_def find_client_def enqueue_message_def)
  with 1 2 3(1) 4 on show ?thesis by auto
qed

lemma ex_world_inv: "srv_inv ex_world"
proof -
  have "open_conns ex_world = {0, 1}"
    by (auto simp: open_conns_def ex_world_def ex_c0_def ex_c1_def deref_def split: if_splits)
  then show ?thesis
    using ex_world_ok(1) by (auto simp: srv_inv_def base_inv_def owned_def ex_world_def ex_c0_def ex_c1_def deref_def split: if_splits)
qed

lemma push_races_close_witness:
  "\<exists>w1 w2. CloseConn 1 ex_world = Some w1 \<and> insert_conn 6 2 (accept_fd 6 w1) = Some w2 \<and>
     push_found ex_senv (find_client 22 ex_world) ''x'' w2 = None"
  using push_races_close [of ex_world 22 1 ex_c1 2 ex_senv "''x''"] ex_world_inv ex_world_ok(3)
  by (auto simp: srv_inv_def find_client_def ex_c1_def deref_def ex_world_def)

theorem relogin_dangling_witness:
  "\<exists>w1 w2 w3 w4. set_user_id 0 11 ex_world = Some w1 \<and> set_user_id 0 12 w1 = Some w2 \<and> CloseConn 0 w2 = Some w3 \<and>
     insert_conn 5 2 (accept_fd 5 w3) = Some w4 \<and> push_to_user ex_senv 11 ''x'' w4 = None"
  using relogin_dangling [OF ex_world_inv ex_world_ok(2), of 2 11 12 ex_senv "''x''"]
  by (auto simp: ex_c0_def deref_def ex_world_def)

section \<open>Ends of streams\<close>

lemma CloseConn_stores:
  assumes "deref p w = Some c" and "\<not> c_is_close c"
  shows "\<exists>w'. CloseConn p w = Some w' \<and> deref p w' = Some (c\<lparr>c_is_close := True\<rparr>) \<and>
     w_db w' = w_db w \<and> w_writer w' = w_writer w \<and> w_tasks w' = w_tasks w"
  using assms
  by (simp add: CloseConn_def close_conn_def delFd_def close_fd_def remove_client_def put_conn_def deref_def Let_def)

text \<open>
  In edge-triggered mode, a peer that sends requests and then shuts down its side has
  none of them processed: the read loop runs on to the end of the stream, and its result 0 closes
  the connection with the requests in the buffer.
\<close>

lemma data_before_fin_dropped:
  assumes et: "e_is_et e" and c: "deref p w = Some c" "\<not> c_is_close c" "buf_ok (c_read_buff c)"
    and ch: "[] \<notin> set chunks"
  shows "\<exists>w' c'. OnRead e ce (map Ok chunks @ [Ok []]) p w = Some w' \<and> deref p w' = Some c' \<and> c_is_close c' \<and>
     contents (c_read_buff c') = contents (c_read_buff c) @ concat chunks \<and>
     contents (c_write_buff c') = contents (c_write_buff c) \<and> c_user_id c' = c_user_id c \<and>
     w_db w' = w_db w \<and> w_writer w' = w_writer w \<and> w_tasks w' = w_tasks w"
proof -
  obtain b where b: "read_loop True (map Ok chunks @ [Ok []]) None (c_read_buff c) =
      do { (len, e, b2) \<leftarrow> read_fd (Ok []) b; Some (if len \<le> 0 then (len, case e of None \<Rightarrow> None | Some x \<Rightarrow> Some x, b2)
            else (-1, Some EAGAIN, b2)) }"
      "buf_ok b" "contents b = contents (c_read_buff c) @ concat chunks"
    using read_loop_chunks [OF c(3) ch, of "Ok []" None] by blast
  obtain b' where b': "read_fd (Ok []) b = Some (0, None, b')" "contents b' = contents b"
    using read_fd_Some [OF b(2), of "[]"] by auto
  let ?c = "c\<lparr>c_read_buff := b'\<rparr>"
  have rd: "conn_read (e_is_et e) (map Ok chunks @ [Ok []]) c = Some (0, None, ?c)"
    using et b(1) b'(1) by (simp add: conn_read_def)
  have d: "deref p (put_conn p ?c w) = Some ?c" by simp
  have nc: "\<not> c_is_close ?c" using c(2) by simp
  from CloseConn_stores [OF d nc] obtain w' where w': "CloseConn p (put_conn p ?c w) = Some w'"
      "deref p w' = Some (?c\<lparr>c_is_close := True\<rparr>)"
      "w_db w' = w_db (put_conn p ?c w) \<and> w_writer w' = w_writer (put_conn p ?c w) \<and> w_tasks w' = w_tasks (put_conn p ?c w)"
    by blast
  have "OnRead e ce (map Ok chunks @ [Ok []]) p w = Some w'"
    using c(1) rd w'(1) by (simp add: OnRead_def)
  with w'(2,3) b(3) b'(2) show ?thesis by (simp add: put_conn_def)
qed

lemma data_before_fin_dropped_witness:
  "\<exists>w' c'. OnRead ex_senv EPOLLONESHOT [Ok (frame ''hb''), Ok []] 0 ex_idle = Some w' \<and> deref 0 w' = Some c' \<and>
     c_is_close c' \<and> contents (c_read_buff c') = frame ''hb''"
  using data_before_fin_dropped [of ex_senv 0 ex_idle "ex_c0\<lparr>c_read_buff := Buffer_new 1024\<rparr>" "[frame ''hb'']" EPOLLONESHOT]
    ex_idle_ok
  by (auto simp: ex_senv_def chat_conn_def)

section \<open>Idle connections\<close>

lemma one_expiry:
  assumes t: "timer_ok h" "stray_ok st h" and n: "2 \<le> length (heap h)"
    and due: "count_ms (expires (hd (heap h)) - clock 0) \<le> 0"
    and rest: "\<And>nd. nd \<in># mset (heap h) - {#hd (heap h)#} \<Longrightarrow> 0 < count_ms (expires nd - clock 1)"
  obtains h' k where "Tick st cb clock (0, s, h) = Some (k, call_back cb (node_id (hd (heap h))) s, h')"
    and "heap h' \<noteq> []" and "\<And>T now. Adjust (int (node_id (hd (heap h')))) T now h' = None"
proof -
  have ne: "heap h \<noteq> []" using n by auto
  obtain h' where h': "Pop st h = Some h'" "mset (heap h') = mset (heap h) - {#hd (heap h)#}"
    by (rule Pop_correct [OF ne timer_okD(1,2) [OF t(1)] t(2)])
  have del: "Del st 0 h = Some h'" using h'(1) ne by (simp add: Pop_def)
  have "size (mset (heap h')) = length (heap h) - 1" using h'(2) ne by (simp add: size_Diff_singleton)
  then have ne': "heap h' \<noteq> []" using n by auto
  have "\<forall>T now. Adjust (int (node_id (heap h' ! 0))) T now h' = None"
    using Del_clears_wrong_ref [OF t, of 0] n del by auto
  then have adj: "Adjust (int (node_id (hd (heap h')))) T now h' = None" for T now using ne' by (simp add: hd_conv_nth)
  have "0 < count_ms (expires (hd (heap h')) - clock 1)"
    by (rule rest) (use ne' h'(2) in \<open>metis hd_in_set set_mset_mset\<close>)
  then have "Tick st cb clock (0, s, h) = Some (2, call_back cb (node_id (hd (heap h))) s, h')"
    using ne ne' due h'(1) by (simp add: Tick.simps)
  then show thesis using that ne' adj by blast
qed

text \<open>
  Property C35. The first idle expiry breaks the server: with two or more timers, when one expires,
  the timer that takes its place at the root of the heap is unlinked from its index, so that the
  next read or write event on that connection, which extends its time, fails an assertion (in a
  build without assertions it takes \<open>-1\<close> for an index and writes outside the heap).
\<close>

theorem expiry_aborts_server:
  assumes I: "srv_inv (s_world s)" and "timer_ok (s_timer s)" and "stray_ok st (s_timer s)"
    and "2 \<le> length (heap (s_timer s))" and to: "s_timeout_ms s > 0"
    and "count_ms (expires (hd (heap (s_timer s))) - clock 0) \<le> 0"
    and "\<And>nd. nd \<in># mset (heap (s_timer s)) - {#hd (heap (s_timer s))#} \<Longrightarrow> 0 < count_ms (expires nd - clock 1)"
  shows "\<exists>ms s' fd. next_wait st clock t s = Some (ms, s') \<and> heap (s_timer s') \<noteq> [] \<and>
     fd = int (node_id (hd (heap (s_timer s')))) \<and>
     (\<forall>p c now. deref p (s_world s') = Some c \<longrightarrow> c_fd c = fd \<longrightarrow>
        DealRead now p s' = None \<and> DealWrite now p s' = None)"
proof -
  let ?k = "node_id (hd (heap (s_timer s)))"
  obtain h' k where h': "Tick st (Some timer_callback) clock (0, Some (s_world s), s_timer s) =
        Some (k, call_back (Some timer_callback) ?k (Some (s_world s)), h')"
      "heap h' \<noteq> []" "\<And>T now. Adjust (int (node_id (hd (heap h')))) T now h' = None"
    by (rule one_expiry [of "s_timer s" st clock, OF assms(2-4,6,7)]) blast+
  obtain w' where w': "timer_callback ?k (Some (s_world s)) = Some w'" using timer_callback_base I unfolding srv_inv_def by blast
  let ?s = "s\<lparr>s_world := w', s_timer := h'\<rparr>"
  obtain ms where "next_wait st clock t s = Some (ms, ?s)"
    using h'(1) w' to by (auto simp: next_wait_def GetNextTick_def Let_def call_back_def)
  moreover have "DealRead now p ?s = None \<and> DealWrite now p ?s = None"
    if "deref p w' = Some c" "c_fd c = int (node_id (hd (heap h')))" for p c now
    using that h'(3) to by (simp add: DealRead_def DealWrite_def ExtendTime_def)
  ultimately show ?thesis using h'(2)
    by (intro exI [of _ ms] exI [of _ ?s] exI [of _ "int (node_id (hd (heap h')))"]) simp
qed

definition ex_timer :: heap_timer where
  "ex_timer = \<lparr>heap = [\<lparr>node_id = 5, expires = 5000000\<rparr>, \<lparr>node_id = 6, expires = 9000000\<rparr>],
     ref = [None, None, None, None, None, Some 0, Some 1]\<rparr>"

definition ex_server :: "(db_view, mem_store) server" where
  "ex_server = \<lparr>s_world = ex_world, s_timer = ex_timer, s_timeout_ms = 4, s_listen_fd = 3,
     s_listen_event = EPOLLRDHUP, s_conn_event = EPOLLONESHOT\<rparr>"

lemma ex_timer_ok: "timer_ok ex_timer" "stray_ok 0 ex_timer"
  by (auto simp: ex_timer_def timer_ok_def heap_ordered_def ids_in_def ref_ok_def stray_ok_def par_def less_Suc_eq
      nth_Cons numeral_nat split: nat.splits)

lemma ex_timer_pop:
  "Pop 0 ex_timer = Some \<lparr>heap = [\<lparr>node_id = 6, expires = 9000000\<rparr>], ref = [None, None, None, None, None, Some 1, None]\<rparr>"
proof -
  let ?h = "\<lparr>heap = [\<lparr>node_id = 6, expires = 9000000\<rparr>, \<lparr>node_id = 5, expires = 5000000\<rparr>],
     ref = [None, None, None, None, None, Some 1, Some 0]\<rparr>"
  have "SwapNode 0 1 ex_timer = Some ?h"
    by (simp add: SwapNode_def set_ref_def swap_at_def ex_timer_def numeral_nat)
  moreover have "SiftDown 0 1 ?h = Some (False, ?h)"
    by (simp add: SiftDown_def SiftDown_loop.simps [of 0 "Suc 0"])
  moreover have "SiftUp 0 0 ?h = Some ?h"
    by (simp add: SiftUp_def SiftUp_loop.simps [of 0 0])
  ultimately show ?thesis
    by (simp add: Pop_def Del_def ex_timer_def set_ref_def numeral_nat)
qed

lemma ex_timer_tick:
  "Tick 0 cb (\<lambda>_. 6000000) (0, s, ex_timer) = Some (2, call_back cb 5 s,
     \<lparr>heap = [\<lparr>node_id = 6, expires = 9000000\<rparr>], ref = [None, None, None, None, None, Some 1, None]\<rparr>)"
  using ex_timer_pop
  by (simp add: Tick.simps [of 0 cb _ 0] Tick.simps [of 0 cb _ "Suc 0"] count_ms_def ex_timer_def)

lemma ex_callback:
  "\<exists>w'. timer_callback 5 (Some ex_world) = Some w' \<and> deref 1 w' = Some ex_c1"
  by (simp add: timer_callback_def ex_world_def CloseConn_def close_conn_def deref_def delFd_def put_conn_def close_fd_def
      remove_client_def ex_c0_def Let_def)

theorem expiry_aborts_server_witness:
  "\<exists>ms s'. next_wait 0 (\<lambda>_. 6000000) (-1) ex_server = Some (ms, s') \<and>
     hd (heap (s_timer s')) = \<lparr>node_id = 6, expires = 9000000\<rparr> \<and> deref 1 (s_world s') = Some ex_c1 \<and>
     DealRead 7000000 1 s' = None"
proof -
  obtain ms s' fd where s': "next_wait 0 (\<lambda>_. 6000000) (-1) ex_server = Some (ms, s')"
      "fd = int (node_id (hd (heap (s_timer s'))))"
      "\<forall>p c now. deref p (s_world s') = Some c \<longrightarrow> c_fd c = fd \<longrightarrow> DealRead now p s' = None \<and> DealWrite now p s' = None"
    using expiry_aborts_server [of ex_server 0 "\<lambda>_. 6000000" "-1"] ex_world_inv ex_timer_ok
    by (auto simp: ex_server_def ex_timer_def count_ms_def)
  have "hd (heap (s_timer s')) = \<lparr>node_id = 6, expires = 9000000\<rparr>" and d: "deref 1 (s_world s') = Some ex_c1"
    using s'(1) ex_callback
    by (auto simp: ex_server_def next_wait_def GetNextTick_def ex_timer_tick call_back_def Let_def)
  with s' show ?thesis by (auto simp: ex_c1_def)
qed

end
