(* ===== verification/Block_Deque.thy ===== *)
theory Block_Deque
  imports Prelude
begin

text \<open>
  The queues between threads: the bounded deque of the logger (\<open>log/blockdeque.h\<close>) and the
  task queue of the thread pool (\<open>pool/threadpool.h\<close>).

  Model. A critical section is one step. A call that waits on a condition variable is given by
  the decision at its entry and the decision after a wake-up; \<open>None\<close> stands for (going back
  to) sleep. The items are arbitrary.
\<close>

section \<open>The deque\<close>

record 'a block_deque =
  deq :: "'a list"
  bd_capacity :: nat
  is_closed :: bool

definition BlockDeque_new :: "nat \<Rightarrow> 'a block_deque option" where
  "BlockDeque_new MaxCapacity =
     (if MaxCapacity > 0 then Some \<lparr>deq = [], bd_capacity = MaxCapacity, is_closed = False\<rparr> else None)"

definition bd_close :: "'a block_deque \<Rightarrow> 'a block_deque" where
  "bd_close q = q\<lparr>deq := [], is_closed := True\<rparr>"

definition BlockDeque_delete :: "'a block_deque \<Rightarrow> 'a block_deque" where
  "BlockDeque_delete q = bd_close q"

definition bd_clear :: "'a block_deque \<Rightarrow> 'a block_deque" where
  "bd_clear q = q\<lparr>deq := []\<rparr>"

definition bd_front :: "'a block_deque \<Rightarrow> 'a option" where
  "bd_front q = (if deq q = [] then None else Some (hd (deq q)))"

definition bd_back :: "'a block_deque \<Rightarrow> 'a option" where
  "bd_back q = (if deq q = [] then None else Some (last (deq q)))"

definition bd_size :: "'a block_deque \<Rightarrow> nat" where
  "bd_size q = length (deq q)"

definition bd_get_capacity :: "'a block_deque \<Rightarrow> nat" where
  "bd_get_capacity q = bd_capacity q"

definition bd_empty :: "'a block_deque \<Rightarrow> bool" where
  "bd_empty q \<longleftrightarrow> deq q = []"

definition bd_full :: "'a block_deque \<Rightarrow> bool" where
  "bd_full q \<longleftrightarrow> length (deq q) \<ge> bd_capacity q"

text \<open>The producers wait while the deque is full.\<close>

definition push_back :: "'a \<Rightarrow> 'a block_deque \<Rightarrow> 'a block_deque option" where
  "push_back item q = (if length (deq q) \<ge> bd_capacity q then None else Some (q\<lparr>deq := deq q @ [item]\<rparr>))"

definition push_back_move :: "'a \<Rightarrow> 'a block_deque \<Rightarrow> 'a block_deque option" where
  "push_back_move item q = (if length (deq q) \<ge> bd_capacity q then None else Some (q\<lparr>deq := deq q @ [item]\<rparr>))"

definition push_front :: "'a \<Rightarrow> 'a block_deque \<Rightarrow> 'a block_deque option" where
  "push_front item q = (if length (deq q) \<ge> bd_capacity q then None else Some (q\<lparr>deq := item # deq q\<rparr>))"

definition push_front_move :: "'a \<Rightarrow> 'a block_deque \<Rightarrow> 'a block_deque option" where
  "push_front_move item q = (if length (deq q) \<ge> bd_capacity q then None else Some (q\<lparr>deq := deq q @ [item]\<rparr>))"

text \<open>\<open>pop\<close> at its entry: the item and the deque without it, or sleep.\<close>

definition pop :: "'a block_deque \<Rightarrow> ('a \<times> 'a block_deque) option" where
  "pop q = (if deq q = [] then None else Some (hd (deq q), q\<lparr>deq := tl (deq q)\<rparr>))"

datatype 'a wake = ReturnFalse | Sleep | ReturnItem 'a "'a block_deque"

text \<open>\<open>pop\<close> after a wake-up, and the version with a timeout.\<close>

definition pop_woken :: "'a block_deque \<Rightarrow> 'a wake" where
  "pop_woken q = (if is_closed q then ReturnFalse
     else case pop q of None \<Rightarrow> Sleep | Some (x, q1) \<Rightarrow> ReturnItem x q1)"

definition pop_timeout_woken :: "bool \<Rightarrow> 'a block_deque \<Rightarrow> 'a wake" where
  "pop_timeout_woken timed_out q = (if timed_out then ReturnFalse else pop_woken q)"

section \<open>The thread pool\<close>

record 't thread_pool =
  tasks :: "'t list"
  isClosed :: bool

definition ThreadPool_new :: "nat \<Rightarrow> 't thread_pool option" where
  "ThreadPool_new threadCount = (if threadCount > 0 then Some \<lparr>tasks = [], isClosed = False\<rparr> else None)"

definition AddTask :: "'t \<Rightarrow> 't thread_pool \<Rightarrow> 't thread_pool" where
  "AddTask t p = p\<lparr>tasks := tasks p @ [t]\<rparr>"

definition ThreadPool_close :: "'t thread_pool \<Rightarrow> 't thread_pool" where
  "ThreadPool_close p = p\<lparr>isClosed := True\<rparr>"

datatype 't worker = RunTask 't "'t thread_pool" | Exit | WaitTask

text \<open>One pass of a worker's loop, with the lock held.\<close>

definition worker_loop :: "'t thread_pool \<Rightarrow> 't worker" where
  "worker_loop p =
     (if tasks p \<noteq> [] then RunTask (hd (tasks p)) (p\<lparr>tasks := tl (tasks p)\<rparr>)
      else if isClosed p then Exit else WaitTask)"

section \<open>First in, first out\<close>

text \<open>
  What both promise: an abstraction to a list, at whose end a successful \<open>put\<close> adds and from
  whose front \<open>get\<close> takes. \<open>run\<close> performs calls of several threads in the order of their
  critical sections; calls that cannot proceed change nothing.
\<close>

datatype 'a call = Put 'a | Get

locale fifo_queue =
  fixes abs :: "'q \<Rightarrow> 'a list" and ok :: "'q \<Rightarrow> bool" and put :: "'a \<Rightarrow> 'q \<Rightarrow> 'q option" and get :: "'q \<Rightarrow> ('a \<times> 'q) option"
  assumes put_abs: "put x q = Some q' \<Longrightarrow> ok q \<Longrightarrow> ok q' \<and> abs q' = abs q @ [x]"
    and get_abs: "get q = Some (x, q') \<Longrightarrow> ok q \<Longrightarrow> ok q' \<and> abs q = x # abs q'"
    and get_none: "get q = None \<Longrightarrow> abs q = []"
begin

fun run :: "'a call list \<Rightarrow> 'q \<Rightarrow> 'a list \<times> 'a list \<times> 'q" where
  "run [] q = ([], [], q)"
| "run (Put x # cs) q =
     (case put x q of
        None \<Rightarrow> run cs q
      | Some q' \<Rightarrow> (case run cs q' of (ins, outs, r) \<Rightarrow> (x # ins, outs, r)))"
| "run (Get # cs) q =
     (case get q of
        None \<Rightarrow> run cs q
      | Some (x, q') \<Rightarrow> (case run cs q' of (ins, outs, r) \<Rightarrow> (ins, x # outs, r)))"

lemma run_fifo:
  "run cs q = (ins, outs, r) \<Longrightarrow> ok q \<Longrightarrow> ok r \<and> abs q @ ins = outs @ abs r"
proof (induction cs q arbitrary: ins outs r rule: run.induct)
  case (2 x cs q)
  then show ?case
    by (cases "put x q") (fastforce split: prod.splits dest: put_abs)+
next
  case (3 cs q)
  then show ?case
    by (cases "get q") (fastforce split: prod.splits dest: get_abs)+
qed simp

text \<open>As many calls of \<open>get\<close> as there are items empty the queue, in order.\<close>

lemma run_drain: "ok q \<Longrightarrow> length (abs q) = n \<Longrightarrow> \<exists>r. run (replicate n Get) q = ([], abs q, r) \<and> abs r = []"
proof (induction n arbitrary: q)
  case (Suc n)
  then obtain x q' where g: "get q = Some (x, q')" using get_none [of q] by (cases "get q") auto
  with get_abs [OF this Suc.prems(1)] Suc.IH [of q'] Suc.prems(2) show ?case by auto
qed simp

end

interpretation bdq: fifo_queue deq "\<lambda>q. length (deq q) \<le> n \<and> bd_capacity q = n" push_back pop for n
  by unfold_locales (auto simp: push_back_def pop_def split: if_splits)

definition next_task :: "'t thread_pool \<Rightarrow> ('t \<times> 't thread_pool) option" where
  "next_task p = (case worker_loop p of RunTask t p1 \<Rightarrow> Some (t, p1) | _ \<Rightarrow> None)"

interpretation tpool: fifo_queue tasks "\<lambda>p. True" "\<lambda>t p. Some (AddTask t p)" next_task
  by unfold_locales (auto simp: AddTask_def next_task_def worker_loop_def split: if_splits)

text \<open>
  However the critical sections of producers and consumers are interleaved, the items
  that the consumers got, followed by those still in the deque, are the items that were accepted,
  in order, and the deque never holds more than its capacity. As many calls of \<open>pop\<close> as it has
  items empty it.
\<close>

lemma block_deque_fifo:
  assumes "BlockDeque_new n = Some q" and "bdq.run cs q = (ins, outs, r)"
  shows "ins = outs @ deq r \<and> length (deq r) \<le> n \<and> bd_capacity r = n \<and>
    (\<exists>r'. bdq.run (replicate (length (deq r)) Get) r = ([], deq r, r') \<and> deq r' = [])"
proof -
  have q: "length (deq q) \<le> n \<and> bd_capacity q = n" "deq q = []"
    using assms(1) by (auto simp: BlockDeque_new_def split: if_splits)
  from bdq.run_fifo [OF assms(2) q(1)] q(2) have r: "length (deq r) \<le> n \<and> bd_capacity r = n" "ins = outs @ deq r" by auto
  from bdq.run_drain [OF r(1) refl] r show ?thesis by blast
qed

lemma block_deque_fifo_witness:
  "\<exists>q r. BlockDeque_new 2 = Some q \<and> bdq.run [Put 1, Put 2, Put (3::nat), Get] q = ([1, 2], [1], r) \<and> deq r = [2]"
proof -
  define q :: "nat block_deque" where "q = \<lparr>deq = [], bd_capacity = 2, is_closed = False\<rparr>"
  have new: "BlockDeque_new 2 = Some q" by (simp add: BlockDeque_new_def q_def)
  have run: "bdq.run [Put 1, Put 2, Put (3::nat), Get] q = ([1, 2], [1], \<lparr>deq = [2], bd_capacity = 2, is_closed = False\<rparr>)"
    by (simp add: q_def push_back_def pop_def)
  from block_deque_fifo [OF new run] new run show ?thesis by auto
qed

text \<open>A temporary is appended as a copy is. \<open>push_front\<close> of a temporary puts the item at the wrong end.\<close>

lemma push_back_move_copy: "push_back_move x q = push_back x q"
  by (simp add: push_back_move_def push_back_def)

lemma push_front_move_back: "push_front_move x q = push_back x q"
  by (simp add: push_front_move_def push_back_def)

text \<open>The destructor discards what is queued, and a reader that is woken afterwards returns without
  an item, with or without a timeout.\<close>

lemma delete_wakes:
  "bd_size (BlockDeque_delete q) = 0" "bd_get_capacity (BlockDeque_delete q) = bd_get_capacity q"
  "pop_woken (BlockDeque_delete q) = ReturnFalse" "pop_timeout_woken t (BlockDeque_delete q) = ReturnFalse"
  by (simp_all add: BlockDeque_delete_def bd_close_def bd_size_def bd_get_capacity_def pop_woken_def pop_timeout_woken_def)

text \<open>A worker leaves only when the pool is closed and no task is left.\<close>

lemma worker_exits: "worker_loop p = Exit \<longleftrightarrow> isClosed p \<and> tasks p = []"
  by (simp add: worker_loop_def)

lemma thread_pool_fifo:
  "tpool.run cs p = (ins, outs, r) \<Longrightarrow> tasks p @ ins = outs @ tasks r"
  using tpool.run_fifo by blast

end
