(* ===== verification/Logger.thy ===== *)
theory Logger
  imports Buffer_Model Block_Deque
begin

text \<open>
  The logger (\<open>log/log.h\<close>, \<open>log/log.cpp\<close>): lines are formatted into a buffer and
  written to a file, directly or by a writer thread behind a bounded deque.

  Model. The files are a map from names to contents; \<open>fputs\<close> appends the characters up to the
  first null. The day, its text, the time stamp and the text of the message, which
  \<open>std::format\<close> produces, are arguments. \<open>None\<close> is a failed assertion or an access out of
  bounds: \<open>std::format_to\<close> on a pointer checks no bound.
\<close>

section \<open>State and operations\<close>

definition MAX_LINES :: nat where
  "MAX_LINES = 50000"

record log =
  lg_path :: string
  lg_suffix :: string
  lg_line_count :: nat
  lg_today :: nat
  lg_is_open :: bool
  lg_buff :: buffer
  lg_level :: int
  lg_is_async :: bool
  lg_fp :: "string option"
  lg_deque :: "bytes block_deque option"
  lg_files :: "string \<Rightarrow> bytes"

definition Log_new :: log where
  "Log_new = \<lparr>lg_path = [], lg_suffix = [], lg_line_count = 0, lg_today = 0, lg_is_open = False,
     lg_buff = Buffer_new INIT_BUFFER_SIZE, lg_level = 0, lg_is_async = False, lg_fp = None, lg_deque = None,
     lg_files = (\<lambda>_. [])\<rparr>"

definition get_level_string :: "int \<Rightarrow> string" where
  "get_level_string level =
     (if level = 0 then ''[debug]:''
      else if level = 1 then ''[info] :''
      else if level = 2 then ''[warn] :''
      else if level = 3 then ''[error]:''
      else ''[info]: '')"

definition c_str :: "bytes \<Rightarrow> bytes" where
  "c_str s = takeWhile (\<lambda>c. c \<noteq> CHR 0x00) s"

definition fputs :: "bytes \<Rightarrow> log \<Rightarrow> log option" where
  "fputs s lg = (case lg_fp lg of
     None \<Rightarrow> None
   | Some f \<Rightarrow> Some (lg\<lparr>lg_files := (lg_files lg)(f := lg_files lg f @ c_str s)\<rparr>))"

text \<open>\<open>init\<close>; \<open>opened\<close> says whether one of the two attempts to open the file succeeds.\<close>

definition Log_init :: "int \<Rightarrow> string \<Rightarrow> string \<Rightarrow> int \<Rightarrow> string \<Rightarrow> bool \<Rightarrow> log \<Rightarrow> log option" where
  "Log_init level path suffix maxQueueSize tail opened lg =
     do { lg1 \<leftarrow> (if maxQueueSize > 0
                  then case lg_deque lg of
                         Some q \<Rightarrow> Some (lg\<lparr>lg_is_async := True\<rparr>)
                       | None \<Rightarrow> do { q \<leftarrow> BlockDeque_new 1000; Some (lg\<lparr>lg_is_async := True, lg_deque := Some q\<rparr>) }
                  else Some (lg\<lparr>lg_is_async := False\<rparr>));
          if opened
          then Some (lg1\<lparr>lg_is_open := True, lg_level := level, lg_line_count := 0, lg_path := path, lg_suffix := suffix,
                 lg_buff := retrieve_all (lg_buff lg1), lg_fp := Some (path @ ''/'' @ tail @ suffix)\<rparr>)
          else None }"

text \<open>The change of the file at midnight and after every \<open>MAX_LINES\<close> lines.\<close>

definition log_rotate :: "nat \<Rightarrow> string \<Rightarrow> bool \<Rightarrow> log \<Rightarrow> log option" where
  "log_rotate day tail opened lg =
     (if lg_today lg \<noteq> day \<or> lg_line_count lg \<noteq> 0 \<and> lg_line_count lg mod MAX_LINES = 0
      then let (new_file, lg1) =
             (if lg_today lg \<noteq> day
              then (lg_path lg @ ''/'' @ tail @ lg_suffix lg, lg\<lparr>lg_today := day, lg_line_count := 0\<rparr>)
              else (lg_path lg @ ''/'' @ tail @ ''-'' @ to_string (lg_line_count lg div MAX_LINES) @ lg_suffix lg, lg))
           in if opened then Some (lg1\<lparr>lg_fp := Some new_file\<rparr>) else None
      else Some lg)"

definition log_line :: "string \<Rightarrow> int \<Rightarrow> string \<Rightarrow> bytes" where
  "log_line stamp level text = stamp @ '' '' @ get_level_string level @ '' '' @ text @ [CHR 0x0A]"

definition log_write :: "nat \<Rightarrow> string \<Rightarrow> bool \<Rightarrow> string \<Rightarrow> int \<Rightarrow> string \<Rightarrow> log \<Rightarrow> log option" where
  "log_write day tail opened stamp level text lg =
     do { lg1 \<leftarrow> log_rotate day tail opened lg;
          let lg2 = lg1\<lparr>lg_line_count := lg_line_count lg1 + 1\<rparr>;
              out = log_line stamp level text @ [CHR 0x00];
              b = lg_buff lg2 in
          if length out > writable_bytes b then None
          else let b1 = has_written (length out) (b\<lparr>store := write_at (store b) (begin_write b) out\<rparr>) in
            do { lg3 \<leftarrow> (case lg_deque lg2 of
                          Some q \<Rightarrow>
                            if lg_is_async lg2 \<and> \<not> bd_full q
                            then let (str, b2) = retrieve_all_to_str b1 in
                              do { q1 \<leftarrow> push_back str q; Some (lg2\<lparr>lg_deque := Some q1, lg_buff := b2\<rparr>) }
                            else fputs (bytes_at b1 (peek b1) (readable_bytes b1)) (lg2\<lparr>lg_buff := b1\<rparr>)
                        | None \<Rightarrow> fputs (bytes_at b1 (peek b1) (readable_bytes b1)) (lg2\<lparr>lg_buff := b1\<rparr>));
                 Some (lg3\<lparr>lg_buff := retrieve_all (lg_buff lg3)\<rparr>) } }"

definition get_level :: "log \<Rightarrow> int" where
  "get_level lg = lg_level lg"

definition set_level :: "int \<Rightarrow> log \<Rightarrow> log" where
  "set_level level lg = lg\<lparr>lg_level := level\<rparr>"

text \<open>\<open>flush\<close> wakes the writer thread through the deque; it changes no line.\<close>

definition Log_flush :: "log \<Rightarrow> log option" where
  "Log_flush lg = (if lg_is_async lg \<and> lg_deque lg = None then None else Some lg)"

text \<open>The macro behind \<open>LOG_DEBUG\<close>, \<open>LOG_INFO\<close>, \<open>LOG_WARN\<close> and \<open>LOG_ERROR\<close>.\<close>

definition LOG_BASE :: "nat \<Rightarrow> string \<Rightarrow> bool \<Rightarrow> string \<Rightarrow> int \<Rightarrow> string \<Rightarrow> log \<Rightarrow> log option" where
  "LOG_BASE day tail opened stamp level text lg =
     (if lg_is_open lg \<and> get_level lg \<le> level
      then do { lg1 \<leftarrow> log_write day tail opened stamp level text lg; Log_flush lg1 }
      else Some lg)"

definition LOG_DEBUG :: "nat \<Rightarrow> string \<Rightarrow> bool \<Rightarrow> string \<Rightarrow> string \<Rightarrow> log \<Rightarrow> log option" where
  "LOG_DEBUG day tail opened stamp text lg = LOG_BASE day tail opened stamp 0 text lg"

definition LOG_INFO :: "nat \<Rightarrow> string \<Rightarrow> bool \<Rightarrow> string \<Rightarrow> string \<Rightarrow> log \<Rightarrow> log option" where
  "LOG_INFO day tail opened stamp text lg = LOG_BASE day tail opened stamp 1 text lg"

definition LOG_WARN :: "nat \<Rightarrow> string \<Rightarrow> bool \<Rightarrow> string \<Rightarrow> string \<Rightarrow> log \<Rightarrow> log option" where
  "LOG_WARN day tail opened stamp text lg = LOG_BASE day tail opened stamp 2 text lg"

definition LOG_ERROR :: "nat \<Rightarrow> string \<Rightarrow> bool \<Rightarrow> string \<Rightarrow> string \<Rightarrow> log \<Rightarrow> log option" where
  "LOG_ERROR day tail opened stamp text lg = LOG_BASE day tail opened stamp 3 text lg"

text \<open>One pass of the writer thread, when there is a line.\<close>

definition async_write_pass :: "log \<Rightarrow> log option" where
  "async_write_pass lg =
     (case lg_deque lg of
        None \<Rightarrow> None
      | Some q \<Rightarrow> (case pop q of None \<Rightarrow> Some lg | Some (str, q1) \<Rightarrow> fputs str (lg\<lparr>lg_deque := Some q1\<rparr>)))"

fun async_write :: "nat \<Rightarrow> log \<Rightarrow> log option" where
  "async_write 0 lg = Some lg"
| "async_write (Suc n) lg = do { lg1 \<leftarrow> async_write_pass lg; async_write n lg1 }"

section \<open>Lines reach the file\<close>

definition queued :: "log \<Rightarrow> bytes list" where
  "queued lg = (case lg_deque lg of None \<Rightarrow> [] | Some q \<Rightarrow> deq q)"

lemma async_write_drains:
  "lg_fp lg = Some f \<Longrightarrow> lg_deque lg = Some q \<Longrightarrow> length (deq q) = n \<Longrightarrow>
   \<exists>lg'. async_write n lg = Some lg' \<and> lg_files lg' f = lg_files lg f @ concat (map c_str (deq q)) \<and> queued lg' = []"
proof (induction n arbitrary: lg q)
  case 0
  then show ?case by (simp add: queued_def)
next
  case (Suc n)
  then obtain x xs where q: "deq q = x # xs" by (cases "deq q") auto
  let ?lg = "lg\<lparr>lg_deque := Some (q\<lparr>deq := xs\<rparr>), lg_files := (lg_files lg)(f := lg_files lg f @ c_str x)\<rparr>"
  have "async_write_pass lg = Some ?lg" using Suc.prems q by (simp add: async_write_pass_def pop_def fputs_def)
  moreover have "\<exists>lg'. async_write n ?lg = Some lg' \<and>
      lg_files lg' f = lg_files ?lg f @ concat (map c_str (deq (q\<lparr>deq := xs\<rparr>))) \<and> queued lg' = []"
    by (rule Suc.IH) (use Suc.prems q in simp_all)
  ultimately show ?case using q by simp
qed

definition fresh_buffer :: "buffer \<Rightarrow> bool" where
  "fresh_buffer b \<longleftrightarrow> readPos b = 0 \<and> writePos b = 0"

lemma write_fresh:
  assumes "fresh_buffer b" and "length out \<le> writable_bytes b"
  shows "bytes_at (has_written (length out) (b\<lparr>store := write_at (store b) (begin_write b) out\<rparr>)) 0 (length out) = out"
    and "peek (has_written n c) = peek c" and "readable_bytes (has_written (length out) (b\<lparr>store := s\<rparr>)) = length out"
  using assms by (simp_all add: fresh_buffer_def bytes_at_def has_written_def begin_write_def write_at_def buffer_defs)

lemma c_str_line: "CHR 0x00 \<notin> set s \<Longrightarrow> c_str (s @ CHR 0x00 # r) = s"
  by (auto simp: c_str_def takeWhile_append)

lemma rotate_keeps:
  "log_rotate day tail opened lg = Some lg1 \<Longrightarrow> lg_buff lg1 = lg_buff lg \<and> lg_deque lg1 = lg_deque lg \<and>
   lg_is_async lg1 = lg_is_async lg \<and> lg_files lg1 = lg_files lg"
  by (auto simp: log_rotate_def Let_def split: if_splits)

text \<open>
  Property C40. A line without a null character that fits into the buffer with its terminating null
  reaches the current file unchanged and the buffer is empty again. In asynchronous mode while the
  deque has room it follows the lines that were queued before it, once the writer has taken them.
  In synchronous mode, or when the deque is full, it is in the file at once, behind what the file
  holds and ahead of the lines that are still queued. A line that does not fit, in a buffer that
  never grows, is written behind the end of its memory.
\<close>

theorem log_line_written:
  assumes rot: "log_rotate day tail opened lg = Some lg1" "lg_fp lg1 = Some f" and b: "fresh_buffer (lg_buff lg)"
    and nul: "CHR 0x00 \<notin> set (log_line stamp level text)"
  shows "if length (log_line stamp level text) + 1 \<le> length (store (lg_buff lg))
    then \<exists>lg2. log_write day tail opened stamp level text lg = Some lg2 \<and> fresh_buffer (lg_buff lg2) \<and>
      length (store (lg_buff lg2)) = length (store (lg_buff lg)) \<and> lg_fp lg2 = Some f \<and>
      (if lg_is_async lg \<and> (\<exists>q. lg_deque lg = Some q \<and> \<not> bd_full q)
       then \<exists>lg3. async_write (length (queued lg2)) lg2 = Some lg3 \<and> queued lg3 = [] \<and>
         lg_files lg3 f = lg_files lg f @ concat (map c_str (queued lg)) @ log_line stamp level text
       else lg_files lg2 f = lg_files lg f @ log_line stamp level text \<and> queued lg2 = queued lg)
    else log_write day tail opened stamp level text lg = None"
proof (cases "length (log_line stamp level text) + 1 \<le> length (store (lg_buff lg))")
  case False
  then show ?thesis
    using rot b rotate_keeps [OF rot(1)] by (simp add: log_write_def Let_def fresh_buffer_def writable_bytes_def)
next
  case fits: True
  note k = rotate_keeps [OF rot(1)]
  let ?out = "log_line stamp level text @ [CHR 0x00]"
  define b1 where "b1 = has_written (length ?out) (lg_buff lg\<lparr>store := write_at (store (lg_buff lg)) (begin_write (lg_buff lg)) ?out\<rparr>)"
  have b1: "has_written (Suc (length (log_line stamp level text)))
      (lg_buff lg\<lparr>store := write_at (store (lg_buff lg)) (begin_write (lg_buff lg)) ?out\<rparr>) = b1" by (simp add: b1_def)
  have w: "length ?out \<le> writable_bytes (lg_buff lg)" using fits b by (simp add: fresh_buffer_def writable_bytes_def)
  note wf = write_fresh [OF b w]
  have peek: "peek b1 = 0" using b by (simp add: b1_def peek_def has_written_def fresh_buffer_def)
  have out: "bytes_at b1 0 (readable_bytes b1) = ?out" using wf(1,3) by (simp add: b1_def)
  have len: "length (store b1) = length (store (lg_buff lg))"
    using fits b by (simp add: b1_def has_written_def begin_write_def fresh_buffer_def)
  have line: "c_str ?out = log_line stamp level text" using c_str_line [OF nul, of "[]"] by simp
  have fresh: "fresh_buffer (retrieve_all x)" "length (store (retrieve_all x)) = length (store x)" for x
    by (simp_all add: fresh_buffer_def retrieve_all_def)
  let ?lg = "lg1\<lparr>lg_line_count := lg_line_count lg1 + 1\<rparr>"
  show ?thesis
  proof (cases "lg_is_async lg \<and> (\<exists>q. lg_deque lg = Some q \<and> \<not> bd_full q)")
    case True
    then obtain q where q: "lg_is_async lg" "lg_deque lg = Some q" "\<not> bd_full q" by blast
    let ?lg2 = "?lg\<lparr>lg_deque := Some (q\<lparr>deq := deq q @ [?out]\<rparr>), lg_buff := retrieve_all (retrieve_all b1)\<rparr>"
    have run: "log_write day tail opened stamp level text lg = Some ?lg2"
      using rot(1) k w q out peek
      by (simp add: log_write_def Let_def b1 retrieve_all_to_str_def push_back_def bd_full_def)
    obtain lg3 where "async_write (length (queued ?lg2)) ?lg2 = Some lg3" "queued lg3 = []"
        "lg_files lg3 f = lg_files ?lg2 f @ concat (map c_str (deq q @ [?out]))"
      using async_write_drains [of ?lg2 f "q\<lparr>deq := deq q @ [?out]\<rparr>"] rot(2) by (auto simp: queued_def)
    with run True fits fresh len rot(2) k q(2) line show ?thesis by (simp add: queued_def)
  next
    case False
    let ?lg2 = "?lg\<lparr>lg_buff := retrieve_all b1, lg_files := (lg_files lg)(f := lg_files lg f @ log_line stamp level text)\<rparr>"
    have "log_write day tail opened stamp level text lg = Some ?lg2"
      using rot k w False out peek line
      by (auto simp: log_write_def Let_def b1 fputs_def split: option.split)
    with False fits fresh len rot(2) k show ?thesis by (auto simp: queued_def)
  qed
qed

definition ex_log :: log where
  "ex_log = Log_new\<lparr>lg_path := ''log'', lg_suffix := ''.log'', lg_is_open := True, lg_is_async := True,
     lg_fp := Some ''log/d.log'', lg_deque := Some \<lparr>deq = [''p'' @ [CHR 0x00]], bd_capacity = 1000, is_closed = False\<rparr>\<rparr>"

theorem log_line_written_witness:
  "(\<exists>lg2 lg3. log_write 7 ''d'' True ''t'' 1 ''hi'' ex_log = Some lg2 \<and> async_write (length (queued lg2)) lg2 = Some lg3 \<and>
      lg_files lg3 ''log/d.log'' = ''p'' @ log_line ''t'' 1 ''hi'') \<and>
   log_write 7 ''d'' True ''t'' 1 (replicate 1024 CHR ''x'') ex_log = None"
proof -
  let ?f = "''log/d.log''"
  obtain lg1 where r: "log_rotate 7 ''d'' True ex_log = Some lg1" "lg_fp lg1 = Some ?f"
    by (simp add: log_rotate_def ex_log_def Log_new_def)
  have b: "fresh_buffer (lg_buff ex_log)" "length (store (lg_buff ex_log)) = 1024"
    by (simp_all add: ex_log_def Log_new_def fresh_buffer_def Buffer_new_def INIT_BUFFER_SIZE_def)
  have n: "CHR 0x00 \<notin> set (log_line ''t'' 1 ''hi'')" "CHR 0x00 \<notin> set (log_line ''t'' 1 (replicate 1024 CHR ''x''))"
    by (auto simp: log_line_def get_level_string_def)
  have q: "lg_is_async ex_log \<and> (\<exists>q. lg_deque ex_log = Some q \<and> \<not> bd_full q)" "queued ex_log = [''p'' @ [CHR 0x00]]"
    "lg_files ex_log ?f = []"
    by (simp_all add: ex_log_def Log_new_def bd_full_def queued_def)
  have p: "c_str (''p'' @ [CHR 0x00]) = ''p''" by (simp add: c_str_def)
  have l: "length (log_line ''t'' 1 ''hi'') + 1 \<le> 1024" "\<not> length (log_line ''t'' 1 (replicate 1024 CHR ''x'')) + 1 \<le> 1024"
    by (simp_all add: log_line_def get_level_string_def)
  from log_line_written [OF r b(1) n(1)] q l(1) p b(2)
  have "\<exists>lg2 lg3. log_write 7 ''d'' True ''t'' 1 ''hi'' ex_log = Some lg2 \<and> async_write (length (queued lg2)) lg2 = Some lg3 \<and>
      lg_files lg3 ?f = ''p'' @ log_line ''t'' 1 ''hi''" by auto
  moreover from log_line_written [OF r b(1) n(2)] l(2) b(2)
  have "log_write 7 ''d'' True ''t'' 1 (replicate 1024 CHR ''x'') ex_log = None" by (simp del: replicate.simps)
  ultimately show ?thesis by blast
qed

section \<open>Shutting down\<close>

text \<open>
  The writer thread: about to call \<open>pop\<close>, writing a line, asleep in \<open>pop\<close>, woken there, or
  ended. Only a notification wakes it (spurious wake-ups aside, which nobody may rely on).
\<close>

datatype writer = Popping | Writing bytes | Asleep | Woken | Ended

definition notify_writer :: "writer \<Rightarrow> writer" where
  "notify_writer pc = (if pc = Asleep then Woken else pc)"

inductive writer_step :: "bytes block_deque \<times> writer \<Rightarrow> bytes block_deque \<times> writer \<Rightarrow> bool" where
  take: "pop q = Some (x, q') \<Longrightarrow> writer_step (q, Popping) (q', Writing x)"
| sleep: "pop q = None \<Longrightarrow> writer_step (q, Popping) (q, Asleep)"
| put: "writer_step (q, Writing x) (q, Popping)"
| leave: "pop_woken q = ReturnFalse \<Longrightarrow> writer_step (q, Woken) (q, Ended)"
| again: "pop_woken q = Sleep \<Longrightarrow> writer_step (q, Woken) (q, Asleep)"
| got: "pop_woken q = ReturnItem x q' \<Longrightarrow> writer_step (q, Woken) (q', Writing x)"

inductive_cases writer_step_cases: "writer_step (q, pc) s"

text \<open>
  \<open>~Log\<close> up to \<open>join\<close>: \<open>close\<close> with its notification, then notifications while the deque is
  not empty (it was cleared, so there are none).
\<close>

definition Log_close :: "bytes block_deque \<times> writer \<Rightarrow> bytes block_deque \<times> writer" where
  "Log_close = (\<lambda>(q, pc). (let q1 = bd_close q; pc1 = notify_writer pc in
     if bd_empty q1 then (q1, pc1) else (q1, notify_writer pc1)))"

text \<open>The rest of \<open>~Log\<close>, after \<open>join\<close>.\<close>

definition Log_delete_file :: "log \<Rightarrow> log option" where
  "Log_delete_file lg =
     (case lg_fp lg of None \<Rightarrow> Some lg | Some f \<Rightarrow> do { lg1 \<leftarrow> Log_flush lg; Some (lg1\<lparr>lg_fp := None\<rparr>) })"

text \<open>The whole of \<open>~Log\<close> for a logger with its writer: \<open>None\<close> while \<open>join\<close> cannot return,
  because the thread has not ended by the time \<open>run\<close> leaves it.\<close>

definition Log_delete ::
  "(bytes block_deque \<times> writer \<Rightarrow> bytes block_deque \<times> writer) \<Rightarrow> writer \<Rightarrow> log \<Rightarrow> log option" where
  "Log_delete run pc lg =
     (case lg_deque lg of
        Some q \<Rightarrow>
          if lg_is_async lg
          then (case run (Log_close (q, pc)) of (q1, pc1) \<Rightarrow>
            if pc1 = Ended then Log_delete_file (lg\<lparr>lg_deque := Some q1\<rparr>) else None)
          else Log_delete_file lg
      | None \<Rightarrow> Log_delete_file lg)"

lemma closed_writer:
  "writer_step\<^sup>*\<^sup>* s s' \<Longrightarrow> deq (fst s) = [] \<Longrightarrow> is_closed (fst s) \<Longrightarrow> snd s \<notin> {Woken, Ended} \<Longrightarrow>
   deq (fst s') = [] \<and> snd s' \<notin> {Woken, Ended} \<and> fst s' = fst s"
  by (induction rule: rtranclp_induct) (auto elim!: writer_step.cases simp: pop_def)

text \<open>
  The destructor of the logger hangs, and loses lines, when it catches the writer at
  work: \<open>close\<close> empties the deque, and when the writer is not asleep at that moment its next
  \<open>pop\<close> finds the deque empty and sleeps without a look at \<open>is_closed_\<close>, so that it never ends
  and \<open>join\<close> never returns. When it is asleep it wakes and can only end.
\<close>

lemma log_shutdown_hangs:
  "(pc = Popping \<or> pc = Writing x \<longrightarrow> writer_step\<^sup>*\<^sup>* (Log_close (q, pc)) s \<longrightarrow> snd s \<noteq> Ended \<and> deq (fst s) = []) \<and>
   (\<forall>s. writer_step (Log_close (q, Asleep)) s \<longleftrightarrow> s = (bd_close q, Ended))"
proof -
  have c: "Log_close (q, pc) = (bd_close q, notify_writer pc)" for pc by (simp add: Log_close_def bd_close_def bd_empty_def Let_def)
  have "writer_step (bd_close q, Woken) s \<longleftrightarrow> s = (bd_close q, Ended)" for s
    by (auto simp: pop_woken_def bd_close_def elim!: writer_step_cases intro!: writer_step.leave)
  with c closed_writer [of "Log_close (q, pc)" s] show ?thesis
    by (auto simp: notify_writer_def bd_close_def)
qed

lemma log_shutdown_hangs_witness:
  "writer_step\<^sup>*\<^sup>* (Log_close (\<lparr>deq = [''a''], bd_capacity = 9, is_closed = False\<rparr>, Writing ''b''))
     (\<lparr>deq = [], bd_capacity = 9, is_closed = True\<rparr>, Asleep) \<and>
   \<not> writer_step\<^sup>*\<^sup>* (Log_close (\<lparr>deq = [''a''], bd_capacity = 9, is_closed = False\<rparr>, Writing ''b''))
     (\<lparr>deq = [], bd_capacity = 9, is_closed = True\<rparr>, Ended)"
proof
  let ?q = "\<lparr>deq = [], bd_capacity = 9, is_closed = True\<rparr> :: bytes block_deque"
  have c: "Log_close (\<lparr>deq = [''a''], bd_capacity = 9, is_closed = False\<rparr>, Writing ''b'') = (?q, Writing ''b'')"
    by (simp add: Log_close_def bd_close_def bd_empty_def notify_writer_def)
  have "writer_step (?q, Writing ''b'') (?q, Popping)" by (rule writer_step.put)
  moreover have "writer_step (?q, Popping) (?q, Asleep)" by (rule writer_step.sleep) (simp add: pop_def)
  ultimately show "writer_step\<^sup>*\<^sup>* (Log_close (\<lparr>deq = [''a''], bd_capacity = 9, is_closed = False\<rparr>, Writing ''b''))
     (?q, Asleep)" unfolding c by (meson converse_rtranclp_into_rtranclp rtranclp.rtrancl_refl)
  show "\<not> writer_step\<^sup>*\<^sup>* (Log_close (\<lparr>deq = [''a''], bd_capacity = 9, is_closed = False\<rparr>, Writing ''b'')) (?q, Ended)"
    using log_shutdown_hangs [of "Writing ''b''" "''b''" "\<lparr>deq = [''a''], bd_capacity = 9, is_closed = False\<rparr>" "(?q, Ended)"] by auto
qed

text \<open>A logger whose writer is asleep is destroyed: the file is closed with what it had, and the
  deque is empty. When the writer was busy, no way of running it lets the destructor return.\<close>

lemma log_delete:
  assumes q: "lg_deque lg = Some q" "lg_is_async lg" and run: "\<And>s. writer_step\<^sup>*\<^sup>* s (run s)"
  shows "pc = Popping \<or> pc = Writing x \<Longrightarrow> Log_delete run pc lg = None"
    and "run (bd_close q, Woken) = (bd_close q, Ended) \<Longrightarrow>
      Log_delete run Asleep lg = Some (lg\<lparr>lg_deque := Some (bd_close q), lg_fp := None\<rparr>)"
proof -
  assume "pc = Popping \<or> pc = Writing x"
  with log_shutdown_hangs [of pc x q "run (Log_close (q, pc))"] run show "Log_delete run pc lg = None"
    by (auto simp: Log_delete_def q split: prod.splits)
next
  assume "run (bd_close q, Woken) = (bd_close q, Ended)"
  moreover have "Log_close (q, Asleep) = (bd_close q, Woken)"
    by (simp add: Log_close_def bd_close_def bd_empty_def notify_writer_def)
  ultimately show "Log_delete run Asleep lg = Some (lg\<lparr>lg_deque := Some (bd_close q), lg_fp := None\<rparr>)"
    by (cases "lg_fp lg") (simp_all add: Log_delete_def q Log_delete_file_def Log_flush_def)
qed

text \<open>The level of the log decides which of the four macros write.\<close>

lemma log_levels:
  "LOG_DEBUG day tail opened stamp text (set_level 2 lg) = Some (set_level 2 lg)"
  "LOG_INFO day tail opened stamp text (set_level 2 lg) = Some (set_level 2 lg)"
  "lg_is_open lg \<Longrightarrow> LOG_WARN day tail opened stamp text (set_level 2 lg) =
     do { lg1 \<leftarrow> log_write day tail opened stamp 2 text (set_level 2 lg); Log_flush lg1 }"
  "lg_is_open lg \<Longrightarrow> LOG_ERROR day tail opened stamp text (set_level 2 lg) =
     do { lg1 \<leftarrow> log_write day tail opened stamp 3 text (set_level 2 lg); Log_flush lg1 }"
  by (simp_all add: LOG_DEBUG_def LOG_INFO_def LOG_WARN_def LOG_ERROR_def LOG_BASE_def get_level_def set_level_def)

end
