(* ===== verification/Sql_Pool.thy ===== *)
theory Sql_Pool
  imports Prelude
begin

text \<open>
  The pool of database connections (\<open>pool/sqlconnpool.cpp\<close>, \<open>pool/sqlconnpool.h\<close>) and the
  guards that hold one of them for a scope (\<open>SqlConnRAII\<close>, \<open>ConnGuard\<close> of \<open>dao/base_dao.h\<close>).

  Model. A connection is an identity. \<open>GetConn\<close> has three steps between which other threads
  run: the look at the queue, which takes no lock, the wait for the semaphore, and the removal of
  the front connection under the lock. Taking the front of an empty \<open>std::queue\<close> is undefined,
  the state \<open>Faulted\<close>. What \<open>new connection\<close> gives in \<open>Init\<close> (a connection, or none
  when it throws) is an argument. A guard is where its \<open>conn_\<close> stands: in one of these steps,
  at a connection (\<open>Using\<close>), at \<open>nullptr\<close> (\<open>NoConn\<close>), or not constructed (\<open>Idle\<close>).
\<close>

section \<open>Operations\<close>

record conn_pool =
  MAX_CONN :: nat
  conn_queue :: "nat list"
  semId :: nat

datatype user = Idle | Checked | Acquired | Using nat | NoConn | Faulted

definition SqlConnPool_Init :: "nat option list \<Rightarrow> conn_pool option" where
  "SqlConnPool_Init results =
     (if results \<noteq> []
      then Some \<lparr>MAX_CONN = length results, conn_queue = List.map_filter (\<lambda>r. r) results, semId = length results\<rparr>
      else None)"

definition GetConn_check :: "conn_pool \<Rightarrow> user" where
  "GetConn_check p = (if conn_queue p = [] then NoConn else Checked)"

text \<open>\<open>sem_wait\<close>; \<open>None\<close> is a thread that blocks.\<close>

definition GetConn_wait :: "conn_pool \<Rightarrow> (user \<times> conn_pool) option" where
  "GetConn_wait p = (if semId p > 0 then Some (Acquired, p\<lparr>semId := semId p - 1\<rparr>) else None)"

definition GetConn_take :: "conn_pool \<Rightarrow> user \<times> conn_pool" where
  "GetConn_take p = (case conn_queue p of [] \<Rightarrow> (Faulted, p) | c # cs \<Rightarrow> (Using c, p\<lparr>conn_queue := cs\<rparr>))"

definition FreeConn :: "nat \<Rightarrow> conn_pool \<Rightarrow> conn_pool" where
  "FreeConn c p = p\<lparr>conn_queue := conn_queue p @ [c], semId := semId p + 1\<rparr>"

definition ClosePool :: "conn_pool \<Rightarrow> conn_pool" where
  "ClosePool p = p\<lparr>conn_queue := []\<rparr>"

definition GetFreeConnCount :: "conn_pool \<Rightarrow> nat" where
  "GetFreeConnCount p = length (conn_queue p)"

text \<open>\<open>GetConn\<close> without another thread in between; \<open>None\<close> is a thread that blocks.\<close>

definition GetConn :: "conn_pool \<Rightarrow> (user \<times> conn_pool) option" where
  "GetConn p =
     (if GetConn_check p = NoConn then Some (NoConn, p)
      else case GetConn_wait p of None \<Rightarrow> None | Some (_, p1) \<Rightarrow> Some (GetConn_take p1))"

text \<open>The destructor of the static pool.\<close>

definition SqlConnPool_delete :: "conn_pool \<Rightarrow> conn_pool" where
  "SqlConnPool_delete p = ClosePool p"

text \<open>\<open>SqlConnRAII\<close>: the pool is a pointer and must not be null; the connection goes to \<open>*sql\<close>
  and to \<open>sql_\<close>.\<close>

definition RAII_new :: "conn_pool option \<Rightarrow> (user \<times> user \<times> conn_pool) option" where
  "RAII_new pool = (case pool of None \<Rightarrow> None | Some p \<Rightarrow> map_option (\<lambda>(sql, p1). (sql, sql, p1)) (GetConn p))"

definition RAII_release :: "user \<Rightarrow> conn_pool \<Rightarrow> conn_pool" where
  "RAII_release u p = (case u of Using c \<Rightarrow> FreeConn c p | _ \<Rightarrow> p)"

section \<open>Guards\<close>

text \<open>\<open>ConnGuard\<close>: the guards of a scope are a list, so that moving between two of them is an
  update at their positions, and assignment to itself is the equal position.\<close>

definition ConnGuard_new :: "conn_pool \<Rightarrow> (user \<times> conn_pool) option" where
  "ConnGuard_new p = GetConn p"

definition get_conn_guard :: "conn_pool \<Rightarrow> (user \<times> conn_pool) option" where
  "get_conn_guard p = ConnGuard_new p"

definition ConnGuard_bool :: "user \<Rightarrow> bool" where
  "ConnGuard_bool g \<longleftrightarrow> g \<noteq> NoConn"

definition ConnGuard_delete :: "user \<Rightarrow> conn_pool \<Rightarrow> conn_pool" where
  "ConnGuard_delete g p = (case g of Using c \<Rightarrow> FreeConn c p | _ \<Rightarrow> p)"

definition ConnGuard_move :: "nat \<Rightarrow> nat \<Rightarrow> user list \<Rightarrow> user list" where
  "ConnGuard_move this other gs = gs[this := gs ! other, other := NoConn]"

definition ConnGuard_assign :: "nat \<Rightarrow> nat \<Rightarrow> conn_pool \<times> user list \<Rightarrow> conn_pool \<times> user list" where
  "ConnGuard_assign this other = (\<lambda>(p, gs).
     if this \<noteq> other then (ConnGuard_delete (gs ! this) p, gs[this := gs ! other, other := NoConn]) else (p, gs))"

text \<open>The two guards are destroyed in the same way.\<close>

lemma ConnGuard_delete_RAII: "ConnGuard_delete = RAII_release"
  by (simp add: fun_eq_iff ConnGuard_delete_def RAII_release_def)

section \<open>Threads that share the pool\<close>

text \<open>A guard that stands, and not in the middle of \<open>GetConn\<close>.\<close>

definition made :: "user \<Rightarrow> bool" where
  "made u = (case u of Using _ \<Rightarrow> True | NoConn \<Rightarrow> True | _ \<Rightarrow> False)"

inductive pool_step :: "conn_pool \<times> user list \<Rightarrow> conn_pool \<times> user list \<Rightarrow> bool" where
  check: "i < length ts \<Longrightarrow> ts ! i = Idle \<Longrightarrow> pool_step (p, ts) (p, ts[i := GetConn_check p])"
| wait: "i < length ts \<Longrightarrow> ts ! i = Checked \<Longrightarrow> GetConn_wait p = Some (u, p') \<Longrightarrow> pool_step (p, ts) (p', ts[i := u])"
| take: "i < length ts \<Longrightarrow> ts ! i = Acquired \<Longrightarrow> GetConn_take p = (u, p') \<Longrightarrow> pool_step (p, ts) (p', ts[i := u])"
| release: "i < length ts \<Longrightarrow> made (ts ! i) \<Longrightarrow> pool_step (p, ts) (ConnGuard_delete (ts ! i) p, ts[i := Idle])"
| move: "i < length ts \<Longrightarrow> j < length ts \<Longrightarrow> ts ! i = Idle \<Longrightarrow> made (ts ! j) \<Longrightarrow>
    pool_step (p, ts) (p, ConnGuard_move i j ts)"
| assign: "i < length ts \<Longrightarrow> j < length ts \<Longrightarrow> made (ts ! i) \<Longrightarrow> made (ts ! j) \<Longrightarrow>
    pool_step (p, ts) (ConnGuard_assign i j (p, ts))"

inductive_cases pool_step_cases: "pool_step (p, ts) s"

definition held :: "user list \<Rightarrow> nat multiset" where
  "held ts = (\<Sum>u\<in>#mset ts. case u of Using c \<Rightarrow> {#c#} | _ \<Rightarrow> {#})"

definition pool_inv :: "nat multiset \<Rightarrow> conn_pool \<times> user list \<Rightarrow> bool" where
  "pool_inv C = (\<lambda>(p, ts). semId p + count (mset ts) Acquired = length (conn_queue p) \<and>
     mset (conn_queue p) + held ts = C \<and> Faulted \<notin> set ts)"

lemma held_update:
  assumes "i < length ts"
  shows "held (ts[i := u]) + (case ts ! i of Using c \<Rightarrow> {#c#} | _ \<Rightarrow> {#}) =
    held ts + (case u of Using c \<Rightarrow> {#c#} | _ \<Rightarrow> {#})"
proof -
  have m: "mset ts = add_mset (ts ! i) (mset ts - {#ts ! i#})" using assms by (simp add: insert_DiffM)
  show ?thesis
    unfolding held_def mset_update [OF assms] by (subst (2) m) (simp add: ac_simps)
qed

lemma held_replicate [simp]: "held (replicate n Idle) = {#}"
  by (simp add: held_def image_replicate_mset)

lemma acquired_update:
  assumes "i < length ts"
  shows "count (mset (ts[i := u])) Acquired + (if ts ! i = Acquired then 1 else 0) =
    count (mset ts) Acquired + (if u = Acquired then 1 else 0)"
proof -
  have m: "mset ts = add_mset (ts ! i) (mset ts - {#ts ! i#})" using assms by (simp add: insert_DiffM)
  show ?thesis unfolding mset_update [OF assms] by (subst (2) m) simp
qed

lemma fault_update: "Faulted \<notin> set ts \<Longrightarrow> u \<noteq> Faulted \<Longrightarrow> Faulted \<notin> set (ts[i := u])"
  by (metis in_set_conv_nth length_list_update nth_list_update_eq nth_list_update_neq)

lemma release_inv:
  assumes i: "i < length ts" and inv: "pool_inv C (p, ts)" and u: "ts ! i \<noteq> Acquired"
  shows "pool_inv C (ConnGuard_delete (ts ! i) p, ts[i := Idle])"
  using held_update [OF i, of Idle] acquired_update [OF i, of Idle] inv u
  by (cases "ts ! i") (auto simp: pool_inv_def ConnGuard_delete_def FreeConn_def fault_update)

text \<open>Handing on: what \<open>i\<close> held goes back, what \<open>j\<close> held goes to \<open>i\<close>.\<close>

lemma transfer_inv:
  assumes ij: "i < length ts" "j < length ts" "i \<noteq> j" and j: "made (ts ! j)" and inv: "pool_inv C (p, ts)"
    and i: "ts ! i \<noteq> Acquired"
  shows "pool_inv C (ConnGuard_delete (ts ! i) p, ts[i := ts ! j, j := NoConn])"
proof -
  let ?ts = "ts[i := Idle]"
  have I: "pool_inv C (ConnGuard_delete (ts ! i) p, ?ts)" by (rule release_inv [OF ij(1) inv i])
  have eq: "ts[i := ts ! j, j := NoConn] = ?ts[i := ts ! j, j := NoConn]" by simp
  have "held (ts[i := ts ! j, j := NoConn]) = held ?ts"
    using held_update [of i ?ts "ts ! j"] held_update [of j "?ts[i := ts ! j]" NoConn] ij unfolding eq by simp
  moreover have "count (mset (ts[i := ts ! j, j := NoConn])) Acquired = count (mset ?ts) Acquired"
    using acquired_update [of i ?ts "ts ! j"] acquired_update [of j "?ts[i := ts ! j]" NoConn] ij unfolding eq by simp
  moreover have "Faulted \<notin> set (ts[i := ts ! j, j := NoConn])"
    using inv j by (intro fault_update) (auto simp: pool_inv_def made_def)
  ultimately show ?thesis using I by (simp add: pool_inv_def)
qed

lemma pool_step_inv: "pool_step s s' \<Longrightarrow> pool_inv C s \<Longrightarrow> pool_inv C s'"
proof (induction rule: pool_step.induct)
  case (check i ts p)
  then show ?case
    using held_update [OF check(1), of "GetConn_check p"] acquired_update [OF check(1), of "GetConn_check p"]
    by (auto simp: pool_inv_def GetConn_check_def fault_update split: if_splits)
next
  case (wait i ts p u p')
  then show ?case
    using held_update [OF wait(1), of u] acquired_update [OF wait(1), of u]
    by (auto simp: pool_inv_def GetConn_wait_def fault_update split: if_splits)
next
  case (take i ts p u p')
  have "count (mset ts) Acquired > 0" using take(1,2) by (metis count_greater_zero_iff nth_mem_mset)
  then have "conn_queue p \<noteq> []" using take(4) by (auto simp: pool_inv_def)
  then obtain c cs where c: "conn_queue p = c # cs" "u = Using c" "p' = p\<lparr>conn_queue := cs\<rparr>"
    using take(3) by (cases "conn_queue p") (auto simp: GetConn_take_def)
  with take show ?case
    using held_update [OF take(1), of u] acquired_update [OF take(1), of u]
    by (auto simp: pool_inv_def fault_update)
next
  case (release i ts p)
  then show ?case by (intro release_inv) (auto simp: made_def)
next
  case (move i ts j p)
  then have "i \<noteq> j" by (auto simp: made_def)
  from transfer_inv [OF move(1,2) this move(4,5)] move(3) show ?case
    by (simp add: ConnGuard_move_def ConnGuard_delete_def)
next
  case (assign i ts j p)
  then have "ts ! i \<noteq> Acquired" by (auto simp: made_def)
  with transfer_inv [OF assign(1,2) _ assign(4,5)] assign(5) show ?case by (auto simp: ConnGuard_assign_def)
qed

lemma held_twice:
  assumes "i < length ts" and "j < length ts" and "i \<noteq> j" and "ts ! i = Using c" and "ts ! j = Using c"
  shows "count (held ts) c \<ge> 2"
proof -
  have "held (ts[i := Idle, j := Idle]) + {#c#} + {#c#} = held ts"
    using held_update [of i ts Idle] held_update [of j "ts[i := Idle]" Idle] assms by simp
  then have "held ts = add_mset c (add_mset c (held (ts[i := Idle, j := Idle])))" by simp
  then show ?thesis by simp
qed

text \<open>A call of \<open>GetConn\<close> with nobody in between is one of the interleavings, and a guard that
  it made gives the connection back when its scope ends.\<close>

lemma GetConn_steps:
  assumes "i < length ts" and "ts ! i = Idle" and "GetConn p = Some (u, p')"
  shows "pool_step\<^sup>*\<^sup>* (p, ts) (p', ts[i := u])"
proof (cases "conn_queue p = []")
  case True
  then show ?thesis using pool_step.check [OF assms(1,2), of p] assms(3) by (auto simp: GetConn_def GetConn_check_def)
next
  case False
  then have c: "GetConn_check p = Checked" by (simp add: GetConn_check_def)
  obtain p1 where w: "GetConn_wait p = Some (Acquired, p1)" "GetConn_take p1 = (u, p')"
    using assms(3) c by (auto simp: GetConn_def GetConn_wait_def split: if_splits)
  have "pool_step (p, ts) (p, ts[i := Checked])" using pool_step.check [OF assms(1,2), of p] c by simp
  moreover have "pool_step (p, ts[i := Checked]) (p1, ts[i := Acquired])"
    using pool_step.wait [of i "ts[i := Checked]", OF _ _ w(1)] assms(1) by simp
  moreover have "pool_step (p1, ts[i := Acquired]) (p', ts[i := u])"
    using pool_step.take [of i "ts[i := Acquired]", OF _ _ w(2)] assms(1) by simp
  ultimately show ?thesis by (meson converse_rtranclp_into_rtranclp rtranclp.rtrancl_refl)
qed

text \<open>The scope of \<open>execute\<close>: with no other user the guard is made at once, and after the
  scope the pool has the same connections; with an empty pool the guard is false.\<close>

lemma guard_scope:
  assumes "pool_inv C (p, replicate n Idle)"
  shows "\<exists>g p1. get_conn_guard p = Some (g, p1) \<and> ConnGuard_bool g = (C \<noteq> {#}) \<and>
    pool_inv C (ConnGuard_delete g p1, replicate n Idle)"
proof -
  have "count (mset (replicate n Idle)) Acquired = 0" by simp
  with assms show ?thesis
    by (cases "conn_queue p")
      (auto simp: pool_inv_def get_conn_guard_def ConnGuard_new_def GetConn_def GetConn_check_def GetConn_wait_def
        GetConn_take_def ConnGuard_bool_def ConnGuard_delete_def FreeConn_def held_replicate)
qed

text \<open>
  Property C39. When every connection could be made, then for any number of guards of any threads
  and in every interleaving of their construction, destruction and moves no thread takes a connection
  from an empty queue, no two guards hold the same connection, and no connection is lost. When no
  guard is left, every connection is in the queue again.
\<close>

theorem pool_exclusive:
  assumes "SqlConnPool_Init (map Some cs) = Some p0" and "distinct cs"
    and "pool_step\<^sup>*\<^sup>* (p0, replicate n Idle) (p, ts)"
  shows "Faulted \<notin> set ts \<and> mset (conn_queue p) + held ts = mset cs \<and>
    (\<forall>i j c. i < length ts \<and> j < length ts \<and> ts ! i = Using c \<and> ts ! j = Using c \<longrightarrow> i = j) \<and>
    (set ts \<subseteq> {Idle, NoConn} \<longrightarrow> mset (conn_queue p) = mset cs \<and> GetFreeConnCount p = length cs)"
proof -
  have "List.map_filter (\<lambda>r. r) (map Some cs) = cs" by (induction cs) (simp_all add: List.map_filter_simps)
  then have "pool_inv (mset cs) (p0, replicate n Idle)"
    using assms(1) by (auto simp: pool_inv_def SqlConnPool_Init_def split: if_splits)
  with assms(3) have I: "pool_inv (mset cs) (p, ts)"
    by (induction rule: rtranclp_induct) (auto intro: pool_step_inv)
  have "i = j" if "i < length ts \<and> j < length ts \<and> ts ! i = Using c \<and> ts ! j = Using c" for i j c
  proof (rule ccontr)
    assume "i \<noteq> j"
    with held_twice [of i ts j c] that have "count (held ts) c \<ge> 2" by simp
    moreover have e: "mset cs = mset (conn_queue p) + held ts" using I by (simp add: pool_inv_def)
    have "count (held ts) c \<le> count (mset cs) c" unfolding e by simp
    moreover have "count (mset cs) c \<le> 1" using assms(2) by (metis distinct_count_atmost_1 le_numeral_extra(4) zero_le_one)
    ultimately show False by simp
  qed
  moreover have "mset (conn_queue p) = mset cs \<and> GetFreeConnCount p = length cs" if "set ts \<subseteq> {Idle, NoConn}"
  proof -
    have "held ts = {#}" using that by (induction ts) (auto simp: held_def)
    then have m: "mset (conn_queue p) = mset cs" using I by (simp add: pool_inv_def)
    with mset_eq_length [OF m] show ?thesis by (simp add: GetFreeConnCount_def)
  qed
  ultimately show ?thesis using I by (simp add: pool_inv_def)
qed

theorem pool_exclusive_witness:
  "\<exists>p0 p. SqlConnPool_Init [Some 4] = Some p0 \<and> pool_step\<^sup>*\<^sup>* (p0, [Idle, Idle]) (p, [Checked, Idle]) \<and>
     mset (conn_queue p) + held [Checked, Idle] = {#4#}"
proof -
  define p0 where "p0 = \<lparr>MAX_CONN = 1, conn_queue = [4], semId = 1\<rparr>"
  have i: "SqlConnPool_Init (map Some [4]) = Some p0" by (simp add: SqlConnPool_Init_def p0_def List.map_filter_simps)
  have "pool_step (p0, [Idle, Idle]) (p0, [Idle, Idle][0 := GetConn_check p0])" by (rule pool_step.check) simp_all
  then have "pool_step\<^sup>*\<^sup>* (p0, replicate 2 Idle) (p0, [Checked, Idle])"
    by (simp add: GetConn_check_def p0_def numeral_2_eq_2)
  from pool_exclusive [OF i _ this] this i show ?thesis by (auto simp: numeral_2_eq_2)
qed

text \<open>
  The semaphore counts the connections that were asked for, not those that were made. When one of
  two could not be made, two threads that look at the queue before either takes a connection are
  both let through, and the second takes the front of an empty queue.
\<close>

lemma pool_short_faults:
  "\<exists>p0 p. SqlConnPool_Init [Some c, None] = Some p0 \<and> pool_step\<^sup>*\<^sup>* (p0, [Idle, Idle]) (p, [Using c, Faulted])"
proof -
  define P where "P q s = \<lparr>MAX_CONN = 2, conn_queue = q, semId = s\<rparr>" for q s
  have init: "SqlConnPool_Init [Some c, None] = Some (P [c] 2)"
    by (simp add: SqlConnPool_Init_def P_def List.map_filter_simps)
  note step = pool_step.check [of 0 "[Idle, Idle]" "P [c] 2"] pool_step.check [of 1 "[Checked, Idle]" "P [c] 2"]
    pool_step.wait [of 0 "[Checked, Checked]" "P [c] 2" Acquired "P [c] 1"]
    pool_step.wait [of 1 "[Acquired, Checked]" "P [c] 1" Acquired "P [c] 0"]
    pool_step.take [of 0 "[Acquired, Acquired]" "P [c] 0" "Using c" "P [] 0"]
    pool_step.take [of 1 "[Using c, Acquired]" "P [] 0" Faulted "P [] 0"]
  have "pool_step (P [c] 2, [Idle, Idle]) (P [c] 2, [Checked, Idle])"
    "pool_step (P [c] 2, [Checked, Idle]) (P [c] 2, [Checked, Checked])"
    "pool_step (P [c] 2, [Checked, Checked]) (P [c] 1, [Acquired, Checked])"
    "pool_step (P [c] 1, [Acquired, Checked]) (P [c] 0, [Acquired, Acquired])"
    "pool_step (P [c] 0, [Acquired, Acquired]) (P [] 0, [Using c, Acquired])"
    "pool_step (P [] 0, [Using c, Acquired]) (P [] 0, [Using c, Faulted])"
    using step by (simp_all add: P_def GetConn_check_def GetConn_wait_def GetConn_take_def)
  then have "pool_step\<^sup>*\<^sup>* (P [c] 2, [Idle, Idle]) (P [] 0, [Using c, Faulted])"
    by (meson converse_rtranclp_into_rtranclp rtranclp.rtrancl_refl)
  with init show ?thesis by blast
qed

end
