(* ===== verification/Server_Setup.thy ===== *)
theory Server_Setup
  imports Server_Behaviour Logger Sql_Pool
begin

text \<open>
  The life of the server object (\<open>core/webserver.cpp\<close>, \<open>main.cpp\<close>): the options of the
  program, the constructor with the listening socket, the end of the event loop, the destructor and
  what the exit of the program does to the message writer.

  Model. An instance is the server of \<open>Webserver\<close> with the members and singletons that only
  the constructor and the destructor touch. Results of system calls and of the libraries, the
  environment variables and the contents of members that are read before they are set are the
  argument \<open>boot\<close>. \<open>None\<close> is a failed assertion, a write out of bounds or a thread that
  blocks for ever. Messages that the called components log are left out. The descriptors that are
  tracked are the epoll instance, the listening socket and those of the connections; the log file
  and the sockets inside the MySQL and Scylla drivers are not among them. The workers of the thread
  pool are detached: the destructor does not wait for them, and it is modelled for a moment at which
  none of them is running a task.
\<close>

section \<open>State\<close>

record config =
  g_port :: int
  g_trig_mode :: int
  g_timeout_ms :: int
  g_thread_num :: nat
  g_open_log :: bool
  g_log_level :: int
  g_log_que_size :: int

text \<open>A moment for the logger: day, its text, whether a new file can be opened, the time stamp.\<close>

type_synonym moment = "nat \<times> string \<times> bool \<times> string"

record boot =
  b_getenv :: "string \<Rightarrow> string option"
  b_getcwd :: "string option"
  b_log_tail :: string
  b_log_opened :: bool
  b_moment :: "nat \<Rightarrow> moment"
  b_epoll :: int
  b_stale_listen :: u32
  b_stale_conn :: u32
  b_connections :: "nat option list"
  b_cluster :: bool
  b_session :: bool
  b_connect :: bool
  b_socket :: int
  b_setsockopt :: int
  b_bind :: int
  b_listen :: int
  b_getfd :: u32

text \<open>\<open>Epoller\<close>: its descriptor and the array of events that \<open>epoll_wait\<close> fills.\<close>

record epoller =
  ep_fd :: int
  ep_events :: "(int \<times> u32) list"

record ('db, 'sc) server_object =
  i_server :: "('db, 'sc) server"
  i_is_close :: bool
  i_is_et :: bool
  i_src_dir :: string
  i_log :: log
  i_pool :: conn_pool
  i_session :: scylla_session
  i_listen_flags :: u32
  i_epoller :: epoller

section \<open>Options\<close>

text \<open>The loop around \<open>getopt\<close>, on the characters it returns; \<open>None\<close> is the exit with 1.\<close>

fun parse_options :: "string \<Rightarrow> bool \<Rightarrow> bool option" where
  "parse_options [] open_log = Some open_log"
| "parse_options (opt # opts) open_log = (if opt = CHR ''l'' then parse_options opts False else None)"

definition main_config :: "bool \<Rightarrow> config" where
  "main_config open_log = \<lparr>g_port = 1316, g_trig_mode = 3, g_timeout_ms = 60000, g_thread_num = 40, g_open_log = open_log,
     g_log_level = 1, g_log_que_size = 1024\<rparr>"

section \<open>Socket\<close>

definition O_NONBLOCK :: u32 where
  "O_NONBLOCK = 0x800"

text \<open>The flags that the descriptor gets, from the result \<open>flags\<close> of \<open>F_GETFD\<close>.\<close>

definition SetFdNonblock :: "u32 \<Rightarrow> int \<Rightarrow> u32 option" where
  "SetFdNonblock flags fd = (if fd > 0 then Some (flags OR O_NONBLOCK) else None)"

text \<open>\<open>InitSocket_\<close>: the result, \<open>listen_fd_\<close>, its flags and what is logged.\<close>

definition InitSocket ::
  "boot \<Rightarrow> int \<Rightarrow> u32 \<Rightarrow> ('db, 'sc) world \<Rightarrow> (bool \<times> int \<times> u32 \<times> (int \<times> string) \<times> ('db, 'sc) world) option" where
  "InitSocket b port listen_event w =
     (let fd = b_socket b in
      if fd < 0 then Some (False, fd, 0, (3, ''Create socket error! port:'' @ int_to_string port), w)
      else let w1 = w\<lparr>w_open := insert fd (w_open w)\<rparr> in
        if b_setsockopt b = -1 then Some (False, fd, 0, (3, ''Set socket error!''), close_fd fd w1)
        else if b_bind b < 0 then Some (False, fd, 0, (3, ''Bind Port:'' @ int_to_string port @ '' error!''), close_fd fd w1)
        else if b_listen b < 0 then Some (False, fd, 0, (3, ''Listen port:'' @ int_to_string port @ '' error!''), close_fd fd w1)
        else let (ret, w2) = addFd fd (EPOLLIN OR listen_event) w1 in
          if \<not> ret then Some (False, fd, 0, (3, ''Add listen error!''), close_fd fd w2)
          else do { flags \<leftarrow> SetFdNonblock (b_getfd b) fd;
                    Some (True, fd, flags, (1, ''Server port:'' @ int_to_string port), w2) })"

section \<open>Waiting for events\<close>

text \<open>\<open>epoll_wait\<close> fills the array from its front; the accessors have assertions. \<open>reported\<close> is what the kernel reports, \<open>None\<close> an error
  (a signal, for one).\<close>

definition Epoller_new :: "int \<Rightarrow> nat \<Rightarrow> epoller option" where
  "Epoller_new epollFd maxEvent =
     (if epollFd \<ge> 0 \<and> maxEvent > 0 then Some \<lparr>ep_fd = epollFd, ep_events = replicate maxEvent (0, 0)\<rparr> else None)"

text \<open>\<open>~Epoller\<close>: the descriptor is closed, and the set of what was registered goes with it.\<close>

definition Epoller_delete :: "epoller \<Rightarrow> ('db, 'sc) world \<Rightarrow> ('db, 'sc) world" where
  "Epoller_delete ep w = (close_fd (ep_fd ep) w)\<lparr>w_interest := Map.empty\<rparr>"

definition Epoller_Wait :: "(int \<times> u32) list option \<Rightarrow> epoller \<Rightarrow> int \<times> epoller" where
  "Epoller_Wait reported ep =
     (case reported of
        None \<Rightarrow> (-1, ep)
      | Some evs \<Rightarrow> (int (length evs), ep\<lparr>ep_events := evs @ drop (length evs) (ep_events ep)\<rparr>))"

definition getEventFd :: "nat \<Rightarrow> epoller \<Rightarrow> int option" where
  "getEventFd i ep = (if i < length (ep_events ep) then Some (fst (ep_events ep ! i)) else None)"

definition getEvents :: "nat \<Rightarrow> epoller \<Rightarrow> u32 option" where
  "getEvents i ep = (if i < length (ep_events ep) then Some (snd (ep_events ep ! i)) else None)"

text \<open>The events that the loop of \<open>Start\<close> reads, by index up to the count.\<close>

definition read_events :: "int \<Rightarrow> epoller \<Rightarrow> (int \<times> u32) list option" where
  "read_events event_cnt ep =
     those (map (\<lambda>i. do { fd \<leftarrow> getEventFd i ep; events \<leftarrow> getEvents i ep; Some (fd, events) }) [0..<nat event_cnt])"

section \<open>Constructor\<close>

fun log_all :: "(nat \<Rightarrow> moment) \<Rightarrow> nat \<Rightarrow> (int \<times> string) list \<Rightarrow> log \<Rightarrow> log option" where
  "log_all at k [] lg = Some lg"
| "log_all at k ((level, msg) # ms) lg =
     (case at k of (day, tail, opened, stamp) \<Rightarrow>
        do { lg1 \<leftarrow> LOG_BASE day tail opened stamp level msg lg; log_all at (Suc k) ms lg1 })"

definition trigger_text :: "u32 \<Rightarrow> string" where
  "trigger_text events = (if events AND EPOLLET \<noteq> 0 then ''ET'' else ''LT'')"

definition env_or :: "string \<Rightarrow> string option \<Rightarrow> string" where
  "env_or fallback value = (case value of None \<Rightarrow> fallback | Some v \<Rightarrow> v)"

text \<open>What is logged first; the masks and the directory have not been set then.\<close>

definition init_messages :: "config \<Rightarrow> boot \<Rightarrow> (int \<times> string) list" where
  "init_messages g b =
     [(1, ''========== Server init ==========''),
      (1, ''Listen Mode: '' @ trigger_text (b_stale_listen b) @ '', OpenConn Mode: '' @ trigger_text (b_stale_conn b)),
      (1, ''LogSys level: '' @ int_to_string (g_log_level g)),
      (1, ''src_dir: ''),
      (1, ''MySQL Host: '' @ env_or ''localhost'' (b_getenv b ''MYSQL_HOST'')),
      (1, ''SqlConnPool num: '' @ to_string (length (b_connections b)) @ '', ThreadPool num: '' @ to_string (g_thread_num g))]"

definition init_log :: "config \<Rightarrow> boot \<Rightarrow> log option" where
  "init_log g b =
     (if g_open_log g
      then do { lg \<leftarrow> Log_init (g_log_level g) ''./log'' ''.log'' (g_log_que_size g) (b_log_tail b) (b_log_opened b) Log_new;
                log_all (b_moment b) 0 (init_messages g b) lg }
      else Some Log_new)"

text \<open>\<open>getcwd\<close> into a block of 256 bytes, and \<open>strcat\<close>.\<close>

definition resource_dir :: "boot \<Rightarrow> string option" where
  "resource_dir b =
     do { cwd \<leftarrow> b_getcwd b;
          if length (cwd @ ''/resources/'') < 256 then Some (cwd @ ''/resources/'') else None }"

text \<open>The contact point of Scylla: host, port and credentials, as they are given to the driver.\<close>

definition strtoul :: "string \<Rightarrow> u64" where
  "strtoul s =
     (let (minus, ds) = scan_number s; v = digits_value ds
      in if ds = [] then 0 else if v \<ge> 2 ^ 64 then -1 else if minus then - word_of_nat v else word_of_nat v)"

definition scylla_port :: "(string \<Rightarrow> string option) \<Rightarrow> 16 word" where
  "scylla_port getenv =
     (case getenv ''SCYLLA_PORT'' of None \<Rightarrow> 9042 | Some s \<Rightarrow> if s \<noteq> [] then ucast (strtoul s) else 9042)"

definition has_value :: "string option \<Rightarrow> bool" where
  "has_value value = (case value of None \<Rightarrow> False | Some v \<Rightarrow> v \<noteq> [])"

definition scylla_contact ::
  "(string \<Rightarrow> string option) \<Rightarrow> string \<times> 16 word option \<times> (string \<times> string) option" where
  "scylla_contact getenv =
     (let host = env_or ''scylla'' (getenv ''SCYLLA_HOST''); port = scylla_port getenv;
          user = getenv ''SCYLLA_USERNAME''; pwd = getenv ''SCYLLA_PASSWORD''
      in (if host \<noteq> [] then host else ''scylla'',
          if port \<noteq> 0 then Some port else None,
          if has_value user \<and> has_value pwd then Some (the user, the pwd) else None))"

definition new_world :: "int set \<Rightarrow> 'db \<Rightarrow> 'sc msg_writer \<Rightarrow> ('db, 'sc) world" where
  "new_world fds db wr = \<lparr>w_objs = Map.empty, w_connections = Map.empty, w_online = Map.empty, w_user_count = 0,
     w_open = fds, w_interest = Map.empty, w_tasks = [], w_db = db, w_writer = writer_Start wr\<rparr>"

definition Webserver_new ::
  "config \<Rightarrow> boot \<Rightarrow> int set \<Rightarrow> 'db \<Rightarrow> 'sc msg_writer \<Rightarrow> scylla_session \<Rightarrow> ('db, 'sc) server_object option" where
  "Webserver_new g b fds db wr ss =
     do { pool \<leftarrow> (ThreadPool_new (g_thread_num g) :: task thread_pool option);
          epoll \<leftarrow> Epoller_new (b_epoll b) 1024;
          lg1 \<leftarrow> init_log g b;
          dir \<leftarrow> resource_dir b;
          conns \<leftarrow> SqlConnPool_Init (b_connections b);
          (ready, ss1) \<leftarrow> ScyllaSession_Init (b_cluster b) (b_session b) (b_connect b) ss;
          let (listen_event, conn_event, is_et) = InitEventMode (g_trig_mode g) in
          do { (ok, fd, flags, msg, w) \<leftarrow> InitSocket b (g_port g) listen_event (new_world (insert (ep_fd epoll) fds) db wr);
               lg2 \<leftarrow> log_all (b_moment b) 6
                 [if ready then (1, ''Scylla session initialized successfully.'')
                  else (2, ''Scylla session init failed. Message persistence may be unavailable.''), msg] lg1;
               Some \<lparr>i_server = \<lparr>s_world = w, s_timer = HeapTimer_new, s_timeout_ms = g_timeout_ms g, s_listen_fd = fd,
                       s_listen_event = listen_event, s_conn_event = conn_event\<rparr>,
                     i_is_close = \<not> ok, i_is_et = is_et, i_src_dir = dir, i_log = lg2, i_pool = conns, i_session = ss1,
                     i_listen_flags = flags, i_epoller = epoll\<rparr> } }"

section \<open>Stopping\<close>

text \<open>\<open>Stop\<close>, and the signal handler, which calls it when there is a server.\<close>

definition Webserver_Stop :: "('db, 'sc) server_object \<Rightarrow> ('db, 'sc) server_object" where
  "Webserver_Stop i = i\<lparr>i_is_close := True\<rparr>"

definition signal_handler :: "('db, 'sc) server_object option \<Rightarrow> ('db, 'sc) server_object option" where
  "signal_handler g_server = map_option Webserver_Stop g_server"

text \<open>The destruction of the map of connections, in the order of the map.\<close>

fun destroy_all :: "nat list \<Rightarrow> ('db, 'sc) world \<Rightarrow> ('db, 'sc) world option" where
  "destroy_all [] w = Some (w\<lparr>w_connections := Map.empty\<rparr>)"
| "destroy_all (p # ps) w = do { w1 \<leftarrow> destroy p w; destroy_all ps w1 }"

text \<open>The destructor and the destruction of the members in reverse order of their declaration,
  \<open>connections_\<close> first and \<open>epoller_\<close> later; \<open>ps\<close> are the objects of that map.\<close>

definition Webserver_delete ::
  "(nat \<Rightarrow> moment) \<Rightarrow> nat list \<Rightarrow> ('db, 'sc) server_object \<Rightarrow> ('db, 'sc) server_object option" where
  "Webserver_delete at ps i =
     do { lg1 \<leftarrow> log_all at 0 [(1, ''========== Server shutting down =========='')] (i_log i);
          let w1 = close_fd (s_listen_fd (i_server i)) (s_world (i_server i)) in
          do { ss \<leftarrow> ScyllaSession_Close (i_session i);
               lg2 \<leftarrow> log_all at 1 [(1, ''========== Server stopped =========='')] lg1;
               lg3 \<leftarrow> Log_flush lg2;
               w2 \<leftarrow> destroy_all ps w1;
               Some (i\<lparr>i_is_close := True, i_server := (i_server i)\<lparr>s_world := Epoller_delete (i_epoller i) w2\<rparr>, i_pool := ClosePool (i_pool i),
                       i_session := ss, i_log := lg3\<rparr>) } }"

text \<open>The database as the writer sees it: there is a session only while the object has one.\<close>

definition session_scylla :: "scylla_session \<Rightarrow> 'sc scylla \<Rightarrow> 'sc scylla" where
  "session_scylla ss sc = sc\<lparr>has_session := \<lambda>s. ss_session ss \<and> has_session sc s\<rparr>"

text \<open>After \<open>main\<close> has returned, \<open>~AsyncMsgWriter\<close> stops the writer.\<close>

definition exit_writer :: "'sc scylla \<Rightarrow> ('db, 'sc) server_object \<Rightarrow> 'sc msg_writer" where
  "exit_writer sc i = writer_Stop (session_scylla (i_session i) sc) (w_writer (s_world (i_server i)))"

section \<open>The loop reads what was reported\<close>

lemma those_map_Some: "(\<And>x. x \<in> set xs \<Longrightarrow> f x = Some (g x)) \<Longrightarrow> those (map f xs) = Some (map g xs)"
  by (induction xs) auto

text \<open>No assertion of the accessors fails, and the loop sees exactly the reported events; after an
  interrupted wait it sees none.\<close>

lemma read_events_reported:
  "read_events (fst (Epoller_Wait reported ep)) (snd (Epoller_Wait reported ep)) =
    Some (case reported of None \<Rightarrow> [] | Some evs \<Rightarrow> evs)"
proof (cases reported)
  case None
  then show ?thesis by (simp add: Epoller_Wait_def read_events_def)
next
  case (Some evs)
  let ?ep = "snd (Epoller_Wait reported ep)"
  have e: "ep_events ?ep = evs @ drop (length evs) (ep_events ep)" using Some by (simp add: Epoller_Wait_def)
  have "those (map (\<lambda>i. do { fd \<leftarrow> getEventFd i ?ep; events \<leftarrow> getEvents i ?ep; Some (fd, events) }) [0..<length evs]) =
      Some (map (\<lambda>i. evs ! i) [0..<length evs])"
    by (rule those_map_Some) (auto simp: getEventFd_def getEvents_def e nth_append)
  with Some show ?thesis by (simp add: read_events_def Epoller_Wait_def map_nth)
qed

section \<open>The server that the constructor makes\<close>

lemma InitSocket_ok:
  assumes "InitSocket b port le w = Some (True, fd, flags, msg, w')"
  shows "fd = b_socket b \<and> fd > 0 \<and> flags = b_getfd b OR O_NONBLOCK \<and>
    w' = w\<lparr>w_open := insert fd (w_open w), w_interest := (w_interest w)(fd \<mapsto> EPOLLIN OR le)\<rparr>"
  using assms
  by (auto simp: InitSocket_def Let_def SetFdNonblock_def addFd_def split: if_splits)

lemma InitSocket_failed:
  assumes "InitSocket b port le w = Some (False, fd, flags, msg, w')" and "fd \<notin> w_open w" and "w_interest w fd = None"
  shows "w' = w"
proof -
  have "w_open w - {fd} = w_open w" "(w_interest w)(fd := None) = w_interest w" using assms(2,3) by auto
  then show ?thesis
    using assms by (auto simp: InitSocket_def Let_def SetFdNonblock_def addFd_def close_fd_def split: if_splits)
qed

lemma Webserver_new_parts:
  assumes "Webserver_new g b fds db wr ss = Some i"
  obtains le ce et fd flags msg w where "InitEventMode (g_trig_mode g) = (le, ce, et)"
    "InitSocket b (g_port g) le (new_world (insert (b_epoll b) fds) db wr) = Some (\<not> i_is_close i, fd, flags, msg, w)"
    "i_server i = \<lparr>s_world = w, s_timer = HeapTimer_new, s_timeout_ms = g_timeout_ms g, s_listen_fd = fd,
       s_listen_event = le, s_conn_event = ce\<rparr>" "i_is_et i = et" "i_listen_flags i = flags"
    "\<exists>ready. ScyllaSession_Init (b_cluster b) (b_session b) (b_connect b) ss = Some (ready, i_session i)"
    "ep_fd (i_epoller i) = b_epoll b"
  using assms by (auto simp: Webserver_new_def Epoller_new_def Let_def split: prod.splits if_splits)


definition ex_boot :: boot where
  "ex_boot = \<lparr>b_getenv = Map.empty, b_getcwd = Some ''/srv'', b_log_tail = [], b_log_opened = True,
     b_moment = \<lambda>_. (1, [], True, []), b_epoll = 4, b_stale_listen = 0, b_stale_conn = 0, b_connections = [Some 0],
     b_cluster = True, b_session = True, b_connect = True, b_socket = 5, b_setsockopt = 0, b_bind = 0, b_listen = 0, b_getfd = 0\<rparr>"

definition no_session :: scylla_session where
  "no_session = \<lparr>ss_locked = False, ss_cluster = False, ss_session = False, ss_initialized = False\<rparr>"

lemma quiet_log [simp]: "\<not> lg_is_open lg \<Longrightarrow> log_all at k ms lg = Some lg"
  by (induction ms arbitrary: k) (auto simp: LOG_BASE_def split: prod.split)

lemma ex_boot_new:
  "\<exists>i. Webserver_new (main_config False) (ex_boot\<lparr>b_bind := r\<rparr>) {0, 1, 2} db wr no_session = Some i \<and> (i_is_close i \<longleftrightarrow> r < 0) \<and>
     s_listen_fd (i_server i) = 5"
  by (simp add: Webserver_new_def main_config_def ThreadPool_new_def Epoller_new_def init_log_def resource_dir_def ex_boot_def no_session_def
      SqlConnPool_Init_def ScyllaSession_Init_def ss_lock_def ss_unlock_def InitSocket_def addFd_def SetFdNonblock_def
      new_world_def Let_def Log_new_def del: log_all.simps split: prod.split)


section \<open>The end of the server\<close>

text \<open>What the destruction of the connections relies on and keeps.\<close>

definition closing_ok :: "('db, 'sc) world \<Rightarrow> bool" where
  "closing_ok w \<longleftrightarrow> finite (dom (w_objs w)) \<and> w_user_count w = int (card (open_conns w))"

abbreviation registry_ok :: "('db, 'sc) world \<Rightarrow> bool" where
  "registry_ok w \<equiv> live w \<and> w_online w 0 = None"

lemma remove_client_sel:
  "w_objs (remove_client u w) = w_objs w" "w_online (remove_client u w) = (w_online w)(u := None)"
  "w_user_count (remove_client u w) = w_user_count w" "w_open (remove_client u w) = w_open w"
  "w_writer (remove_client u w) = w_writer w"
  by (auto simp: remove_client_def)

lemma destroy_ok:
  assumes I: "closing_ok w" and c: "w_objs w p = Some c"
  shows "\<exists>w'. destroy p w = Some w' \<and> closing_ok w' \<and> w_objs w' = (w_objs w)(p := None) \<and>
    w_open w' = (if c_is_close c then w_open w else w_open w - {c_fd c}) \<and> w_writer w' = w_writer w \<and>
    (registry_ok w \<longrightarrow> registry_ok w')"
proof (cases "c_is_close c")
  case True
  then have "open_conns (w\<lparr>w_objs := (w_objs w)(p := None)\<rparr>) = open_conns w"
    using c by (auto simp: open_conns_def deref_def)
  moreover have "live (w\<lparr>w_objs := (w_objs w)(p := None)\<rparr>)" if "live w"
    using that True c unfolding live_def by fastforce
  ultimately show ?thesis using True c I by (simp add: destroy_def close_conn_def deref_def closing_ok_def)
next
  case False
  let ?on = "if c_user_id c \<noteq> 0 then (w_online w)(c_user_id c := None) else w_online w"
  obtain w' where w': "destroy p w = Some w'" "w_objs w' = (w_objs w)(p := None)" "w_online w' = ?on"
    "w_user_count w' = w_user_count w - 1" "w_open w' = w_open w - {c_fd c}" "w_writer w' = w_writer w"
    using False c
    by (cases "c_user_id c = 0")
      (auto simp: destroy_def close_conn_def deref_def Let_def put_conn_def close_fd_def remove_client_sel)
  have p: "p \<in> open_conns w" "open_conns w' = open_conns w - {p}"
    using c False w'(2) by (auto simp: open_conns_def deref_def)
  have "finite (open_conns w)"
    by (rule finite_subset [of _ "dom (w_objs w)"]) (use I in \<open>auto simp: closing_ok_def open_conns_def deref_def\<close>)
  with p(1) have "card (open_conns w) = Suc (card (open_conns w - {p}))" by (metis card.remove)
  with p(2) I w'(4) have "w_user_count w' = int (card (open_conns w'))" by (simp add: closing_ok_def)
  moreover have "registry_ok w'" if "registry_ok w"
    using that w'(2,3) c unfolding live_def by (fastforce split: if_splits)
  ultimately show ?thesis using I w' False by (auto simp: closing_ok_def)
qed

text \<open>The descriptors of the open connections among some objects.\<close>

definition open_fds :: "(nat \<Rightarrow> tcp_conn option) \<Rightarrow> int set" where
  "open_fds m = {c_fd c | p c. m p = Some c \<and> \<not> c_is_close c}"

lemma open_fds_remove:
  assumes "m p = Some c"
  shows "open_fds m = (if c_is_close c then {} else {c_fd c}) \<union> open_fds (m(p := None))"
  using assms unfolding open_fds_def by (auto split: if_splits) (metis option.inject)+

lemma destroy_all_ok:
  assumes "closing_ok w" and "distinct ps" and "set ps = dom (w_objs w)"
  shows "\<exists>w'. destroy_all ps w = Some w' \<and> w_objs w' = Map.empty \<and> w_user_count w' = 0 \<and>
    w_connections w' = Map.empty \<and> w_writer w' = w_writer w \<and>
    w_open w' = w_open w - open_fds (w_objs w) \<and> (registry_ok w \<longrightarrow> w_online w' = Map.empty)"
  using assms
proof (induction ps arbitrary: w)
  case Nil
  then have "w_objs w = Map.empty" by (metis dom_eq_empty_conv set_empty2 empty_set)
  moreover from this have "live w \<longrightarrow> w_online w = Map.empty" "open_conns w = {}"
    by (auto simp: live_def open_conns_def deref_def)
  ultimately show ?case using Nil.prems(1) by (simp add: closing_ok_def open_fds_def)
next
  case (Cons p ps)
  then have "p \<in> dom (w_objs w)" by (metis list.set_intros(1))
  then obtain c where c: "w_objs w p = Some c" by auto
  from destroy_ok [OF Cons.prems(1) c] obtain w1 where w1: "destroy p w = Some w1" "closing_ok w1"
    "w_objs w1 = (w_objs w)(p := None)" "w_writer w1 = w_writer w" "registry_ok w \<longrightarrow> registry_ok w1"
    and o: "w_open w1 = (if c_is_close c then w_open w else w_open w - {c_fd c})" by blast
  have "distinct ps" "set ps = dom (w_objs w1)" using Cons.prems(2,3) w1(3) by auto
  from Cons.IH [OF w1(2) this] obtain w' where w': "destroy_all ps w1 = Some w'" "w_objs w' = Map.empty"
    "w_user_count w' = 0" "w_connections w' = Map.empty" "w_writer w' = w_writer w1"
    "w_open w' = w_open w1 - open_fds (w_objs w1)" "registry_ok w1 \<longrightarrow> w_online w' = Map.empty" by blast
  have "w_open w' = w_open w - open_fds (w_objs w)"
    unfolding w'(6) w1(3) o open_fds_remove [of "w_objs w", OF c] by auto
  with w1 w' show ?case by simp
qed

lemma closing_ok_start: "base_inv w \<Longrightarrow> closing_ok (close_fd fd w)"
proof -
  assume "base_inv w"
  moreover have "open_conns (close_fd fd w) = open_conns w" by (simp add: open_conns_def deref_def close_fd_def)
  ultimately show ?thesis by (simp add: base_inv_def closing_ok_def close_fd_def)
qed

lemma delete_effect:
  assumes I: "base_inv (s_world (i_server i))" and ps: "distinct ps" "set ps = ran (w_connections (s_world (i_server i)))"
    and ss: "\<not> ss_locked (i_session i)"
    and lg: "log_all at 0 [(1, ''========== Server shutting down =========='')] (i_log i) = Some lg1"
      "log_all at 1 [(1, ''========== Server stopped =========='')] lg1 = Some lg2" "Log_flush lg2 = Some lg3"
  obtains w' where "Webserver_delete at ps i = Some (i\<lparr>i_is_close := True, i_server := (i_server i)\<lparr>s_world := w'\<rparr>,
      i_pool := ClosePool (i_pool i), i_session := no_session, i_log := lg3\<rparr>)"
    "w_objs w' = Map.empty" "w_user_count w' = 0" "w_connections w' = Map.empty"
    "w_writer w' = w_writer (s_world (i_server i))"
    "w_open w' = w_open (s_world (i_server i)) - {s_listen_fd (i_server i), ep_fd (i_epoller i)} -
       open_fds (w_objs (s_world (i_server i)))"
    "w_interest w' = Map.empty"
    "registry_ok (s_world (i_server i)) \<longrightarrow> w_online w' = Map.empty"
proof -
  let ?w = "s_world (i_server i)" and ?fd = "s_listen_fd (i_server i)"
  from I have "ran (w_connections ?w) = dom (w_objs ?w)" unfolding base_inv_def owned_def deref_def ran_def by fastforce
  with ps have "set ps = dom (w_objs (close_fd ?fd ?w))" by (simp add: close_fd_def)
  from destroy_all_ok [OF closing_ok_start [OF I] ps(1) this] obtain w' where w': "destroy_all ps (close_fd ?fd ?w) = Some w'"
    "w_objs w' = Map.empty" "w_user_count w' = 0" "w_connections w' = Map.empty"
    "w_writer w' = w_writer (close_fd ?fd ?w)"
    "w_open w' = w_open (close_fd ?fd ?w) - open_fds (w_objs (close_fd ?fd ?w))"
    "registry_ok (close_fd ?fd ?w) \<longrightarrow> w_online w' = Map.empty" by blast
  have "ScyllaSession_Close (i_session i) = Some no_session"
    using ss by (simp add: ScyllaSession_Close_def ss_lock_def ss_unlock_def no_session_def)
  with w' lg show thesis
    by (intro that [of "Epoller_delete (i_epoller i) w'"])
      (auto simp: Webserver_delete_def Epoller_delete_def close_fd_def live_def)
qed

text \<open>
  Property C23. The destructor returns from every state that a run of the server reaches (when its log
  lines can be written, the lock on the session is free and no worker is running a task) and releases
  what it holds: every connection is closed and destroyed, the count of connections is 0, of the open
  descriptors exactly the listening socket, the epoll instance and those of the connections are
  closed, nothing is registered with epoll any more, no database connection waits in the pool (one that
  a worker holds is not closed), and the session with Scylla is closed. After an orderly run no user is
  left in the registry; after a second login on a connection the first user stays there. (The listening
  socket is closed even when the constructor had closed it after a failure.)
\<close>

theorem shutdown_releases:
  assumes "server_run e (i_server i)" and "distinct ps" and "set ps = ran (w_connections (s_world (i_server i)))"
    and "\<not> ss_locked (i_session i)"
    and "log_all at 0 [(1, ''========== Server shutting down =========='')] (i_log i) = Some lg1"
    and "log_all at 1 [(1, ''========== Server stopped =========='')] lg1 = Some lg2" and "Log_flush lg2 = Some lg3"
  shows "\<exists>i'. Webserver_delete at ps i = Some i' \<and> i_is_close i' \<and>
    w_objs (s_world (i_server i')) = Map.empty \<and> w_connections (s_world (i_server i')) = Map.empty \<and>
    w_user_count (s_world (i_server i')) = 0 \<and> w_interest (s_world (i_server i')) = Map.empty \<and>
    w_open (s_world (i_server i')) = w_open (s_world (i_server i)) - {s_listen_fd (i_server i), ep_fd (i_epoller i)} -
      {c_fd c | p c. deref p (s_world (i_server i)) = Some c \<and> \<not> c_is_close c} \<and>
    conn_queue (i_pool i') = [] \<and> \<not> ss_session (i_session i') \<and>
    (orderly_run e (i_server i) \<longrightarrow> w_online (s_world (i_server i')) = Map.empty)"
proof (rule delete_effect [OF server_run_base [OF assms(1)] assms(2-7)])
  fix w'
  assume d: "Webserver_delete at ps i = Some (i\<lparr>i_is_close := True, i_server := (i_server i)\<lparr>s_world := w'\<rparr>,
      i_pool := ClosePool (i_pool i), i_session := no_session, i_log := lg3\<rparr>)"
    and w': "w_objs w' = Map.empty" "w_user_count w' = 0" "w_connections w' = Map.empty" "w_interest w' = Map.empty"
      "w_open w' = w_open (s_world (i_server i)) - {s_listen_fd (i_server i), ep_fd (i_epoller i)} -
         open_fds (w_objs (s_world (i_server i)))"
      "registry_ok (s_world (i_server i)) \<longrightarrow> w_online w' = Map.empty"
  have "registry_ok (s_world (i_server i))" if "orderly_run e (i_server i)"
    using orderly_run_inv [OF that] by (simp add: srv_inv_def)
  with d w' show ?thesis by (simp add: ClosePool_def no_session_def open_fds_def deref_def)
qed

text \<open>
  Property C24. Messages that were acknowledged but not yet stored when the server stops are lost: the
  destructor closes the session with Scylla, and only after \<open>main\<close> has returned is the writer
  stopped, which then takes the whole queue and can store none of it.
\<close>

theorem shutdown_loses_queue:
  assumes "server_run e (i_server i)" and "distinct ps" and "set ps = ran (w_connections (s_world (i_server i)))"
    and "\<not> ss_locked (i_session i)"
    and "log_all at 0 [(1, ''========== Server shutting down =========='')] (i_log i) = Some lg1"
    and "log_all at 1 [(1, ''========== Server stopped =========='')] lg1 = Some lg2" and "Log_flush lg2 = Some lg3"
    and "wr_running (w_writer (s_world (i_server i)))"
  shows "\<exists>i'. Webserver_delete at ps i = Some i' \<and> wr_queue (exit_writer sc i') = [] \<and>
    wr_store (exit_writer sc i') = wr_store (w_writer (s_world (i_server i)))"
proof (rule delete_effect [OF server_run_base [OF assms(1)] assms(2-7)])
  fix w'
  assume d: "Webserver_delete at ps i = Some (i\<lparr>i_is_close := True, i_server := (i_server i)\<lparr>s_world := w'\<rparr>,
      i_pool := ClosePool (i_pool i), i_session := no_session, i_log := lg3\<rparr>)"
    and w: "w_writer w' = w_writer (s_world (i_server i))"
  have "\<not> has_session (session_scylla no_session sc) s" for s by (simp add: session_scylla_def no_session_def)
  from failed_batch_lost(2) [OF this assms(8)] d w show ?thesis by (simp add: exit_writer_def)
qed

text \<open>A server with messages in the queue.\<close>

definition ex_object :: "(db_view, mem_store) server_object" where
  "ex_object = \<lparr>i_server = ex_start\<lparr>s_world := (s_world ex_start)\<lparr>w_writer := ex_writer\<rparr>\<rparr>, i_is_close = False,
     i_is_et = True, i_src_dir = [], i_log = Log_new, i_pool = \<lparr>MAX_CONN = 1, conn_queue = [0], semId = 1\<rparr>,
     i_session = no_session\<lparr>ss_session := True\<rparr>, i_listen_flags = 0, i_epoller = \<lparr>ep_fd = 4, ep_events = [(0, 0)]\<rparr>\<rparr>"

lemma ex_object_ok:
  "server_run ex_senv (i_server ex_object)" "distinct ([] :: nat list)"
  "set [] = ran (w_connections (s_world (i_server ex_object)))" "\<not> ss_locked (i_session ex_object)"
  "log_all at 0 [(1, ''========== Server shutting down =========='')] (i_log ex_object) = Some Log_new"
  "log_all at 1 [(1, ''========== Server stopped =========='')] Log_new = Some Log_new" "Log_flush Log_new = Some Log_new"
  by (rule server_run.start)
    (simp_all add: ex_object_def ex_start_def started_def no_session_def Log_new_def Log_flush_def del: log_all.simps)

theorem shutdown_releases_witness:
  "\<exists>i'. Webserver_delete (\<lambda>_. (1, [], True, [])) [] ex_object = Some i' \<and> w_open (s_world (i_server i')) = {} \<and>
     conn_queue (i_pool i') = []"
  using shutdown_releases [OF ex_object_ok, of "\<lambda>_. (1, [], True, [])"]
  by (auto simp: ex_object_def ex_start_def deref_def)

theorem shutdown_loses_queue_witness:
  "\<exists>i'. Webserver_delete (\<lambda>_. (1, [], True, [])) [] ex_object = Some i' \<and> wr_queue (w_writer (s_world (i_server ex_object))) \<noteq> [] \<and>
     wr_queue (exit_writer mem_scylla i') = [] \<and> wr_store (exit_writer mem_scylla i') = []"
proof -
  have "wr_running (w_writer (s_world (i_server ex_object)))" "wr_queue (w_writer (s_world (i_server ex_object))) \<noteq> []"
    "wr_store (w_writer (s_world (i_server ex_object))) = []"
    by (simp_all add: ex_object_def ex_writer_def)
  with shutdown_loses_queue [OF ex_object_ok this(1), of "\<lambda>_. (1, [], True, [])" mem_scylla] show ?thesis by auto
qed

end
