(* ===== verification/Client_Network.thy ===== *)
theory Client_Network
  imports Wire_Codec
begin

text \<open>
  The client's network manager (\<open>client/network_manager.cpp\<close>): the connection, the listener
  thread that splits the byte stream into packets and sorts them, requests that wait for their
  response, and the chat state that the user interface shows.

  Model. The socket is the list of segments that have arrived: \<open>recv\<close> takes up to the number
  of bytes asked for from the first segment, and an empty segment is the end of the stream or an
  error. Callbacks append to the list \<open>cl_notices\<close>. A request waits with the mutex released:
  what the listener handles meanwhile is an argument, the segments that arrive until the waiting
  thread owns the mutex again, with the response or after the timeout. Results of system calls
  and the clock are arguments. \<open>None\<close> is \<open>std::terminate\<close>. The signal \<open>SIGPIPE\<close>, which \<open>send\<close>
  raises on a connection that the other side has closed, is not modelled: a failed \<open>send\<close> is its
  return value only.
\<close>

section \<open>State\<close>

datatype notice =
    ErrorNotice string
  | FriendRequestNotice FriendReqPush
  | FriendStatusNotice FriendStatusPush
  | MessageNotice P2PMessage

record client =
  cl_sock :: int
  cl_connected :: bool
  cl_token :: string
  cl_user_id :: u64
  cl_username :: string
  cl_listener :: bool
  cl_heartbeat :: bool
  cl_running :: bool
  cl_response :: Envelope
  cl_has_response :: bool
  cl_on_error :: bool
  cl_on_friend_request :: bool
  cl_on_friend_status :: bool
  cl_on_message :: bool
  cl_pending :: "FriendReqPush list"
  cl_history :: "u64 \<Rightarrow> P2PMessage list option"
  cl_notices :: "notice list"

definition NetworkManager_new :: client where
  "NetworkManager_new = \<lparr>cl_sock = -1, cl_connected = False, cl_token = [], cl_user_id = 0, cl_username = [],
     cl_listener = False, cl_heartbeat = False, cl_running = False, cl_response = Envelope_default,
     cl_has_response = False, cl_on_error = False, cl_on_friend_request = False, cl_on_friend_status = False,
     cl_on_message = False, cl_pending = [], cl_history = Map.empty, cl_notices = []\<rparr>"

definition notify :: "bool \<Rightarrow> notice \<Rightarrow> client \<Rightarrow> client" where
  "notify is_set n cl = (if is_set then cl\<lparr>cl_notices := cl_notices cl @ [n]\<rparr> else cl)"

text \<open>The setters of the callbacks record that one is set.\<close>

definition SetOnErrorCallback :: "client \<Rightarrow> client" where
  "SetOnErrorCallback cl = cl\<lparr>cl_on_error := True\<rparr>"

definition SetOnFriendRequestCallback :: "client \<Rightarrow> client" where
  "SetOnFriendRequestCallback cl = cl\<lparr>cl_on_friend_request := True\<rparr>"

definition SetOnFriendStatusCallback :: "client \<Rightarrow> client" where
  "SetOnFriendStatusCallback cl = cl\<lparr>cl_on_friend_status := True\<rparr>"

definition SetOnMessageCallback :: "client \<Rightarrow> client" where
  "SetOnMessageCallback cl = cl\<lparr>cl_on_message := True\<rparr>"

lemmas callback_setters = SetOnErrorCallback_def SetOnFriendRequestCallback_def SetOnFriendStatusCallback_def
  SetOnMessageCallback_def

definition GetUserId :: "client \<Rightarrow> u64" where
  "GetUserId cl = cl_user_id cl"

definition IsLoggedIn :: "client \<Rightarrow> bool" where
  "IsLoggedIn cl \<longleftrightarrow> cl_token cl \<noteq> []"

text \<open>\<open>p2p_chat_history_[k].push_back(msg)\<close>.\<close>

definition history_push :: "u64 \<Rightarrow> P2PMessage \<Rightarrow> client \<Rightarrow> client" where
  "history_push k msg cl =
     cl\<lparr>cl_history := (cl_history cl)(k \<mapsto> (case cl_history cl k of None \<Rightarrow> [] | Some ms \<Rightarrow> ms) @ [msg])\<rparr>"

section \<open>Connecting\<close>

text \<open>Assigning to a \<open>std::thread\<close> that is joinable terminates the program.\<close>

definition Connect :: "int \<Rightarrow> int \<Rightarrow> int \<Rightarrow> client \<Rightarrow> (bool \<times> client) option" where
  "Connect sock pton conn cl =
     (if cl_connected cl then Some (True, cl)
      else let cl1 = cl\<lparr>cl_sock := sock\<rparr> in
        if sock < 0 then Some (False, cl1)
        else if pton \<le> 0 then Some (False, cl1)
        else if conn < 0 then Some (False, cl1)
        else let cl2 = cl1\<lparr>cl_connected := True, cl_running := True\<rparr> in
          if cl_listener cl2 then None
          else let cl3 = cl2\<lparr>cl_listener := True\<rparr> in
            if cl_heartbeat cl3 then None else Some (True, cl3\<lparr>cl_heartbeat := True\<rparr>))"

definition Disconnect :: "client \<Rightarrow> client" where
  "Disconnect cl = cl\<lparr>cl_running := False, cl_sock := -1, cl_listener := False, cl_heartbeat := False,
     cl_connected := False\<rparr>"

definition ClearAuth :: "client \<Rightarrow> client" where
  "ClearAuth cl = cl\<lparr>cl_token := [], cl_user_id := 0, cl_username := [], cl_history := Map.empty, cl_pending := []\<rparr>"

section \<open>The listener\<close>

datatype received = Got bytes "bytes list" | Lost | Blocked

fun recv_exact :: "nat \<Rightarrow> bytes list \<Rightarrow> received" where
  "recv_exact n [] = (if n = 0 then Got [] [] else Blocked)"
| "recv_exact n (seg # segs) =
     (if n = 0 then Got [] (seg # segs)
      else if seg = [] then Lost
      else if length seg \<le> n
      then case recv_exact (n - length seg) segs of Got bs r \<Rightarrow> Got (seg @ bs) r | x \<Rightarrow> x
      else Got (take n seg) (drop n seg # segs))"

definition connection_lost :: "string \<Rightarrow> client \<Rightarrow> client" where
  "connection_lost err cl =
     (if cl_running cl
      then (notify (cl_on_error cl) (ErrorNotice err) cl)\<lparr>cl_running := False, cl_connected := False\<rparr>
      else cl)"

definition kMaxPacket :: nat where
  "kMaxPacket = 10 * 1024 * 1024"

text \<open>The accessors of an envelope give the default message when another field is set.\<close>

definition friend_req_of :: "Envelope \<Rightarrow> FriendReqPush" where
  "friend_req_of env = (case env_payload env of friend_req_push r \<Rightarrow> r
     | _ \<Rightarrow> \<lparr>fp_req_id = 0, fp_sender_id = 0, fp_sender_name = [], fp_verify_msg = [], fp_timestamp = 0\<rparr>)"

definition friend_status_of :: "Envelope \<Rightarrow> FriendStatusPush" where
  "friend_status_of env = (case env_payload env of friend_status_push s \<Rightarrow> s
     | _ \<Rightarrow> \<lparr>sp_receiver_id = 0, sp_receiver_name = [], sp_action = 0\<rparr>)"

definition message_of :: "Envelope \<Rightarrow> P2PMessage" where
  "message_of env = (case env_payload env of p2p_msg_push m \<Rightarrow> m
     | _ \<Rightarrow> \<lparr>msg_id = 0, sender_id = 0, receiver_id = 0, content_type = 0, content = [], timestamp = 0\<rparr>)"

definition handle_packet :: "Envelope \<Rightarrow> client \<Rightarrow> client" where
  "handle_packet env cl =
     (if env_cmd env = CMD_FRIEND_REQ_PUSH
      then let req = friend_req_of env; cl1 = cl\<lparr>cl_pending := cl_pending cl @ [req]\<rparr>
        in notify (cl_on_friend_request cl1) (FriendRequestNotice req) cl1
      else if env_cmd env = CMD_FRIEND_STATUS_PUSH
      then notify (cl_on_friend_status cl) (FriendStatusNotice (friend_status_of env)) cl
      else if env_cmd env = CMD_P2P_MSG_PUSH
      then let msg = message_of env; cl1 = history_push (sender_id msg) msg cl
        in notify (cl_on_message cl1) (MessageNotice msg) cl1
      else cl\<lparr>cl_response := env, cl_has_response := True\<rparr>)"

text \<open>One pass of the loop: the packet it handled (if any), or why the loop ended or waits.\<close>

datatype pass = Next client "bytes list" | Stop client | Wait

definition listen_pass :: "(bytes \<Rightarrow> Envelope option) \<Rightarrow> client \<Rightarrow> bytes list \<Rightarrow> pass" where
  "listen_pass parse cl segs =
     (case recv_exact 4 segs of
        Blocked \<Rightarrow> Wait
      | Lost \<Rightarrow> Stop (connection_lost ''Connection lost'' cl)
      | Got len_buf segs1 \<Rightarrow>
          let msg_len = unat (ntohl_bytes len_buf) in
          if msg_len > kMaxPacket then Stop (connection_lost ''Protocol Error: Packet too large'' cl)
          else case recv_exact msg_len segs1 of
            Blocked \<Rightarrow> Wait
          | Lost \<Rightarrow> Stop (connection_lost ''Connection lost reading body'' cl)
          | Got body segs2 \<Rightarrow>
              case parse body of None \<Rightarrow> Next cl segs2 | Some env \<Rightarrow> Next (handle_packet env cl) segs2)"

definition stream_size :: "bytes list \<Rightarrow> nat" where
  "stream_size segs = length (concat segs)"

lemma recv_exact_Got:
  "recv_exact n segs = Got bs r \<Longrightarrow> length bs = n \<and> concat segs = bs @ concat r"
proof (induction segs arbitrary: n bs r)
  case Nil
  then show ?case by (simp split: if_splits)
next
  case (Cons seg segs)
  consider (zero) "n = 0" | (part) "n > 0" "seg \<noteq> []" "length seg > n"
    | (all) bs1 where "seg \<noteq> []" "length seg \<le> n" "recv_exact (n - length seg) segs = Got bs1 r" "bs = seg @ bs1"
    using Cons.prems by (cases "n = 0") (auto split: if_splits received.splits)
  then show ?case
  proof cases
    case zero
    with Cons.prems show ?thesis by auto
  next
    case part
    with Cons.prems have "bs = take n seg" "r = drop n seg # segs" by auto
    with part show ?thesis by simp
  next
    case all
    with Cons.IH [OF all(3)] show ?thesis by simp
  qed
qed

lemma recv_exact_size: "recv_exact n segs = Got bs r \<Longrightarrow> stream_size segs = n + stream_size r"
  by (drule recv_exact_Got) (simp add: stream_size_def)

lemma listen_pass_size: "listen_pass parse cl segs = Next cl' r \<Longrightarrow> stream_size r < stream_size segs"
  by (auto simp: listen_pass_def Let_def split: received.splits if_splits option.splits dest!: recv_exact_size)

text \<open>The loop, up to where it waits for more input; the rest of the stream is returned.\<close>

function ListenerLoop :: "(bytes \<Rightarrow> Envelope option) \<Rightarrow> client \<Rightarrow> bytes list \<Rightarrow> client \<times> bytes list" where
  "ListenerLoop parse cl segs =
     (if \<not> cl_running cl then (cl, segs)
      else case listen_pass parse cl segs of
        Wait \<Rightarrow> (cl, segs)
      | Stop cl1 \<Rightarrow> (cl1, segs)
      | Next cl1 segs1 \<Rightarrow> ListenerLoop parse cl1 segs1)"
  by pat_completeness auto
termination
  by (relation "measure (\<lambda>(parse, cl, segs). stream_size segs)") (auto dest: listen_pass_size)

declare ListenerLoop.simps [simp del]

text \<open>The listener runs until \<open>Disconnect\<close> has joined it: \<open>late\<close> is what it still receives after
  \<open>ClearAuth\<close>.\<close>

definition Logout :: "(bytes \<Rightarrow> Envelope option) \<Rightarrow> bytes list \<Rightarrow> client \<Rightarrow> bool \<times> client" where
  "Logout parse late cl =
     (if \<not> IsLoggedIn cl then (True, cl)
      else (True, Disconnect (fst (ListenerLoop parse (ClearAuth cl) late))))"

section \<open>Requests\<close>

text \<open>The packet that is handed to \<open>send\<close>, and the result for its return value \<open>sent\<close>.\<close>

definition SendEnvelope :: "(Envelope \<Rightarrow> bytes) \<Rightarrow> int \<Rightarrow> Envelope \<Rightarrow> client \<Rightarrow> bool \<times> bytes option" where
  "SendEnvelope serialize sent env cl =
     (if \<not> cl_connected cl then (False, None)
      else let packet = frame (serialize env) in (sent = int (length packet), Some packet))"

text \<open>
  \<open>incoming\<close> is what arrives until the waiting thread runs on. The results: the response when
  one of the expected kind is there, the rest of the stream, and the packet sent.
\<close>

definition SendRequestAndWait ::
  "(Envelope \<Rightarrow> bytes) \<Rightarrow> (bytes \<Rightarrow> Envelope option) \<Rightarrow> int \<Rightarrow> bytes list \<Rightarrow> Envelope \<Rightarrow> CommandType \<Rightarrow> client \<Rightarrow>
   Envelope option \<times> client \<times> bytes list \<times> bytes option" where
  "SendRequestAndWait serialize parse sent incoming request expected_cmd cl =
     (let cl1 = cl\<lparr>cl_has_response := False\<rparr>; (ok, packet) = SendEnvelope serialize sent request cl1 in
      if \<not> ok then (None, cl1, incoming, packet)
      else let (cl2, rest) = ListenerLoop parse cl1 incoming in
        if cl_has_response cl2
        then if env_cmd (cl_response cl2) = expected_cmd then (Some (cl_response cl2), cl2, rest, packet)
             else (None, cl2, rest, packet)
        else (None, cl2, rest, packet))"

definition HeartbeatLoop_pass ::
  "(Envelope \<Rightarrow> bytes) \<Rightarrow> int \<Rightarrow> int \<Rightarrow> client \<Rightarrow> bytes option" where
  "HeartbeatLoop_pass serialize now sent cl =
     (if \<not> cl_running cl then None
      else if cl_connected cl
      then snd (SendEnvelope serialize sent (Envelope_default\<lparr>env_cmd := CMD_HEARTBEAT, env_timestamp := now\<rparr>) cl)
      else None)"

text \<open>
  What an operation is given: the serializer, the parser, the clock, the result of \<open>send\<close> and
  what arrives while it waits.
\<close>

record net =
  n_serialize :: "Envelope \<Rightarrow> bytes"
  n_parse :: "bytes \<Rightarrow> Envelope option"
  n_clock :: "nat \<Rightarrow> int"
  n_sent :: int
  n_incoming :: "bytes list"

type_synonym 'a outcome = "(string + 'a) \<times> client \<times> bytes list \<times> bytes option"

definition request_envelope :: "int \<Rightarrow> CommandType \<Rightarrow> payload \<Rightarrow> Envelope" where
  "request_envelope now cmd pl = Envelope_default\<lparr>env_cmd := cmd, env_timestamp := now, env_payload := pl\<rparr>"

text \<open>The common course of the operations: send, wait, and evaluate the response. \<open>Inl\<close> is the
  error message of an operation that returns \<open>false\<close>.\<close>

definition perform_request ::
  "net \<Rightarrow> Envelope \<Rightarrow> CommandType \<Rightarrow> (Envelope \<Rightarrow> client \<Rightarrow> (string + 'a) \<times> client) \<Rightarrow> client \<Rightarrow> 'a outcome" where
  "perform_request n env expected_cmd k cl =
     (let (resp, cl1, rest, packet) =
        SendRequestAndWait (n_serialize n) (n_parse n) (n_sent n) (n_incoming n) env expected_cmd cl
      in case resp of
           None \<Rightarrow> (Inl ''Request timeout or network error'', cl1, rest, packet)
         | Some resp_env \<Rightarrow> let (r, cl2) = k resp_env cl1 in (r, cl2, rest, packet))"

definition Register :: "net \<Rightarrow> string \<Rightarrow> string \<Rightarrow> client \<Rightarrow> unit outcome" where
  "Register n username password =
     perform_request n (request_envelope (n_clock n 0) CMD_REGISTER_REQ
         (register_req \<lparr>rq_username = username, rq_password = password\<rparr>)) CMD_REGISTER_RES
       (\<lambda>env cl. let resp = (case env_payload env of register_res r \<Rightarrow> r | _ \<Rightarrow> RegisterResp_default) in
          if rr_success resp then (Inr (), cl\<lparr>cl_user_id := rr_user_id resp\<rparr>) else (Inl (rr_error_msg resp), cl))"

definition Login :: "net \<Rightarrow> string \<Rightarrow> string \<Rightarrow> client \<Rightarrow> unit outcome" where
  "Login n username password =
     perform_request n (request_envelope (n_clock n 0) CMD_LOGIN_REQ
         (login_req \<lparr>lq_username = username, lq_password = password\<rparr>)) CMD_LOGIN_RES
       (\<lambda>env cl. let resp = (case env_payload env of login_res r \<Rightarrow> r | _ \<Rightarrow> LoginResp_default) in
          if lr_success resp
          then let cl1 = cl\<lparr>cl_token := lr_token resp\<rparr> in
            (Inr (), case lr_user_info resp of
               None \<Rightarrow> cl1
             | Some u \<Rightarrow> cl1\<lparr>cl_user_id := usr_user_id u, cl_username := usr_username u\<rparr>)
          else (Inl (lr_error_msg resp), cl))"

definition Client_AddFriend :: "net \<Rightarrow> u64 \<Rightarrow> string \<Rightarrow> client \<Rightarrow> unit outcome" where
  "Client_AddFriend n receiver verify_msg =
     perform_request n (request_envelope (n_clock n 0) CMD_ADD_FRIEND_REQ
         (add_friend_req \<lparr>aq_receiver_id = receiver, aq_verify_msg = verify_msg\<rparr>)) CMD_ADD_FRIEND_RES
       (\<lambda>env cl. let resp = (case env_payload env of add_friend_res r \<Rightarrow> r | _ \<Rightarrow> AddFriendResp_default) in
          if ar_success resp then (Inr (), cl) else (Inl (ar_error_msg resp), cl))"

definition HandleFriendRequest :: "net \<Rightarrow> u64 \<Rightarrow> u64 \<Rightarrow> int \<Rightarrow> client \<Rightarrow> unit outcome" where
  "HandleFriendRequest n req_id sender action =
     perform_request n (request_envelope (n_clock n 0) CMD_HANDLE_FRIEND_REQ
         (handle_friend_req \<lparr>hq_req_id = req_id, hq_sender_id = sender, hq_action = action\<rparr>)) CMD_HANDLE_FRIEND_RES
       (\<lambda>env cl. let resp = (case env_payload env of handle_friend_res r \<Rightarrow> r | _ \<Rightarrow> HandleFriendResp_default) in
          if hr_success resp then (Inr (), cl) else (Inl (hr_error_msg resp), cl))"

definition Client_GetFriendList :: "net \<Rightarrow> client \<Rightarrow> User list outcome" where
  "Client_GetFriendList n =
     perform_request n (request_envelope (n_clock n 0) CMD_GET_FRIEND_LIST_REQ get_friend_list_req) CMD_GET_FRIEND_LIST_RES
       (\<lambda>env cl. let resp = (case env_payload env of get_friend_list_res r \<Rightarrow> r | _ \<Rightarrow> GetFriendListResp_default) in
          if gr_success resp then (Inr (gr_friend_list resp), cl) else (Inl (gr_error_msg resp), cl))"

definition GetPendingFriendRequests :: "client \<Rightarrow> FriendReqPush list" where
  "GetPendingFriendRequests cl = cl_pending cl"

definition RemovePendingRequest :: "u64 \<Rightarrow> client \<Rightarrow> client" where
  "RemovePendingRequest req_id cl = cl\<lparr>cl_pending := filter (\<lambda>r. fp_req_id r \<noteq> req_id) (cl_pending cl)\<rparr>"

definition SendP2PMessage :: "net \<Rightarrow> u64 \<Rightarrow> bytes \<Rightarrow> client \<Rightarrow> unit outcome" where
  "SendP2PMessage n receiver text cl =
     (let req = \<lparr>msg_id = 0, sender_id = cl_user_id cl, receiver_id = receiver, content_type = 0, content = text,
                 timestamp = n_clock n 0\<rparr> in
      perform_request n (request_envelope (n_clock n 1) CMD_P2P_MSG_REQ (p2p_msg_req req)) CMD_MSG_ACK
       (\<lambda>env cl. let resp = (case env_payload env of msg_ack r \<Rightarrow> r | _ \<Rightarrow> MessageAck_default) in
          if ack_success resp then (Inr (), history_push receiver req cl) else (Inl (ack_error_msg resp), cl)) cl)"

definition chat_partner :: "u64 \<Rightarrow> P2PMessage \<Rightarrow> u64" where
  "chat_partner user_id msg = (if sender_id msg = user_id then receiver_id msg else sender_id msg)"

text \<open>The loop of \<open>SyncMessages\<close>; \<open>i\<close> counts down from the number of messages.\<close>

fun sync_loop :: "P2PMessage list \<Rightarrow> nat \<Rightarrow> client \<Rightarrow> client" where
  "sync_loop msgs 0 cl = cl"
| "sync_loop msgs (Suc i) cl =
     (let msg = msgs ! i in sync_loop msgs i (history_push (chat_partner (cl_user_id cl) msg) msg cl))"

definition SyncMessages :: "net \<Rightarrow> client \<Rightarrow> unit outcome" where
  "SyncMessages n cl =
     perform_request n (request_envelope (n_clock n 0) CMD_SYNC_MSGS_REQ (sync_msgs_req \<lparr>sq_user_id = cl_user_id cl\<rparr>))
       CMD_SYNC_MSGS_RES
       (\<lambda>env cl. let resp = (case env_payload env of sync_msgs_res r \<Rightarrow> r | _ \<Rightarrow> SyncMessagesResp_default) in
          if sr_success resp
          then (Inr (), sync_loop (sr_messages resp) (length (sr_messages resp)) (cl\<lparr>cl_history := Map.empty\<rparr>))
          else (Inl (sr_error_msg resp), cl)) cl"

text \<open>\<open>operator[]\<close> creates the entry it does not find.\<close>

definition GetP2PHistory :: "u64 \<Rightarrow> client \<Rightarrow> P2PMessage list \<times> client" where
  "GetP2PHistory k cl =
     (case cl_history cl k of Some ms \<Rightarrow> (ms, cl) | None \<Rightarrow> ([], cl\<lparr>cl_history := (cl_history cl)(k \<mapsto> [])\<rparr>))"

section \<open>The stream is split at the frames\<close>

lemma recv_exact_full:
  "[] \<notin> set segs \<Longrightarrow> n \<le> length (concat segs) \<Longrightarrow>
   \<exists>r. recv_exact n segs = Got (take n (concat segs)) r \<and> concat r = drop n (concat segs) \<and> [] \<notin> set r"
proof (induction segs arbitrary: n)
  case (Cons seg segs)
  show ?case
  proof (cases "n = 0 \<or> length seg > n")
    case True
    with Cons.prems show ?thesis by auto
  next
    case False
    have "[] \<notin> set segs" "n - length seg \<le> length (concat segs)" using Cons.prems by auto
    from Cons.IH [OF this] obtain r where "recv_exact (n - length seg) segs = Got (take (n - length seg) (concat segs)) r"
      "concat r = drop (n - length seg) (concat segs)" "[] \<notin> set r" by blast
    with False Cons.prems show ?thesis by auto
  qed
qed simp

lemma recv_exact_short: "[] \<notin> set segs \<Longrightarrow> length (concat segs) < n \<Longrightarrow> recv_exact n segs = Blocked"
  by (induction segs arbitrary: n) (auto split: received.splits)

text \<open>The beginning of a frame that has not arrived whole.\<close>

definition incomplete :: "bytes \<Rightarrow> bool" where
  "incomplete bs \<longleftrightarrow> length bs < 4 \<or>
     unat (ntohl_bytes (take 4 bs)) \<le> kMaxPacket \<and> length bs < 4 + unat (ntohl_bytes (take 4 bs))"

lemma listen_pass_waits:
  assumes "[] \<notin> set segs" and "incomplete (concat segs)"
  shows "listen_pass parse cl segs = Wait"
proof (cases "length (concat segs) < 4")
  case True
  then show ?thesis by (simp add: listen_pass_def recv_exact_short [OF assms(1)])
next
  case False
  with recv_exact_full [OF assms(1), of 4] obtain r where r: "recv_exact 4 segs = Got (take 4 (concat segs)) r"
    "concat r = drop 4 (concat segs)" "[] \<notin> set r" by auto
  let ?n = "unat (ntohl_bytes (take 4 (concat segs)))"
  have "length (concat r) < ?n" "?n \<le> kMaxPacket" using assms(2) False r(2) by (auto simp: incomplete_def)
  with r show ?thesis by (simp add: listen_pass_def recv_exact_short)
qed

lemma frame_header: "length body \<le> kMaxPacket \<Longrightarrow> unat (ntohl_bytes (take 4 (frame body @ rest))) = length body"
proof -
  assume n: "length body \<le> kMaxPacket"
  have "ntohl_bytes (take 4 (frame body @ rest)) = word_of_nat (length body)"
    using ntohl_htonl [of "word_of_nat (length body)" "[]"] by (simp add: frame_def ntohl_take)
  with n show ?thesis by (simp add: kMaxPacket_def unsigned_of_nat take_bit_nat_eq_self)
qed

lemma listen_pass_frame:
  assumes n: "length body \<le> kMaxPacket" and c: "concat segs = frame body @ rest" and s: "[] \<notin> set segs"
  shows "\<exists>r. listen_pass parse cl segs = Next (case parse body of None \<Rightarrow> cl | Some env \<Rightarrow> handle_packet env cl) r \<and>
    concat r = rest \<and> [] \<notin> set r"
proof -
  have l: "length (concat segs) \<ge> 4" "drop 4 (concat segs) = body @ rest" using c by (simp_all add: frame_def)
  with recv_exact_full [OF s, of 4] obtain r where r: "recv_exact 4 segs = Got (take 4 (concat segs)) r"
    "concat r = body @ rest" "[] \<notin> set r" by auto
  from recv_exact_full [OF r(3), of "length body"] r(2) obtain r2 where
    r2: "recv_exact (length body) r = Got body r2" "concat r2 = rest" "[] \<notin> set r2" by auto
  show ?thesis
    using r(1) r2 n frame_header [OF n, of rest] by (simp add: listen_pass_def c split: option.split)
qed

lemma handle_packet_running [simp]: "cl_running (handle_packet env cl) = cl_running cl"
  by (simp add: handle_packet_def Let_def notify_def history_push_def)

definition handle_all :: "(bytes \<Rightarrow> Envelope option) \<Rightarrow> bytes list \<Rightarrow> client \<Rightarrow> client" where
  "handle_all parse bodies cl = fold handle_packet (List.map_filter parse bodies) cl"

lemma ListenerLoop_frames:
  assumes "cl_running cl" and "\<And>b. b \<in> set bodies \<Longrightarrow> length b \<le> kMaxPacket"
    and "concat segs = concat (map frame bodies) @ tail" and "[] \<notin> set segs"
  shows "\<exists>segs'. ListenerLoop parse cl segs = ListenerLoop parse (handle_all parse bodies cl) segs' \<and>
     concat segs' = tail \<and> [] \<notin> set segs' \<and> cl_running (handle_all parse bodies cl)"
  using assms
proof (induction bodies arbitrary: cl segs)
  case Nil
  then show ?case by (auto simp: handle_all_def List.map_filter_simps)
next
  case (Cons b bodies)
  let ?cl = "case parse b of None \<Rightarrow> cl | Some env \<Rightarrow> handle_packet env cl"
  have "concat segs = frame b @ (concat (map frame bodies) @ tail)" using Cons.prems(3) by simp
  from listen_pass_frame [OF _ this Cons.prems(4), of parse cl] Cons.prems(2) obtain r where
    r: "listen_pass parse cl segs = Next ?cl r" "concat r = concat (map frame bodies) @ tail" "[] \<notin> set r" by auto
  have step: "ListenerLoop parse cl segs = ListenerLoop parse ?cl r"
    using r(1) Cons.prems(1) by (simp add: ListenerLoop.simps [of parse cl segs])
  have run: "cl_running ?cl" using Cons.prems(1) by (simp split: option.split)
  have "handle_all parse (b # bodies) cl = handle_all parse bodies ?cl"
    by (simp add: handle_all_def List.map_filter_simps split: option.split)
  with Cons.IH [OF run _ r(2,3)] Cons.prems(2) step show ?case by auto
qed

lemma ListenerLoop_one:
  assumes "parse b = Some env" and "length b \<le> kMaxPacket" and "cl_running cl"
  shows "ListenerLoop parse cl [frame b] = (handle_packet env cl, [])"
proof -
  from listen_pass_frame [OF assms(2), of "[frame b]" "[]" parse cl] obtain r where
    r: "listen_pass parse cl [frame b] = Next (handle_packet env cl) r" "concat r = []" "[] \<notin> set r"
    using assms(1) by (auto simp del: concat_eq_Nil_conv)
  then have "r = []" by (cases r) auto
  with r assms(3) show ?thesis
    by (simp add: ListenerLoop.simps [of parse cl "[frame b]"] ListenerLoop.simps [of parse _ "[]"] listen_pass_def)
qed

lemma ListenerLoop_handles:
  assumes "cl_running cl" and "\<And>b. b \<in> set bodies \<Longrightarrow> length b \<le> kMaxPacket"
    and "concat segs = concat (map frame bodies) @ tail" and "[] \<notin> set segs" and "incomplete tail"
  shows "\<exists>rest. ListenerLoop parse cl segs = (handle_all parse bodies cl, rest) \<and> concat rest = tail"
proof -
  from ListenerLoop_frames [OF assms(1-4), of parse] obtain r where
    r: "ListenerLoop parse cl segs = ListenerLoop parse (handle_all parse bodies cl) r" "concat r = tail" "[] \<notin> set r"
      "cl_running (handle_all parse bodies cl)" by blast
  moreover have "ListenerLoop parse (handle_all parse bodies cl) r = (handle_all parse bodies cl, r)"
    using listen_pass_waits [OF r(3)] assms(5) r(2,4)
    by (simp add: ListenerLoop.simps [of parse "handle_all parse bodies cl" r])
  ultimately show ?thesis by auto
qed

text \<open>
  Property C16. However the network cuts the stream into segments, the listener handles exactly the
  packets that were framed, in order, skips those that do not parse, and leaves an incomplete
  frame at the end of the stream to wait for the rest of it.
\<close>

theorem listener_splits_frames:
  assumes "cl_running cl" and "\<And>b. b \<in> set bodies \<Longrightarrow> length b \<le> kMaxPacket"
    and "concat segs = concat (map frame bodies) @ tail" and "[] \<notin> set segs" and "incomplete tail"
  shows "\<exists>rest. ListenerLoop parse cl segs = (fold handle_packet (List.map_filter parse bodies) cl, rest) \<and>
    concat rest = tail"
  using ListenerLoop_handles [OF assms, of parse] by (simp add: handle_all_def)

definition ex_client :: client where
  "ex_client = NetworkManager_new\<lparr>cl_sock := 4, cl_connected := True, cl_running := True, cl_listener := True,
     cl_heartbeat := True, cl_on_error := True, cl_user_id := 11\<rparr>"

definition ex_codec :: "bytes \<Rightarrow> Envelope option" where
  "ex_codec bs = (if bs = ''h'' then Some Envelope_default
     else if bs = ''s'' then Some (Envelope_default\<lparr>env_cmd := CMD_LOGIN_RES\<rparr>) else None)"

theorem listener_splits_frames_witness:
  "\<exists>rest. ListenerLoop ex_codec ex_client [take 2 (frame ''h''), drop 2 (frame ''h'') @ frame ''?'', [CHR 0x00]] =
     (handle_packet Envelope_default ex_client, rest) \<and> concat rest = [CHR 0x00]"
proof -
  let ?segs = "[take 2 (frame ''h''), drop 2 (frame ''h'') @ frame ''?'', [CHR 0x00]]"
  have "concat ?segs = concat (map frame [''h'', ''?'']) @ [CHR 0x00]" by simp
  moreover have "[] \<notin> set ?segs" by (auto simp: frame_def htonl_bytes_def)
  moreover have "cl_running ex_client" by (simp add: ex_client_def)
  moreover have "length b \<le> kMaxPacket" if "b \<in> set [''h'', ''?'']" for b using that by (auto simp: kMaxPacket_def)
  moreover have "incomplete [CHR 0x00]" by (simp add: incomplete_def)
  ultimately have "\<exists>rest. ListenerLoop ex_codec ex_client ?segs =
      (fold handle_packet (List.map_filter ex_codec [''h'', ''?'']) ex_client, rest) \<and> concat rest = [CHR 0x00]"
    by (intro listener_splits_frames)
  then show ?thesis by (simp add: ex_codec_def List.map_filter_simps)
qed

section \<open>The history after a synchronisation\<close>

abbreviation history :: "client \<Rightarrow> u64 \<Rightarrow> P2PMessage list" where
  "history cl k \<equiv> (case cl_history cl k of None \<Rightarrow> [] | Some ms \<Rightarrow> ms)"

lemma history_push_simps [simp]:
  "history (history_push k m cl) j = (if j = k then history cl k @ [m] else history cl j)"
  "cl_user_id (history_push k m cl) = cl_user_id cl"
  by (simp_all add: history_push_def)

lemma sync_loop_keeps [simp]:
  "cl_response (sync_loop ms i cl) = cl_response cl" "cl_user_id (sync_loop ms i cl) = cl_user_id cl"
  by (induction ms i cl rule: sync_loop.induct) (simp_all add: Let_def history_push_def)

lemma sync_loop_history:
  "i \<le> length msgs \<Longrightarrow> history (sync_loop msgs i cl) k =
     history cl k @ filter (\<lambda>m. chat_partner (cl_user_id cl) m = k) (rev (take i msgs))"
  by (induction msgs i cl rule: sync_loop.induct) (auto simp: Let_def take_Suc_conv_app_nth)

text \<open>
  Property C17. After a successful synchronisation the conversation with every partner is exactly
  the part of the server's answer (newest first) that was exchanged with that partner, oldest
  first, and nothing of the former history is left.
\<close>

theorem sync_rebuilds_history:
  assumes "SyncMessages n cl = (Inr (), cl', rest, packet)"
  shows "\<exists>msgs. (\<exists>env. cl_response cl' = env \<and> env_cmd env = CMD_SYNC_MSGS_RES \<and>
        (\<exists>r. env_payload env = sync_msgs_res r \<and> sr_success r \<and> sr_messages r = msgs)) \<and>
     (\<forall>k. fst (GetP2PHistory k cl') = filter (\<lambda>m. chat_partner (cl_user_id cl') m = k) (rev msgs))"
proof -
  obtain env cl1 where run: "SendRequestAndWait (n_serialize n) (n_parse n) (n_sent n) (n_incoming n)
      (request_envelope (n_clock n 0) CMD_SYNC_MSGS_REQ (sync_msgs_req \<lparr>sq_user_id = cl_user_id cl\<rparr>)) CMD_SYNC_MSGS_RES cl =
      (Some env, cl1, rest, packet)"
    and k: "(let resp = (case env_payload env of sync_msgs_res r \<Rightarrow> r | _ \<Rightarrow> SyncMessagesResp_default) in
          if sr_success resp
          then (Inr (), sync_loop (sr_messages resp) (length (sr_messages resp)) (cl1\<lparr>cl_history := Map.empty\<rparr>))
          else (Inl (sr_error_msg resp), cl1)) = (Inr () :: string + unit, cl')"
    using assms by (auto simp: SyncMessages_def perform_request_def split: prod.splits option.splits)
  have env: "cl_response cl1 = env" "env_cmd env = CMD_SYNC_MSGS_RES"
    using run by (auto simp: SendRequestAndWait_def Let_def split: prod.splits if_splits)
  obtain r where r: "env_payload env = sync_msgs_res r" "sr_success r"
    "cl' = sync_loop (sr_messages r) (length (sr_messages r)) (cl1\<lparr>cl_history := Map.empty\<rparr>)"
    using k by (auto simp: Let_def SyncMessagesResp_default_def split: payload.splits if_splits)
  have "fst (GetP2PHistory k cl') = filter (\<lambda>m. chat_partner (cl_user_id cl') m = k) (rev (sr_messages r))" for k
    using sync_loop_history [of "length (sr_messages r)" "sr_messages r" "cl1\<lparr>cl_history := Map.empty\<rparr>" k] r(3)
    by (simp add: GetP2PHistory_def split: option.splits)
  with env r show ?thesis by auto
qed

definition ex_chat_msg :: "u64 \<Rightarrow> u64 \<Rightarrow> bytes \<Rightarrow> P2PMessage" where
  "ex_chat_msg a b text = \<lparr>msg_id = 0, sender_id = a, receiver_id = b, content_type = 0, content = text, timestamp = 1\<rparr>"

definition ex_sync :: Envelope where
  "ex_sync = Envelope_default\<lparr>env_cmd := CMD_SYNC_MSGS_RES, env_payload := sync_msgs_res
     \<lparr>sr_success = True, sr_error_msg = [],
      sr_messages = [ex_chat_msg 22 11 ''c'', ex_chat_msg 33 11 ''b'', ex_chat_msg 11 22 ''a'']\<rparr>\<rparr>"

definition ex_net :: net where
  "ex_net = \<lparr>n_serialize = \<lambda>_. ''q'', n_parse = \<lambda>bs. if bs = ''y'' then Some ex_sync else None, n_clock = \<lambda>_. 7,
     n_sent = 5, n_incoming = [frame ''y'']\<rparr>"

theorem sync_rebuilds_history_witness:
  "\<exists>cl' rest packet. SyncMessages ex_net ex_client = (Inr (), cl', rest, packet) \<and>
     fst (GetP2PHistory 22 cl') = [ex_chat_msg 11 22 ''a'', ex_chat_msg 22 11 ''c''] \<and>
     fst (GetP2PHistory 33 cl') = [ex_chat_msg 33 11 ''b'']"
proof -
  let ?c = "handle_packet ex_sync (ex_client\<lparr>cl_has_response := False\<rparr>)"
  have l: "ListenerLoop (n_parse ex_net) (ex_client\<lparr>cl_has_response := False\<rparr>) [frame ''y''] = (?c, [])"
    by (rule ListenerLoop_one) (simp_all add: ex_net_def ex_client_def kMaxPacket_def)
  have c: "cl_connected ex_client" "cl_has_response ?c" "cl_response ?c = ex_sync" "env_cmd ex_sync = CMD_SYNC_MSGS_RES"
    "env_payload ex_sync = sync_msgs_res \<lparr>sr_success = True, sr_error_msg = [],
      sr_messages = [ex_chat_msg 22 11 ''c'', ex_chat_msg 33 11 ''b'', ex_chat_msg 11 22 ''a'']\<rparr>"
    "cl_user_id ?c = 11"
    by (simp_all add: handle_packet_def ex_sync_def ex_client_def)
  have n: "n_sent ex_net = int (length (frame (n_serialize ex_net x)))" "n_incoming ex_net = [frame ''y'']" for x
    by (simp_all add: ex_net_def length_frame)
  obtain cl' packet where run: "SyncMessages ex_net ex_client = (Inr (), cl', [], packet)" "cl_response cl' = ex_sync"
      "cl_user_id cl' = 11"
    using l c n
    by (simp add: SyncMessages_def perform_request_def SendRequestAndWait_def SendEnvelope_def Let_def del: sync_loop.simps)
  from sync_rebuilds_history [OF run(1)] c(5) run(2,3)
  have "fst (GetP2PHistory k cl') = filter (\<lambda>m. chat_partner 11 m = k)
      (rev [ex_chat_msg 22 11 ''c'', ex_chat_msg 33 11 ''b'', ex_chat_msg 11 22 ''a''])" for k by auto
  with run(1) show ?thesis by (simp add: chat_partner_def ex_chat_msg_def)
qed

section \<open>Responses are matched by command only\<close>

text \<open>
  An answer of another kind that arrives while a request waits (the server's answer
  to a heartbeat has the command 0) makes the request fail although the connection is sound; its
  response, when it comes, is then taken for the response to the next request of the same kind.
\<close>

lemma heartbeat_shifts_responses:
  assumes cl: "cl_connected cl" "cl_running cl" and n: "n = length (frame (ser req))" "m = length (frame (ser req2))"
    and hb: "parse h = Some beat" "length h \<le> kMaxPacket" "env_cmd beat \<noteq> expected"
      "env_cmd beat \<notin> {CMD_FRIEND_REQ_PUSH, CMD_FRIEND_STATUS_PUSH, CMD_P2P_MSG_PUSH}"
    and re: "parse s = Some response" "length s \<le> kMaxPacket" "env_cmd response = expected"
      "expected \<notin> {CMD_FRIEND_REQ_PUSH, CMD_FRIEND_STATUS_PUSH, CMD_P2P_MSG_PUSH}"
  shows "\<exists>cl1 cl2. SendRequestAndWait ser parse (int n) [frame h] req expected cl = (None, cl1, [], Some (frame (ser req))) \<and>
     SendRequestAndWait ser parse (int m) [frame s] req2 expected cl1 = (Some response, cl2, [], Some (frame (ser req2)))"
proof -
  let ?c1 = "handle_packet beat (cl\<lparr>cl_has_response := False\<rparr>)"
  have 1: "?c1 = cl\<lparr>cl_has_response := True, cl_response := beat\<rparr>"
    using hb(4) by (simp add: handle_packet_def)
  have a: "SendRequestAndWait ser parse (int n) [frame h] req expected cl = (None, ?c1, [], Some (frame (ser req)))"
    using cl ListenerLoop_one [of parse h beat, OF hb(1,2)] 1 hb(3) n(1) by (simp add: SendRequestAndWait_def SendEnvelope_def Let_def)
  let ?c2 = "handle_packet response (?c1\<lparr>cl_has_response := False\<rparr>)"
  have 2: "cl_has_response ?c2" "cl_response ?c2 = response"
    using re(3,4) by (auto simp: handle_packet_def)
  have b: "SendRequestAndWait ser parse (int m) [frame s] req2 expected ?c1 = (Some response, ?c2, [], Some (frame (ser req2)))"
    using cl ListenerLoop_one [of parse s response, OF re(1,2)] 1 2 re(3) n(2) by (simp add: SendRequestAndWait_def SendEnvelope_def Let_def)
  from a b show ?thesis by blast
qed

lemma heartbeat_shifts_responses_witness:
  "\<exists>cl1 cl2. SendRequestAndWait (\<lambda>_. ''q'') ex_codec 5 [frame ''h''] Envelope_default CMD_LOGIN_RES ex_client =
       (None, cl1, [], Some (frame ''q'')) \<and>
     SendRequestAndWait (\<lambda>_. ''q'') ex_codec 5 [frame ''s''] Envelope_default CMD_LOGIN_RES cl1 =
       (Some (Envelope_default\<lparr>env_cmd := CMD_LOGIN_RES\<rparr>), cl2, [], Some (frame ''q''))"
proof -
  have p: "ex_codec ''h'' = Some Envelope_default"
    "ex_codec ''s'' = Some (Envelope_default\<lparr>env_cmd := CMD_LOGIN_RES\<rparr>)" by (simp_all add: ex_codec_def)
  have "\<exists>cl1 cl2. SendRequestAndWait (\<lambda>_. ''q'') ex_codec (int 5) [frame ''h''] Envelope_default CMD_LOGIN_RES ex_client =
       (None, cl1, [], Some (frame ''q'')) \<and>
     SendRequestAndWait (\<lambda>_. ''q'') ex_codec (int 5) [frame ''s''] Envelope_default CMD_LOGIN_RES cl1 =
       (Some (Envelope_default\<lparr>env_cmd := CMD_LOGIN_RES\<rparr>), cl2, [], Some (frame ''q''))"
    by (rule heartbeat_shifts_responses [OF _ _ _ _ p(1) _ _ _ p(2)])
      (simp_all add: ex_client_def kMaxPacket_def Envelope_default_def length_frame)
  then show ?thesis by (simp only: of_nat_numeral)
qed

section \<open>Connecting again\<close>

text \<open>
  After the server has closed the connection the client cannot connect again: the
  listener has ended but was not joined, and assigning a new thread to it terminates the program.
\<close>

lemma reconnect_terminates:
  assumes "Connect sock pton conn cl = Some (True, cl1)" and "\<not> cl_connected cl" and "cl_running cl1"
    and "0 \<le> sock2" and "0 < pton2" and "0 \<le> conn2"
  shows "\<exists>cl2 rest. ListenerLoop parse cl1 [[]] = (cl2, rest) \<and> \<not> cl_connected cl2 \<and> Connect sock2 pton2 conn2 cl2 = None"
proof -
  have "cl_listener cl1" using assms(1,2) by (auto simp: Connect_def Let_def split: if_splits)
  moreover have "ListenerLoop parse cl1 [[]] = (connection_lost ''Connection lost'' cl1, [[]])"
    using assms(3) by (simp add: ListenerLoop.simps [of parse cl1] listen_pass_def)
  ultimately show ?thesis using assms(3-6) by (simp add: connection_lost_def notify_def Connect_def Let_def)
qed

lemma reconnect_terminates_witness:
  "\<exists>cl1 cl2 rest. Connect 4 1 0 NetworkManager_new = Some (True, cl1) \<and>
     ListenerLoop ex_codec cl1 [[]] = (cl2, rest) \<and> Connect 4 1 0 cl2 = None"
proof -
  obtain cl1 where c: "Connect 4 1 0 NetworkManager_new = Some (True, cl1)" "cl_running cl1"
    by (simp add: Connect_def NetworkManager_new_def)
  moreover have "\<not> cl_connected NetworkManager_new" by (simp add: NetworkManager_new_def)
  ultimately have "\<exists>cl2 rest. ListenerLoop ex_codec cl1 [[]] = (cl2, rest) \<and> \<not> cl_connected cl2 \<and> Connect 4 1 0 cl2 = None"
    by (intro reconnect_terminates) simp_all
  with c(1) show ?thesis by blast
qed

end
