(* ===== verification/Client_Ui.thy ===== *)
theory Client_Ui
  imports Client_Network "HOL-Library.Sublist"
begin

text \<open>
  The client's user interface: the application (\<open>client/main.cpp\<close>), the home page
  (\<open>client/ui/home_page.cpp\<close>) and its panels for chatting, for adding a friend and for
  answering friend requests (\<open>client/ui/chat\<close>, \<open>client/ui/friend\<close>).

  Model. The state is what the components refer to: the members of \<open>IMClient\<close>, the
  \<open>HomePageState\<close>, the \<open>ChatState\<close> that the chat panel owns, and the network manager. A
  handler is a function on it; what the network does during each request is a \<open>net\<close> argument,
  in the order of the requests. FTXUI, which draws the widgets and calls the handlers, is not part
  of the program: edits and menu movements are events with any value, and the functions that make
  elements are constructors of a datatype, the view as the code composes it. The queue of tasks
  that callbacks post to the screen is the list of notices of the network manager. Sizes are far
  below \<open>2 ^ 31\<close>, so that the casts to \<open>int\<close> are exact. \<open>None\<close> is
  \<open>std::terminate\<close>.
\<close>

section \<open>State\<close>

record HomePageState =
  add_friend_user_id :: string
  add_friend_verify_msg :: string
  add_friend_hint :: string
  handle_req_id :: string
  handle_sender_id :: string
  handle_hint :: string
  friend_names :: "string list"
  selected_friend_index :: int
  current_chat_friend_id :: u64
  current_chat_friend_name :: string
  friend_list :: "User list"
  current_panel :: int

definition HomePageState_new :: HomePageState where
  "HomePageState_new = \<lparr>add_friend_user_id = [], add_friend_verify_msg = [], add_friend_hint = [], handle_req_id = [],
     handle_sender_id = [], handle_hint = [], friend_names = [], selected_friend_index = 0, current_chat_friend_id = 0,
     current_chat_friend_name = [], friend_list = [], current_panel = 0\<rparr>"

record ChatState =
  ch_selected :: int
  dummy_entries :: "string list"
  draft :: bytes

definition ChatState_new :: ChatState where
  "ChatState_new = \<lparr>ch_selected = 0, dummy_entries = [], draft = []\<rparr>"

datatype Page = AUTH | REGISTER | LOGIN | MAIN

fun page_index :: "Page \<Rightarrow> int" where
  "page_index AUTH = 0"
| "page_index REGISTER = 1"
| "page_index LOGIN = 2"
| "page_index MAIN = 3"

datatype RightPanel = NONE | ADD_FRIEND | HANDLE_FRIEND | CHAT

fun panel_index :: "RightPanel \<Rightarrow> int" where
  "panel_index NONE = 0"
| "panel_index ADD_FRIEND = 1"
| "panel_index HANDLE_FRIEND = 2"
| "panel_index CHAT = 3"

declare page_index.simps [simp del] panel_index.simps [simp del]

record IMClient =
  current_page :: int
  reg_username :: string
  reg_password :: string
  login_username :: string
  login_password :: string
  home :: HomePageState
  error_msg :: string
  show_error :: bool
  chat :: ChatState
  manager :: client
  exited :: bool

section \<open>Home page\<close>

type_synonym home_handler = "HomePageState \<times> client \<Rightarrow> HomePageState \<times> client"

text \<open>The friends, and their names for the menu.\<close>

definition set_friends :: "User list \<Rightarrow> HomePageState \<Rightarrow> HomePageState" where
  "set_friends users h = h\<lparr>friend_list := users, friend_names := map usr_username users\<rparr>"

definition refresh_friends :: "net \<Rightarrow> home_handler" where
  "refresh_friends n = (\<lambda>(h, cl).
     case Client_GetFriendList n cl of
       (Inl err, cl1, _) \<Rightarrow> (h, cl1)
     | (Inr users, cl1, _) \<Rightarrow>
         let h1 = set_friends users h in
         (if selected_friend_index h1 \<ge> int (length (friend_names h1)) then h1\<lparr>selected_friend_index := 0\<rparr> else h1, cl1))"

definition btn_add_friend :: "HomePageState \<Rightarrow> HomePageState" where
  "btn_add_friend h = h\<lparr>add_friend_hint := [], current_panel := panel_index ADD_FRIEND\<rparr>"

definition btn_handle_friend :: "HomePageState \<Rightarrow> HomePageState" where
  "btn_handle_friend h = h\<lparr>handle_hint := [], current_panel := panel_index HANDLE_FRIEND\<rparr>"

definition switch_to_chat :: "HomePageState \<Rightarrow> HomePageState" where
  "switch_to_chat h =
     (if selected_friend_index h \<ge> 0 \<and> selected_friend_index h < int (length (friend_list h))
      then let user = friend_list h ! nat (selected_friend_index h) in
        h\<lparr>current_chat_friend_id := usr_user_id user, current_chat_friend_name := usr_username user,
          current_panel := panel_index CHAT\<rparr>
      else h)"

text \<open>The closures given to the panel for adding a friend; an exception of \<open>stoull\<close> is caught.\<close>

definition on_add_friend :: "net \<Rightarrow> home_handler" where
  "on_add_friend n = (\<lambda>(h, cl).
     case stoull (add_friend_user_id h) of
       Inl _ \<Rightarrow> (h\<lparr>add_friend_hint := ''Invalid User ID format.''\<rparr>, cl)
     | Inr receiver \<Rightarrow>
         (case Client_AddFriend n receiver (add_friend_verify_msg h) cl of
            (Inl err, cl1, _) \<Rightarrow> (h\<lparr>add_friend_hint := err\<rparr>, cl1)
          | (Inr _, cl1, _) \<Rightarrow> (h\<lparr>current_panel := panel_index NONE, add_friend_hint := ''Request sent.''\<rparr>, cl1)))"

definition on_cancel :: "HomePageState \<Rightarrow> HomePageState" where
  "on_cancel h = h\<lparr>current_panel := panel_index NONE\<rparr>"

text \<open>Its buttons.\<close>

definition btn_send_request :: "net \<Rightarrow> home_handler" where
  "btn_send_request n = (\<lambda>(h, cl).
     if add_friend_user_id h = [] then (h\<lparr>add_friend_hint := ''User ID cannot be empty.''\<rparr>, cl)
     else on_add_friend n (h\<lparr>add_friend_hint := ''Request prepared. Please connect to backend.''\<rparr>, cl))"

definition btn_cancel_request :: "HomePageState \<Rightarrow> HomePageState" where
  "btn_cancel_request h =
     on_cancel (h\<lparr>add_friend_user_id := [], add_friend_verify_msg := [], add_friend_hint := []\<rparr>)"

text \<open>The closures given to the panel for friend requests, and its buttons.\<close>

definition on_accept :: "net \<Rightarrow> net \<Rightarrow> u64 \<Rightarrow> u64 \<Rightarrow> home_handler" where
  "on_accept n1 n2 req_id sender = (\<lambda>(h, cl).
     case HandleFriendRequest n1 req_id sender ACTION_ACCEPT cl of
       (Inl err, cl1, _) \<Rightarrow> (h\<lparr>handle_hint := err\<rparr>, cl1)
     | (Inr _, cl1, _) \<Rightarrow>
         refresh_friends n2 (h\<lparr>handle_hint := ''Request accepted successfully.''\<rparr>, RemovePendingRequest req_id cl1))"

definition on_reject :: "net \<Rightarrow> u64 \<Rightarrow> u64 \<Rightarrow> home_handler" where
  "on_reject n req_id sender = (\<lambda>(h, cl).
     case HandleFriendRequest n req_id sender ACTION_REJECT cl of
       (Inl err, cl1, _) \<Rightarrow> (h\<lparr>handle_hint := err\<rparr>, cl1)
     | (Inr _, cl1, _) \<Rightarrow>
         (h\<lparr>handle_hint := ''Request rejected successfully.''\<rparr>, RemovePendingRequest req_id cl1))"

definition btn_accept_request :: "net \<Rightarrow> net \<Rightarrow> home_handler" where
  "btn_accept_request n1 n2 = (\<lambda>(h, cl).
     case GetPendingFriendRequests cl of
       [] \<Rightarrow> (h\<lparr>handle_hint := ''No pending requests.''\<rparr>, cl)
     | req # _ \<Rightarrow>
         on_accept n1 n2 (fp_req_id req) (fp_sender_id req) (h\<lparr>handle_hint := ''Processing accept...''\<rparr>, cl))"

definition btn_reject_request :: "net \<Rightarrow> home_handler" where
  "btn_reject_request n = (\<lambda>(h, cl).
     case GetPendingFriendRequests cl of
       [] \<Rightarrow> (h\<lparr>handle_hint := ''No pending requests.''\<rparr>, cl)
     | req # _ \<Rightarrow>
         on_reject n (fp_req_id req) (fp_sender_id req) (h\<lparr>handle_hint := ''Processing reject...''\<rparr>, cl))"

section \<open>Views\<close>

text \<open>The elements of FTXUI that the views are made of. \<open>Widget\<close> is what a button or a menu
  renders itself, \<open>InputBox\<close> an input with its content, its placeholder and whether it hides
  what is typed; \<open>Sized\<close> is \<open>size\<close> with its direction, constraint and value.\<close>

datatype Element =
    Text string
  | Filler
  | Separator
  | Widget string
  | InputBox string string bool
  | HBox "Element list"
  | VBox "Element list"
  | Border Element
  | Center Element
  | HCenter Element
  | Flex Element
  | Bold Element
  | Dim Element
  | Inverted Element
  | ColorGreen Element
  | ColorYellow Element
  | ColorRed Element
  | YFrame Element
  | VScroll Element
  | Sized string string int Element
  | Window Element Element
  | ClearUnder Element
  | DBox "Element list"

definition request_info :: "FriendReqPush list \<Rightarrow> Element" where
  "request_info requests =
     (case requests of
        [] \<Rightarrow> VBox [Center (Text ''No pending friend requests.'')]
      | req # _ \<Rightarrow> VBox
          [Text (''From: '' @ fp_sender_name req @ '' (ID: '' @ to_string (unat (fp_sender_id req)) @ '')''),
           Text (''Msg: '' @ fp_verify_msg req),
           Separator,
           Dim (Text (''Total Pending: '' @ to_string (length requests)))])"

definition handle_friend_view :: "HomePageState \<Rightarrow> client \<Rightarrow> Element" where
  "handle_friend_view h cl = Flex (Border (VBox
     [Bold (Text ''Handle Friend Request''),
      Separator,
      Flex (request_info (GetPendingFriendRequests cl)),
      Separator,
      HBox [Flex (Widget ''Accept''), Flex (Widget ''Reject'')],
      Separator,
      HCenter (ColorYellow (Text (handle_hint h)))]))"

definition add_friend_view :: "HomePageState \<Rightarrow> Element" where
  "add_friend_view h = Flex (Border (VBox
     [Bold (Text ''Add Friend''),
      Separator,
      Flex (HBox [Text ''User ID: '', InputBox (add_friend_user_id h) ''User ID'' False]),
      Flex (HBox [Text ''Verify: '', InputBox (add_friend_verify_msg h) ''Verification'' False]),
      Separator,
      HBox [Flex (Widget ''Send''), Flex (Widget ''Cancel'')],
      Separator,
      HCenter (ColorYellow (Text (add_friend_hint h)))]))"

text \<open>One line of the chat; \<open>entry\<close> is its index and whether it has the focus.\<close>

definition chat_transform :: "u64 \<Rightarrow> int \<times> bool \<Rightarrow> client \<Rightarrow> Element \<times> client" where
  "chat_transform friend_id = (\<lambda>(index, focused) cl.
     let (hist, cl1) = GetP2PHistory friend_id cl in
     if index \<ge> int (length hist) then (Text [], cl1)
     else let msg = hist ! nat index;
              is_self = (sender_id msg = GetUserId cl1);
              msg_box = Border (Text (content msg));
              e = (if is_self then ColorGreen (HBox [Filler, msg_box]) else HBox [msg_box, Filler])
          in (if focused then Inverted e else e, cl1))"

text \<open>The lines that the menu of the chat panel draws, one per entry.\<close>

definition chat_lines :: "u64 \<Rightarrow> (nat \<Rightarrow> bool) \<Rightarrow> ChatState \<Rightarrow> client \<Rightarrow> Element list" where
  "chat_lines friend_id focused ch cl =
     map (\<lambda>i. fst (chat_transform friend_id (int i, focused i) cl)) [0..<length (dummy_entries ch)]"

definition chat_view :: "u64 \<Rightarrow> string \<Rightarrow> (nat \<Rightarrow> bool) \<Rightarrow> ChatState \<Rightarrow> client \<Rightarrow> Element" where
  "chat_view friend_id friend_name focused ch cl = Flex (Border (VBox
     [Center (Bold (Text (''Chat with '' @ friend_name))),
      Separator,
      Flex (YFrame (VScroll (VBox (chat_lines friend_id focused ch cl)))),
      Separator,
      HBox [Flex (InputBox (draft ch) ''Type a message...'' False), Widget ''Send'']]))"

section \<open>Chat panel\<close>

definition vector_resize :: "nat \<Rightarrow> string list \<Rightarrow> string list" where
  "vector_resize n xs = take n xs @ replicate (n - length xs) []"

text \<open>What the renderer does to the state before it draws.\<close>

definition chat_renderer :: "u64 \<Rightarrow> ChatState \<times> client \<Rightarrow> ChatState \<times> client" where
  "chat_renderer friend_id = (\<lambda>(ch, cl).
     if friend_id \<noteq> 0
     then let (hist, cl1) = GetP2PHistory friend_id cl in
       (if length (dummy_entries ch) \<noteq> length hist
        then let old_size = length (dummy_entries ch);
                 ch1 = ch\<lparr>dummy_entries := vector_resize (length hist) (dummy_entries ch)\<rparr>
             in if ch_selected ch1 = int old_size - 1 \<or> old_size = 0
                then ch1\<lparr>ch_selected := int (length hist) - 1\<rparr> else ch1
        else ch, cl1)
     else (ch\<lparr>dummy_entries := [], ch_selected := 0\<rparr>, cl))"

text \<open>The closure that sends; its result is ignored.\<close>

definition on_send :: "net \<Rightarrow> bytes \<Rightarrow> HomePageState \<Rightarrow> client \<Rightarrow> client" where
  "on_send n msg h cl = fst (snd (SendP2PMessage n (current_chat_friend_id h) msg cl))"

definition btn_send :: "net \<Rightarrow> IMClient \<Rightarrow> IMClient" where
  "btn_send n ui =
     (if draft (chat ui) = [] then ui
      else ui\<lparr>manager := on_send n (draft (chat ui)) (home ui) (manager ui), chat := (chat ui)\<lparr>draft := []\<rparr>\<rparr>)"

section \<open>Application\<close>

definition on_home :: "home_handler \<Rightarrow> IMClient \<Rightarrow> IMClient" where
  "on_home f ui = (let (h, cl) = f (home ui, manager ui) in ui\<lparr>home := h, manager := cl\<rparr>)"

definition go :: "Page \<Rightarrow> IMClient \<Rightarrow> IMClient" where
  "go page ui = ui\<lparr>current_page := page_index page\<rparr>"

definition show_message :: "string \<Rightarrow> IMClient \<Rightarrow> IMClient" where
  "show_message msg ui = ui\<lparr>error_msg := msg, show_error := True\<rparr>"

type_synonym dial = "int \<times> int \<times> int"

text \<open>A submission first connects, with these results of the system calls.\<close>

definition connected_then :: "dial \<Rightarrow> (IMClient \<Rightarrow> IMClient) \<Rightarrow> IMClient \<Rightarrow> IMClient option" where
  "connected_then = (\<lambda>(sock, pton, conn) k ui.
     case Connect sock pton conn (manager ui) of
       None \<Rightarrow> None
     | Some (ok, cl1) \<Rightarrow>
         let ui1 = ui\<lparr>manager := cl1\<rparr> in
         Some (if \<not> ok then show_message ''Connection failed: Could not connect to server.'' ui1 else k ui1))"

definition on_reg_submit :: "dial \<Rightarrow> net \<Rightarrow> IMClient \<Rightarrow> IMClient option" where
  "on_reg_submit d n = connected_then d (\<lambda>ui.
     case Register n (reg_username ui) (reg_password ui) (manager ui) of
       (Inr _, cl1, _) \<Rightarrow>
         go LOGIN (ui\<lparr>manager := cl1, login_username := reg_username ui, login_password := reg_password ui\<rparr>)
     | (Inl err, cl1, _) \<Rightarrow> show_message err (ui\<lparr>manager := cl1\<rparr>))"

text \<open>The friend list as the login and the status callback load it: the selection stays.\<close>

definition load_friends :: "net \<Rightarrow> home_handler" where
  "load_friends n = (\<lambda>(h, cl).
     case Client_GetFriendList n cl of
       (Inl err, cl1, _) \<Rightarrow> (h, cl1)
     | (Inr users, cl1, _) \<Rightarrow> (set_friends users h, cl1))"

definition on_login_submit :: "dial \<Rightarrow> net \<Rightarrow> net \<Rightarrow> net \<Rightarrow> IMClient \<Rightarrow> IMClient option" where
  "on_login_submit d n1 n2 n3 = connected_then d (\<lambda>ui.
     case Login n1 (login_username ui) (login_password ui) (manager ui) of
       (Inr _, cl1, _) \<Rightarrow>
         let cl2 = fst (snd (SyncMessages n2 cl1)) in go MAIN (on_home (load_friends n3) (ui\<lparr>manager := cl2\<rparr>))
     | (Inl err, cl1, _) \<Rightarrow> show_message err (ui\<lparr>manager := cl1\<rparr>))"

definition on_logout :: "(bytes \<Rightarrow> Envelope option) \<Rightarrow> bytes list \<Rightarrow> IMClient \<Rightarrow> IMClient" where
  "on_logout parse late ui = go AUTH (ui\<lparr>manager := snd (Logout parse late (manager ui)), home := HomePageState_new\<rparr>)"

text \<open>The tasks that the callbacks post: an error message, a reload of the friends, or only an
  event that causes a new drawing.\<close>

definition run_notice :: "net \<Rightarrow> notice \<Rightarrow> IMClient \<Rightarrow> IMClient" where
  "run_notice n x ui =
     (case x of
        ErrorNotice msg \<Rightarrow> show_message msg ui
      | FriendRequestNotice _ \<Rightarrow> ui
      | FriendStatusNotice _ \<Rightarrow> on_home (load_friends n) ui
      | MessageNotice _ \<Rightarrow> ui)"

definition run_task :: "net \<Rightarrow> IMClient \<Rightarrow> IMClient" where
  "run_task n ui =
     (case cl_notices (manager ui) of
        [] \<Rightarrow> ui
      | x # xs \<Rightarrow> run_notice n x (ui\<lparr>manager := (manager ui)\<lparr>cl_notices := xs\<rparr>\<rparr>))"

text \<open>The constructor: \<open>BuildHomePage\<close> asks for the friends, then the callbacks are set.\<close>

definition InitUI :: "net \<Rightarrow> client \<Rightarrow> IMClient" where
  "InitUI n cl =
     (let (h, cl1) = refresh_friends n (HomePageState_new, cl) in
      \<lparr>current_page = page_index AUTH, reg_username = [], reg_password = [], login_username = [], login_password = [],
       home = h, error_msg = [], show_error = False, chat = ChatState_new,
       manager = SetOnMessageCallback (SetOnFriendStatusCallback (SetOnFriendRequestCallback (SetOnErrorCallback cl1))),
       exited = False\<rparr>)"

text \<open>What can happen next: the user acts on a widget, the listener receives, a task is run, or
  the chat panel is drawn.\<close>

datatype ui_event =
    ClickRegister | ClickLogin | ClickQuit
  | EditRegister string string | SubmitRegister dial net | RegisterBack
  | EditLogin string string | SubmitLogin dial net net net | LoginBack
  | ClickLogout "bytes \<Rightarrow> Envelope option" "bytes list" | ClickAddFriend | ClickHandleFriend | SelectFriend int
  | EditAddFriend string string | ClickSendRequest net | ClickCancelRequest
  | ClickAccept net net | ClickReject net
  | EditDraft bytes | SelectLine int | ClickSend net
  | CloseError | Receive "bytes \<Rightarrow> Envelope option" "bytes list" | RunTask net | Draw

definition edit_home :: "(HomePageState \<Rightarrow> HomePageState) \<Rightarrow> IMClient \<Rightarrow> IMClient" where
  "edit_home f ui = ui\<lparr>home := f (home ui)\<rparr>"

fun ui_step :: "ui_event \<Rightarrow> IMClient \<Rightarrow> IMClient option" where
  "ui_step ClickRegister ui = Some (go REGISTER ui)"
| "ui_step ClickLogin ui = Some (go LOGIN ui)"
| "ui_step ClickQuit ui = Some (ui\<lparr>exited := True\<rparr>)"
| "ui_step (EditRegister u p) ui = Some (ui\<lparr>reg_username := u, reg_password := p\<rparr>)"
| "ui_step (SubmitRegister d n) ui = on_reg_submit d n ui"
| "ui_step RegisterBack ui = Some (go AUTH ui)"
| "ui_step (EditLogin u p) ui = Some (ui\<lparr>login_username := u, login_password := p\<rparr>)"
| "ui_step (SubmitLogin d n1 n2 n3) ui = on_login_submit d n1 n2 n3 ui"
| "ui_step LoginBack ui = Some (go AUTH ui)"
| "ui_step (ClickLogout parse late) ui = Some (on_logout parse late ui)"
| "ui_step ClickAddFriend ui = Some (edit_home btn_add_friend ui)"
| "ui_step ClickHandleFriend ui = Some (edit_home btn_handle_friend ui)"
| "ui_step (SelectFriend i) ui = Some (edit_home (\<lambda>h. switch_to_chat (h\<lparr>selected_friend_index := i\<rparr>)) ui)"
| "ui_step (EditAddFriend u v) ui =
     Some (edit_home (\<lambda>h. h\<lparr>add_friend_user_id := u, add_friend_verify_msg := v\<rparr>) ui)"
| "ui_step (ClickSendRequest n) ui = Some (on_home (btn_send_request n) ui)"
| "ui_step ClickCancelRequest ui = Some (edit_home btn_cancel_request ui)"
| "ui_step (ClickAccept n1 n2) ui = Some (on_home (btn_accept_request n1 n2) ui)"
| "ui_step (ClickReject n) ui = Some (on_home (btn_reject_request n) ui)"
| "ui_step (EditDraft d) ui = Some (ui\<lparr>chat := (chat ui)\<lparr>draft := d\<rparr>\<rparr>)"
| "ui_step (SelectLine i) ui = Some (ui\<lparr>chat := (chat ui)\<lparr>ch_selected := i\<rparr>\<rparr>)"
| "ui_step (ClickSend n) ui = Some (btn_send n ui)"
| "ui_step CloseError ui = Some (ui\<lparr>show_error := False\<rparr>)"
| "ui_step (Receive parse segs) ui = Some (ui\<lparr>manager := fst (ListenerLoop parse (manager ui) segs)\<rparr>)"
| "ui_step (RunTask n) ui = Some (run_task n ui)"
| "ui_step Draw ui =
     (let (ch, cl) = chat_renderer (current_chat_friend_id (home ui)) (chat ui, manager ui)
      in Some (ui\<lparr>chat := ch, manager := cl\<rparr>))"

section \<open>What a request leaves alone\<close>

text \<open>
  While a request waits, the listener can only add: friend requests, messages and notices. It
  changes nothing of the session, and the connection at most ends.
\<close>

definition same_session :: "client \<Rightarrow> client \<Rightarrow> bool" where
  "same_session cl cl' \<longleftrightarrow> cl_sock cl' = cl_sock cl \<and> cl_token cl' = cl_token cl \<and> cl_user_id cl' = cl_user_id cl \<and>
     cl_username cl' = cl_username cl \<and> cl_listener cl' = cl_listener cl \<and> cl_heartbeat cl' = cl_heartbeat cl \<and>
     cl_on_error cl' = cl_on_error cl \<and> cl_on_friend_request cl' = cl_on_friend_request cl \<and>
     cl_on_friend_status cl' = cl_on_friend_status cl \<and> cl_on_message cl' = cl_on_message cl"

definition grows :: "client \<Rightarrow> client \<Rightarrow> bool" where
  "grows cl cl' \<longleftrightarrow> same_session cl cl' \<and> prefix (cl_pending cl) (cl_pending cl') \<and>
     (\<forall>k. prefix (history cl k) (history cl' k)) \<and> prefix (cl_notices cl) (cl_notices cl') \<and>
     (cl_running cl' = cl_running cl \<and> cl_connected cl' = cl_connected cl \<or> \<not> cl_running cl' \<and> \<not> cl_connected cl')"

lemma grows_refl [simp, intro]: "grows cl cl"
  by (simp add: grows_def same_session_def)

lemma grows_trans:
  assumes "grows a b" and "grows b c"
  shows "grows a c"
proof -
  have "same_session a c" using assms by (simp add: grows_def same_session_def)
  moreover have "prefix (cl_pending a) (cl_pending c)" "prefix (cl_notices a) (cl_notices c)"
    "prefix (history a k) (history c k)" for k
    using assms unfolding grows_def by (blast intro: prefix_order.trans)+
  moreover have "cl_running c = cl_running a \<and> cl_connected c = cl_connected a \<or> \<not> cl_running c \<and> \<not> cl_connected c"
    using assms unfolding grows_def by linarith
  ultimately show ?thesis by (simp add: grows_def)
qed

lemma grows_response [simp]: "grows cl (cl\<lparr>cl_has_response := b\<rparr>)" "grows cl (cl\<lparr>cl_response := e, cl_has_response := b\<rparr>)"
  by (simp_all add: grows_def same_session_def)

lemma grows_notify [intro]: "grows cl cl1 \<Longrightarrow> grows cl (notify b x cl1)"
  by (auto simp: grows_def same_session_def notify_def)

lemma history_of_push: "prefix (history cl j) (history (history_push k m cl) j)"
  by (simp only: history_push_simps) simp

lemma history_push_other [simp]:
  "cl_pending (history_push k m cl) = cl_pending cl" "cl_notices (history_push k m cl) = cl_notices cl"
  "cl_running (history_push k m cl) = cl_running cl" "cl_connected (history_push k m cl) = cl_connected cl"
  "same_session cl (history_push k m cl)"
  by (simp_all add: history_push_def same_session_def)

lemma grows_history_push: "grows cl (history_push k m cl)"
  using history_of_push [of cl _ k m] by (simp add: grows_def)

lemma grows_pending: "grows cl (cl\<lparr>cl_pending := cl_pending cl @ [r]\<rparr>)"
  by (simp add: grows_def same_session_def)

lemma grows_handle_packet: "grows cl (handle_packet env cl)"
  unfolding handle_packet_def Let_def
  using grows_history_push [of cl] grows_pending [of cl] by (auto intro: grows_notify)

lemma grows_connection_lost: "grows cl (connection_lost err cl)"
  by (auto simp: connection_lost_def notify_def grows_def same_session_def)

lemma grows_listen_pass:
  "listen_pass parse cl segs = Next cl1 r \<Longrightarrow> grows cl cl1" "listen_pass parse cl segs = Stop cl1 \<Longrightarrow> grows cl cl1"
  by (auto simp: listen_pass_def Let_def grows_handle_packet grows_connection_lost
      split: received.splits if_splits option.splits)

lemma grows_ListenerLoop: "grows cl (fst (ListenerLoop parse cl segs))"
proof (induction parse cl segs rule: ListenerLoop.induct)
  case (1 parse cl segs)
  then show ?case
    using grows_listen_pass [of parse cl segs]
    by (subst ListenerLoop.simps) (auto split: pass.split intro: grows_trans)
qed

lemma grows_SendRequestAndWait:
  "SendRequestAndWait ser parse sent inc env expected cl = (r, cl1, rest, packet) \<Longrightarrow> grows cl cl1"
  using grows_ListenerLoop [of "cl\<lparr>cl_has_response := False\<rparr>" parse inc]
  by (auto simp: SendRequestAndWait_def Let_def split: prod.splits if_splits
      intro: grows_trans [OF grows_response(1)])

lemma perform_request_grows:
  assumes "perform_request n env expected k cl = (r, cl', rest, packet)"
    and "\<And>e c r c'. k e c = (r, c') \<Longrightarrow> grows c c'"
  shows "grows cl cl'"
  using assms(1)
  by (auto simp: perform_request_def Let_def split: prod.splits option.splits
      dest!: grows_SendRequestAndWait assms(2) intro: grows_trans)

lemma query_grows:
  "Client_AddFriend n u v cl = (ru, cl', rest, packet) \<Longrightarrow> grows cl cl'"
  "HandleFriendRequest n q s a cl = (rh, cl', rest, packet) \<Longrightarrow> grows cl cl'"
  "Client_GetFriendList n cl = (rf, cl', rest, packet) \<Longrightarrow> grows cl cl'"
  unfolding Client_AddFriend_def HandleFriendRequest_def Client_GetFriendList_def
  by (erule perform_request_grows; auto simp: Let_def split: if_splits)+

lemma SendP2PMessage_grows: "SendP2PMessage n u v cl = (r, cl', rest, packet) \<Longrightarrow> grows cl cl'"
  unfolding SendP2PMessage_def Let_def
  by (erule perform_request_grows) (auto simp: Let_def grows_history_push split: if_splits)

section \<open>The shape of the state\<close>

text \<open>A sequence of events; \<open>None\<close> when the program ended in one of them.\<close>

fun run_events :: "('e \<Rightarrow> 's \<Rightarrow> 's option) \<Rightarrow> 'e list \<Rightarrow> 's \<Rightarrow> 's option" where
  "run_events step [] s = Some s"
| "run_events step (e # es) s = do { s1 \<leftarrow> step e s; run_events step es s1 }"

text \<open>The contract of an event loop: every handler keeps the state well formed, and fails only
  where the program ends.\<close>

locale event_loop =
  fixes step :: "'e \<Rightarrow> 's \<Rightarrow> 's option"
    and ok :: "'s \<Rightarrow> bool"
    and ends :: "'e \<Rightarrow> 's \<Rightarrow> bool"
  assumes step_ok: "ok s \<Longrightarrow> step e s = Some s' \<Longrightarrow> ok s'"
    and step_ends: "ok s \<Longrightarrow> step e s = None \<longleftrightarrow> ends e s"
begin

lemma run_ok: "run_events step es s = Some s' \<Longrightarrow> ok s \<Longrightarrow> ok s'"
  by (induction es arbitrary: s) (auto dest: step_ok)

lemma run_progress: "run_events step es s = Some s' \<Longrightarrow> ok s \<Longrightarrow> step e s' = None \<longleftrightarrow> ends e s'"
  using run_ok step_ends by blast

end

definition link_ok :: "client \<Rightarrow> bool" where
  "link_ok cl \<longleftrightarrow> (cl_connected cl \<longrightarrow> cl_listener cl) \<and> cl_running cl = cl_connected cl \<and>
     cl_heartbeat cl = cl_listener cl \<and> cl_on_error cl \<and> cl_on_friend_request cl \<and> cl_on_friend_status cl \<and> cl_on_message cl"

definition home_ok :: "HomePageState \<Rightarrow> bool" where
  "home_ok h \<longleftrightarrow> current_panel h \<in> range panel_index \<and> friend_names h = map usr_username (friend_list h)"

definition ui_ok :: "IMClient \<Rightarrow> bool" where
  "ui_ok ui \<longleftrightarrow> current_page ui \<in> range page_index \<and> home_ok (home ui) \<and> link_ok (manager ui)"

definition dial_ok :: "dial \<Rightarrow> bool" where
  "dial_ok = (\<lambda>(sock, pton, conn). sock \<ge> 0 \<and> pton > 0 \<and> conn \<ge> 0)"

definition reconnects :: "ui_event \<Rightarrow> IMClient \<Rightarrow> bool" where
  "reconnects ev ui \<longleftrightarrow> (case ev of SubmitRegister d _ \<Rightarrow> dial_ok d | SubmitLogin d _ _ _ \<Rightarrow> dial_ok d | _ \<Rightarrow> False) \<and>
     \<not> cl_connected (manager ui) \<and> cl_listener (manager ui)"

lemma link_ok_grows: "grows cl cl' \<Longrightarrow> link_ok cl \<Longrightarrow> link_ok cl'"
  by (auto simp: grows_def same_session_def link_ok_def)

lemma perform_request_link:
  assumes "perform_request n env expected k cl = (r, cl', rest, packet)" and "link_ok cl"
    and "\<And>e c r c'. k e c = (r, c') \<Longrightarrow> link_ok c \<Longrightarrow> link_ok c'"
  shows "link_ok cl'"
  using assms(1,2)
  by (auto simp: perform_request_def Let_def split: prod.splits option.splits
      dest!: grows_SendRequestAndWait assms(3) intro: link_ok_grows)

lemma link_ok_update [simp]:
  "link_ok (cl\<lparr>cl_history := h\<rparr>) = link_ok cl" "link_ok (cl\<lparr>cl_token := t\<rparr>) = link_ok cl"
  "link_ok (cl\<lparr>cl_user_id := u\<rparr>) = link_ok cl" "link_ok (cl\<lparr>cl_token := t, cl_user_id := u, cl_username := x\<rparr>) = link_ok cl"
  "link_ok (cl\<lparr>cl_notices := ns\<rparr>) = link_ok cl"
  by (simp_all add: link_ok_def)

lemma sync_loop_link [simp]: "link_ok (sync_loop ms i cl) = link_ok cl"
  by (induction ms i cl rule: sync_loop.induct) (simp_all add: Let_def history_push_def link_ok_def)

lemma auth_link:
  "Register n u p cl = (rr, cl', rest, packet) \<Longrightarrow> link_ok cl \<Longrightarrow> link_ok cl'"
  "Login n u p cl = (rl, cl', rest, packet) \<Longrightarrow> link_ok cl \<Longrightarrow> link_ok cl'"
  "SyncMessages n cl = (rs, cl', rest, packet) \<Longrightarrow> link_ok cl \<Longrightarrow> link_ok cl'"
  unfolding Register_def Login_def SyncMessages_def
  by (erule perform_request_link; auto simp: Let_def split: if_splits option.splits)+

lemma Connect_link: "Connect s p c cl = Some (b, cl') \<Longrightarrow> link_ok cl \<Longrightarrow> link_ok cl'"
  by (auto simp: Connect_def Let_def link_ok_def split: if_splits)

lemma Connect_ends:
  "link_ok cl \<Longrightarrow> Connect s p c cl = None \<longleftrightarrow> dial_ok (s, p, c) \<and> \<not> cl_connected cl \<and> cl_listener cl"
  by (auto simp: Connect_def Let_def link_ok_def dial_ok_def)

lemma panel_in_range [simp]:
  "panel_index p \<in> range panel_index" "page_index q \<in> range page_index"
  by auto

lemma home_ok_edit [simp]:
  "home_ok (set_friends us h) = (current_panel h \<in> range panel_index)"
  "home_ok h \<Longrightarrow> home_ok (btn_add_friend h)" "home_ok h \<Longrightarrow> home_ok (btn_handle_friend h)"
  "home_ok h \<Longrightarrow> home_ok (switch_to_chat h)" "home_ok h \<Longrightarrow> home_ok (btn_cancel_request h)"
  "home_ok (h\<lparr>selected_friend_index := i\<rparr>) = home_ok h" "home_ok (h\<lparr>add_friend_hint := x\<rparr>) = home_ok h"
  "home_ok (h\<lparr>handle_hint := x\<rparr>) = home_ok h" "home_ok (h\<lparr>add_friend_user_id := u, add_friend_verify_msg := v\<rparr>) = home_ok h"
  "home_ok HomePageState_new"
  by (auto simp: home_ok_def set_friends_def btn_add_friend_def btn_handle_friend_def switch_to_chat_def Let_def
      btn_cancel_request_def on_cancel_def HomePageState_new_def panel_index.simps(1) [symmetric])

lemma grows_manager: "grows cl cl' \<Longrightarrow> link_ok cl \<Longrightarrow> home_ok h \<Longrightarrow> home_ok h \<and> link_ok cl'"
  using link_ok_grows by blast

text \<open>A handler of the home page keeps both halves of its state.\<close>

definition keeps_home :: "home_handler \<Rightarrow> bool" where
  "keeps_home f \<longleftrightarrow> (\<forall>h cl. home_ok h \<and> link_ok cl \<longrightarrow> home_ok (fst (f (h, cl))) \<and> link_ok (snd (f (h, cl))))"

lemma keeps_load: "keeps_home (load_friends n)" "keeps_home (refresh_friends n)"
  unfolding keeps_home_def load_friends_def refresh_friends_def
  by (auto simp: Let_def split: sum.split prod.split dest: query_grows(3) intro: link_ok_grows)
    (auto simp: home_ok_def)

lemma RemovePending_link [simp]: "link_ok (RemovePendingRequest q cl) = link_ok cl"
  by (simp add: RemovePendingRequest_def link_ok_def)

lemma keeps_on_add_friend: "keeps_home (on_add_friend n)"
  unfolding keeps_home_def on_add_friend_def
  by (auto split: sum.split prod.split dest: query_grows(1) intro: link_ok_grows) (auto simp: home_ok_def)

lemma keeps_on_accept: "keeps_home (on_accept n1 n2 q s)"
proof -
  have "home_ok (fst (on_accept n1 n2 q s (h, cl))) \<and> link_ok (snd (on_accept n1 n2 q s (h, cl)))"
    if "home_ok h" "link_ok cl" for h cl
  proof -
    obtain r cl1 rest where r: "HandleFriendRequest n1 q s ACTION_ACCEPT cl = (r, cl1, rest)" by (metis prod.exhaust)
    with that(2) have "link_ok cl1" by (metis query_grows(2) link_ok_grows prod.exhaust)
    with r that(1) keeps_load(2) [of n2] show ?thesis by (auto simp: on_accept_def keeps_home_def split: sum.split)
  qed
  then show ?thesis by (simp add: keeps_home_def)
qed

lemma keeps_on_reject: "keeps_home (on_reject n q s)"
  unfolding keeps_home_def on_reject_def
  by (auto split: sum.split prod.split dest: query_grows(2) intro: link_ok_grows)

lemma keeps_buttons:
  "keeps_home (btn_send_request n)" "keeps_home (btn_accept_request n1 n2)" "keeps_home (btn_reject_request n)"
  using keeps_on_add_friend [of n] keeps_on_accept [of n1 n2] keeps_on_reject [of n]
  by (auto simp: keeps_home_def btn_send_request_def btn_accept_request_def btn_reject_request_def split: list.split)

lemma ui_ok_on_home [simp]: "keeps_home f \<Longrightarrow> ui_ok ui \<Longrightarrow> ui_ok (on_home f ui)"
  by (auto simp: on_home_def ui_ok_def keeps_home_def Let_def split: prod.split) (metis fst_conv, metis snd_conv)

lemma ui_ok_update [simp]:
  "ui_ok ui \<Longrightarrow> ui_ok (go p ui)" "ui_ok (show_message m ui) = ui_ok ui"
  "ui_ok (ui\<lparr>login_username := a, login_password := b\<rparr>) = ui_ok ui"
  "ui_ok (ui\<lparr>reg_username := a, reg_password := b\<rparr>) = ui_ok ui" "ui_ok (ui\<lparr>show_error := e\<rparr>) = ui_ok ui"
  "ui_ok (ui\<lparr>chat := c\<rparr>) = ui_ok ui" "ui_ok (ui\<lparr>exited := e\<rparr>) = ui_ok ui"
  "ui_ok ui \<Longrightarrow> link_ok cl \<Longrightarrow> ui_ok (ui\<lparr>manager := cl\<rparr>)"
  "ui_ok ui \<Longrightarrow> (home_ok (home ui) \<Longrightarrow> home_ok (f (home ui))) \<Longrightarrow> ui_ok (edit_home f ui)"
  by (simp_all add: ui_ok_def go_def show_message_def edit_home_def)

lemma connected_then_ok:
  assumes "connected_then d k ui = Some ui'" and "ui_ok ui" and "\<And>u. ui_ok u \<Longrightarrow> ui_ok (k u)"
  shows "ui_ok ui'"
proof -
  obtain s p c where d: "d = (s, p, c)" by (metis prod.exhaust)
  obtain b cl1 where c: "Connect s p c (manager ui) = Some (b, cl1)"
    and ui': "ui' = (if \<not> b then show_message ''Connection failed: Could not connect to server.'' (ui\<lparr>manager := cl1\<rparr>)
       else k (ui\<lparr>manager := cl1\<rparr>))"
    using assms(1) by (auto simp: connected_then_def d Let_def split: option.splits)
  have "link_ok cl1" using Connect_link [OF c] assms(2) by (simp add: ui_ok_def)
  with assms(2,3) ui' show ?thesis by simp
qed

lemma connected_then_ends:
  "ui_ok ui \<Longrightarrow> connected_then d k ui = None \<longleftrightarrow> dial_ok d \<and> \<not> cl_connected (manager ui) \<and> cl_listener (manager ui)"
  using Connect_ends [of "manager ui" "fst d" "fst (snd d)" "snd (snd d)"]
  by (cases d) (auto simp: connected_then_def ui_ok_def Let_def split: option.splits)

lemma submit_ok:
  "on_reg_submit d n ui = Some ui' \<Longrightarrow> ui_ok ui \<Longrightarrow> ui_ok ui'"
  "on_login_submit d n n2 n3 ui = Some ui' \<Longrightarrow> ui_ok ui \<Longrightarrow> ui_ok ui'"
proof -
  have reg: "ui_ok (case Register n (reg_username u) (reg_password u) (manager u) of
       (Inr _, cl1, _) \<Rightarrow> go LOGIN (u\<lparr>manager := cl1, login_username := reg_username u, login_password := reg_password u\<rparr>)
     | (Inl err, cl1, _) \<Rightarrow> show_message err (u\<lparr>manager := cl1\<rparr>))" if u: "ui_ok u" for u
  proof -
    have "link_ok (manager u)" using u by (simp add: ui_ok_def)
    then show ?thesis using u by (auto split: prod.split sum.split dest: auth_link(1))
  qed
  show "on_reg_submit d n ui = Some ui' \<Longrightarrow> ui_ok ui \<Longrightarrow> ui_ok ui'"
    unfolding on_reg_submit_def by (rule connected_then_ok [OF _ _ reg])
  have log: "ui_ok (case Login n (login_username u) (login_password u) (manager u) of
       (Inr _, cl1, _) \<Rightarrow>
         let cl2 = fst (snd (SyncMessages n2 cl1)) in go MAIN (on_home (load_friends n3) (u\<lparr>manager := cl2\<rparr>))
     | (Inl err, cl1, _) \<Rightarrow> show_message err (u\<lparr>manager := cl1\<rparr>))" if u: "ui_ok u" for u
  proof -
    have l: "link_ok (manager u)" using u by (simp add: ui_ok_def)
    have "link_ok (fst (snd (SyncMessages n2 cl)))" if "link_ok cl" for cl
      using that by (metis auth_link(3) fst_conv snd_conv prod.exhaust)
    with l u show ?thesis by (auto simp: Let_def keeps_load split: prod.split sum.split dest: auth_link(2))
  qed
  show "on_login_submit d n n2 n3 ui = Some ui' \<Longrightarrow> ui_ok ui \<Longrightarrow> ui_ok ui'"
    unfolding on_login_submit_def by (rule connected_then_ok [OF _ _ log])
qed

lemma logout_link:
  assumes l: "link_ok cl"
  shows "link_ok (snd (Logout parse late cl))"
proof -
  have "link_ok (ClearAuth cl)" using l by (simp add: link_ok_def ClearAuth_def)
  then have "link_ok (fst (ListenerLoop parse (ClearAuth cl) late))" by (rule link_ok_grows [OF grows_ListenerLoop])
  with l show ?thesis by (auto simp: Logout_def Disconnect_def link_ok_def)
qed

lemma logout_ok: "ui_ok ui \<Longrightarrow> ui_ok (on_logout parse late ui)"
  using logout_link [of "manager ui" parse late] by (auto simp: on_logout_def ui_ok_def go_def)

lemma run_task_ok: "ui_ok ui \<Longrightarrow> ui_ok (run_task n ui)"
proof -
  assume ui: "ui_ok ui"
  then have "ui_ok (ui\<lparr>manager := (manager ui)\<lparr>cl_notices := xs\<rparr>\<rparr>)" for xs by (simp add: ui_ok_def)
  with ui show ?thesis by (auto simp: run_task_def run_notice_def keeps_load split: list.split notice.split)
qed

lemma chat_ok:
  "ui_ok ui \<Longrightarrow> ui_ok (btn_send n ui)"
  "ui_ok ui \<Longrightarrow> chat_renderer f (ch, manager ui) = (ch', cl) \<Longrightarrow> ui_ok (ui\<lparr>chat := ch', manager := cl\<rparr>)"
proof -
  assume ui: "ui_ok ui"
  then have "link_ok (manager ui)" by (simp add: ui_ok_def)
  moreover have "grows (manager ui) (on_send n m h (manager ui))" for m h
    unfolding on_send_def by (metis SendP2PMessage_grows fst_conv snd_conv prod.exhaust)
  ultimately have "link_ok (on_send n m h (manager ui))" for m h by (blast intro: link_ok_grows)
  with ui show "ui_ok (btn_send n ui)" by (simp add: btn_send_def ui_ok_def)
  show "chat_renderer f (ch, manager ui) = (ch', cl) \<Longrightarrow> ui_ok (ui\<lparr>chat := ch', manager := cl\<rparr>)"
    using \<open>link_ok (manager ui)\<close> ui
    by (auto simp: chat_renderer_def GetP2PHistory_def Let_def ui_ok_def split: if_splits option.splits)
qed

interpretation im: event_loop ui_step ui_ok reconnects
proof
  fix ui ev ui'
  assume ui: "ui_ok ui" and s: "ui_step ev ui = Some ui'"
  then have l: "link_ok (fst (ListenerLoop parse (manager ui) segs))" for parse segs
    by (auto simp: ui_ok_def intro: link_ok_grows [OF grows_ListenerLoop])
  from ui s l show "ui_ok ui'"
    by (cases ev) (auto simp: submit_ok logout_ok run_task_ok chat_ok keeps_buttons split: prod.splits)
next
  fix ui ev
  assume "ui_ok ui"
  then show "ui_step ev ui = None \<longleftrightarrow> reconnects ev ui"
    by (cases ev) (auto simp: reconnects_def on_reg_submit_def on_login_submit_def connected_then_ends split: prod.split)
qed

lemma InitUI_ok: "ui_ok (InitUI n NetworkManager_new)"
  by (simp add: InitUI_def refresh_friends_def Client_GetFriendList_def perform_request_def SendRequestAndWait_def
      SendEnvelope_def NetworkManager_new_def Let_def ui_ok_def link_ok_def callback_setters)

definition ex_net_down :: net where
  "ex_net_down = \<lparr>n_serialize = \<lambda>_. ''q'', n_parse = \<lambda>_. None, n_clock = \<lambda>_. 7, n_sent = -1, n_incoming = []\<rparr>"

section \<open>Entering an id\<close>

text \<open>
  A user id that is entered as it is printed, after blanks and before anything that is
  not a digit, is read back as that id, and the friend request goes to it: the panel then shows
  either that it was sent or the error of the server. (Text behind the number is not refused,
  although the panel has a message for a wrong format.)
\<close>

lemma id_entry:
  assumes "add_friend_user_id h = b @ to_string (unat u) @ rest" and "list_all is_blank b"
    and "case rest of [] \<Rightarrow> True | c # _ \<Rightarrow> \<not> is_digit c"
  shows "stoull (add_friend_user_id h) = Inr u \<and> btn_send_request n (h, cl) =
    (case Client_AddFriend n u (add_friend_verify_msg h) cl of
       (Inl err, cl1, _) \<Rightarrow> (h\<lparr>add_friend_hint := err\<rparr>, cl1)
     | (Inr _, cl1, _) \<Rightarrow> (h\<lparr>current_panel := panel_index NONE, add_friend_hint := ''Request sent.''\<rparr>, cl1))"
  using stoull_to_string [OF assms(2,3), of u] assms(1)
  by (simp add: btn_send_request_def on_add_friend_def split: prod.split sum.split)

lemma id_entry_witness:
  "stoull '' 12abc'' = Inr 12 \<and>
   fst (btn_send_request ex_net_down (HomePageState_new\<lparr>add_friend_user_id := '' 12abc''\<rparr>, NetworkManager_new)) =
     HomePageState_new\<lparr>add_friend_user_id := '' 12abc'', add_friend_hint := ''Request timeout or network error''\<rparr>"
proof -
  let ?h = "HomePageState_new\<lparr>add_friend_user_id := '' 12abc''\<rparr>"
  have s: "to_string 12 = ''12''" by code_simp
  have "stoull (add_friend_user_id ?h) = Inr 12 \<and> btn_send_request ex_net_down (?h, NetworkManager_new) =
    (case Client_AddFriend ex_net_down 12 (add_friend_verify_msg ?h) NetworkManager_new of
       (Inl err, cl1, _) \<Rightarrow> (?h\<lparr>add_friend_hint := err\<rparr>, cl1)
     | (Inr _, cl1, _) \<Rightarrow> (?h\<lparr>current_panel := panel_index NONE, add_friend_hint := ''Request sent.''\<rparr>, cl1))"
    by (rule id_entry [where b = "'' ''" and rest = "''abc''"]) (simp_all add: s is_blank_def is_digit_def)
  then show ?thesis
    by (simp add: Client_AddFriend_def perform_request_def SendRequestAndWait_def SendEnvelope_def NetworkManager_new_def)
qed

lemma stoull_sign: "stoull ''-1'' = Inr (2 ^ 64 - 1)"
  by (simp add: stoull_def scan_number_def is_blank_def is_digit_def digits_value_def)

section \<open>Logging out\<close>

text \<open>What the packets that the listener handles add.\<close>

definition pushed_messages :: "u64 \<Rightarrow> Envelope list \<Rightarrow> P2PMessage list" where
  "pushed_messages k envs = filter (\<lambda>m. sender_id m = k) (map message_of (filter (\<lambda>env. env_cmd env = CMD_P2P_MSG_PUSH) envs))"

definition pushed_requests :: "Envelope list \<Rightarrow> FriendReqPush list" where
  "pushed_requests envs = map friend_req_of (filter (\<lambda>env. env_cmd env = CMD_FRIEND_REQ_PUSH) envs)"

lemma handle_packet_adds:
  "history (handle_packet env cl) k = history cl k @ pushed_messages k [env]"
  "cl_pending (handle_packet env cl) = cl_pending cl @ pushed_requests [env]"
  by (auto simp: handle_packet_def notify_def history_push_def Let_def pushed_messages_def pushed_requests_def)

lemma handle_packets_add:
  "history (fold handle_packet envs cl) k = history cl k @ pushed_messages k envs"
  "cl_pending (fold handle_packet envs cl) = cl_pending cl @ pushed_requests envs"
  by (induction envs arbitrary: cl) (auto simp: handle_packet_adds, auto simp: pushed_messages_def pushed_requests_def)

text \<open>
  Property C27. Whatever arrives meanwhile, logging out removes the token, the identity and the state of
  the home page, and closes the connection with its threads joined, so that the next login can connect.
  What the user typed into the login page, the password included, and the unsent draft of the chat
  panel stay. The conversations and the friend requests of the session are removed as well, but the
  listener runs on until \<open>Disconnect\<close> has joined it: afterwards there are exactly the messages and
  the requests that it handled in between, none when nothing arrived or the connection was lost before.
\<close>

theorem logout_clears_session:
  assumes "IsLoggedIn (manager ui)" and "ui' = on_logout parse late ui"
  shows "current_page ui' = page_index AUTH \<and> home ui' = HomePageState_new \<and>
    \<not> IsLoggedIn (manager ui') \<and> cl_user_id (manager ui') = 0 \<and> cl_username (manager ui') = [] \<and>
    \<not> cl_connected (manager ui') \<and> Connect sock pton conn (manager ui') \<noteq> None \<and>
    login_password ui' = login_password ui \<and> draft (chat ui') = draft (chat ui) \<and>
    (concat late = concat (map frame bodies) @ tail \<longrightarrow> [] \<notin> set late \<longrightarrow> incomplete tail \<longrightarrow>
     (\<forall>b\<in>set bodies. length b \<le> kMaxPacket) \<longrightarrow>
     envs = (if cl_running (manager ui) then List.map_filter parse bodies else []) \<longrightarrow>
     fst (GetP2PHistory k (manager ui')) = pushed_messages k envs \<and>
     GetPendingFriendRequests (manager ui') = pushed_requests envs)"
proof -
  let ?cl = "ClearAuth (manager ui)" and ?cl' = "fst (ListenerLoop parse (ClearAuth (manager ui)) late)"
  have m: "manager ui' = Disconnect ?cl'" and o: "current_page ui' = page_index AUTH" "home ui' = HomePageState_new"
    "login_password ui' = login_password ui" "chat ui' = chat ui"
    using assms by (simp_all add: on_logout_def go_def Logout_def)
  have g: "same_session ?cl ?cl'" using grows_ListenerLoop [of ?cl parse late] by (simp add: grows_def)
  have "fst (GetP2PHistory k (manager ui')) = pushed_messages k envs \<and>
     GetPendingFriendRequests (manager ui') = pushed_requests envs"
    if late: "concat late = concat (map frame bodies) @ tail" "[] \<notin> set late" "incomplete tail"
      "\<forall>b\<in>set bodies. length b \<le> kMaxPacket"
      and e: "envs = (if cl_running (manager ui) then List.map_filter parse bodies else [])"
  proof -
    have "?cl' = fold handle_packet envs ?cl"
    proof (cases "cl_running (manager ui)")
      case True
      with ListenerLoop_handles [of ?cl bodies late tail parse] late e show ?thesis
        by (auto simp: ClearAuth_def handle_all_def)
    next
      case False
      then have "\<not> cl_running ?cl" by (simp add: ClearAuth_def)
      with e False show ?thesis by (simp add: ListenerLoop.simps [of parse ?cl])
    qed
    then have "manager ui' = Disconnect (fold handle_packet envs ?cl)" using m by simp
    then show ?thesis
      using handle_packets_add(1) [of envs ?cl k] handle_packets_add(2) [of envs ?cl]
      by (simp add: Disconnect_def ClearAuth_def GetP2PHistory_def GetPendingFriendRequests_def split: option.splits)
  qed
  moreover have "Connect sock pton conn (manager ui') \<noteq> None"
    unfolding m by (auto simp: Connect_def Disconnect_def Let_def)
  ultimately show ?thesis
    using o g unfolding m by (simp add: IsLoggedIn_def same_session_def Disconnect_def ClearAuth_def)
qed

text \<open>A friend request that arrives during the logout survives it.\<close>

definition ex_push_codec :: "bytes \<Rightarrow> Envelope option" where
  "ex_push_codec bs = (if bs = ''r'' then Some (Envelope_default\<lparr>env_cmd := CMD_FRIEND_REQ_PUSH\<rparr>) else None)"

theorem logout_clears_session_witness:
  "\<exists>ui'. ui' = on_logout ex_push_codec [frame ''r'']
       ((InitUI ex_net_down NetworkManager_new)\<lparr>manager := ex_client\<lparr>cl_token := ''t''\<rparr>\<rparr>) \<and>
     \<not> IsLoggedIn (manager ui') \<and> fst (GetP2PHistory 22 (manager ui')) = [] \<and>
     length (GetPendingFriendRequests (manager ui')) = 1 \<and> Connect 4 1 0 (manager ui') \<noteq> None"
proof -
  let ?ui = "(InitUI ex_net_down NetworkManager_new)\<lparr>manager := ex_client\<lparr>cl_token := ''t''\<rparr>\<rparr>"
  let ?env = "Envelope_default\<lparr>env_cmd := CMD_FRIEND_REQ_PUSH\<rparr>" and ?ui' = "on_logout ex_push_codec [frame ''r''] ?ui"
  have "IsLoggedIn (manager ?ui)" by (simp add: IsLoggedIn_def)
  note l = logout_clears_session [OF this refl, of ex_push_codec "[frame ''r'']" 4 1 0 "[''r'']" "[]" "[?env]" 22]
  have "[?env] = (if cl_running (manager ?ui) then List.map_filter ex_push_codec [''r''] else [])"
    by (simp add: ex_client_def ex_push_codec_def List.map_filter_simps)
  moreover have "concat [frame ''r''] = concat (map frame [''r'']) @ []" "[] \<notin> set [frame ''r'']" "incomplete []"
    "\<forall>b\<in>set [''r'']. length b \<le> kMaxPacket"
    by (simp_all add: frame_def htonl_bytes_def incomplete_def kMaxPacket_def)
  ultimately have "fst (GetP2PHistory 22 (manager ?ui')) = pushed_messages 22 [?env] \<and>
      GetPendingFriendRequests (manager ?ui') = pushed_requests [?env]"
    using l by blast
  moreover have "pushed_messages 22 [?env] = []" "length (pushed_requests [?env]) = 1"
    by (simp_all add: pushed_messages_def pushed_requests_def)
  ultimately show ?thesis using l by metis
qed

section \<open>Sending and showing messages\<close>

text \<open>How a message is drawn: one's own on the right in green, another's on the left.\<close>

definition bubble :: "u64 \<Rightarrow> bool \<Rightarrow> P2PMessage \<Rightarrow> Element" where
  "bubble me focused m =
     (let e = (if sender_id m = me then ColorGreen (HBox [Filler, Border (Text (content m))])
               else HBox [Border (Text (content m)), Filler])
      in if focused then Inverted e else e)"

lemma GetP2PHistory_simps [simp]:
  "fst (GetP2PHistory k cl) = history cl k" "cl_user_id (snd (GetP2PHistory k cl)) = cl_user_id cl"
  "history (snd (GetP2PHistory k cl)) j = history cl j"
  by (auto simp: GetP2PHistory_def split: option.split)

lemma chat_transform_bubble:
  "i < length (history cl f) \<Longrightarrow> fst (chat_transform f (int i, b) cl) = bubble (cl_user_id cl) b (history cl f ! i)"
  by (cases "cl_history cl f") (auto simp: chat_transform_def bubble_def Let_def GetP2PHistory_def GetUserId_def)

lemma chat_lines_history:
  "length (dummy_entries ch) = length (history cl f) \<Longrightarrow>
   chat_lines f focused ch cl =
     map (\<lambda>i. bubble (cl_user_id cl) (focused i) (history cl f ! i)) [0..<length (history cl f)]"
  by (simp add: chat_lines_def chat_transform_bubble)

lemma length_vector_resize [simp]: "length (vector_resize n xs) = n"
  by (simp add: vector_resize_def)

lemma chat_renderer_lines:
  assumes "chat_renderer f (ch, cl) = (ch', cl')" and "f \<noteq> 0"
  shows "length (dummy_entries ch') = length (history cl' f)" "history cl' f = history cl f" "cl_user_id cl' = cl_user_id cl"
    "draft ch' = draft ch"
    "length (dummy_entries ch) \<noteq> length (history cl f) \<Longrightarrow>
       ch_selected ch = int (length (dummy_entries ch)) - 1 \<or> dummy_entries ch = [] \<Longrightarrow>
       ch_selected ch' = int (length (history cl f)) - 1"
  using assms by (auto simp: chat_renderer_def GetP2PHistory_def Let_def split: if_splits option.splits)

lemma SendP2PMessage_ok:
  assumes "SendP2PMessage n f txt cl = (Inr (), cl', rest, packet)"
  shows "\<exists>hs m. prefix (history cl f) hs \<and> history cl' f = hs @ [m] \<and> sender_id m = cl_user_id cl' \<and> content m = txt"
proof -
  let ?req = "\<lparr>msg_id = 0, sender_id = cl_user_id cl, receiver_id = f, content_type = 0, content = txt, timestamp = n_clock n 0\<rparr>"
  obtain env cl1 where s: "SendRequestAndWait (n_serialize n) (n_parse n) (n_sent n) (n_incoming n)
      (request_envelope (n_clock n 1) CMD_P2P_MSG_REQ (p2p_msg_req ?req)) CMD_MSG_ACK cl = (Some env, cl1, rest, packet)"
    and cl': "cl' = history_push f ?req cl1"
    using assms by (auto simp: SendP2PMessage_def perform_request_def Let_def split: prod.splits option.splits if_splits)
  from grows_SendRequestAndWait [OF s] have "prefix (history cl f) (history cl1 f)" "cl_user_id cl1 = cl_user_id cl"
    by (simp_all add: grows_def same_session_def)
  moreover have "history cl' f = history cl1 f @ [?req]" "cl_user_id cl' = cl_user_id cl1"
    unfolding cl' by (simp_all only: history_push_simps) simp_all
  ultimately show ?thesis by auto
qed


definition ex_ack :: Envelope where
  "ex_ack = Envelope_default\<lparr>env_cmd := CMD_MSG_ACK, env_payload := msg_ack (MessageAck_default\<lparr>ack_success := True\<rparr>)\<rparr>"

definition ex_net_ack :: net where
  "ex_net_ack = \<lparr>n_serialize = \<lambda>_. ''q'', n_parse = \<lambda>bs. if bs = ''y'' then Some ex_ack else None, n_clock = \<lambda>_. 7,
     n_sent = 5, n_incoming = [frame ''y'']\<rparr>"

definition ex_ui :: IMClient where
  "ex_ui = (InitUI ex_net_down NetworkManager_new)\<lparr>manager := ex_client, chat := ChatState_new\<lparr>draft := ''hi''\<rparr>,
     home := HomePageState_new\<lparr>current_chat_friend_id := 22\<rparr>\<rparr>"

lemma ex_send: "\<exists>cl1. SendP2PMessage ex_net_ack 22 ''hi'' ex_client = (Inr (), cl1, [], Some (frame ''q''))"
proof -
  have p: "n_parse ex_net_ack ''y'' = Some ex_ack" "n_sent ex_net_ack = int (length (frame ''q''))"
    "n_incoming ex_net_ack = [frame ''y'']" "n_serialize ex_net_ack = (\<lambda>_. ''q'')"
    by (simp_all add: ex_net_ack_def length_frame)
  have c: "cl_connected ex_client" "cl_running (ex_client\<lparr>cl_has_response := False\<rparr>)" by (simp_all add: ex_client_def)
  have "ListenerLoop (n_parse ex_net_ack) (ex_client\<lparr>cl_has_response := False\<rparr>) [frame ''y''] =
      (ex_client\<lparr>cl_response := ex_ack, cl_has_response := True\<rparr>, [])"
    using ListenerLoop_one [of "n_parse ex_net_ack" "''y''", OF p(1) _ c(2)] by (simp add: kMaxPacket_def handle_packet_def ex_ack_def)
  then show ?thesis
    using p c by (simp add: SendP2PMessage_def perform_request_def SendRequestAndWait_def SendEnvelope_def Let_def ex_ack_def)
qed


text \<open>What the listener adds to a conversation was sent by its partner.\<close>

definition partner_adds :: "client \<Rightarrow> client \<Rightarrow> bool" where
  "partner_adds cl cl' \<longleftrightarrow> (\<forall>k. \<exists>new. history cl' k = history cl k @ new \<and> (\<forall>m\<in>set new. sender_id m = k))"

lemma partner_adds_same: "cl_history cl' = cl_history cl \<Longrightarrow> partner_adds cl cl'"
  by (simp add: partner_adds_def)

lemma partner_adds_trans:
  assumes "partner_adds a b" and "partner_adds b c"
  shows "partner_adds a c"
  unfolding partner_adds_def
proof
  fix k
  from assms obtain x y where "history b k = history a k @ x" "\<forall>m\<in>set x. sender_id m = k"
    "history c k = history b k @ y" "\<forall>m\<in>set y. sender_id m = k" unfolding partner_adds_def by meson
  then show "\<exists>new. history c k = history a k @ new \<and> (\<forall>m\<in>set new. sender_id m = k)"
    by (intro exI [of _ "x @ y"]) auto
qed

lemma partner_adds_push: "partner_adds cl (history_push (sender_id m) m cl)"
  unfolding partner_adds_def by (simp only: history_push_simps) auto

lemma partner_adds_notify: "partner_adds cl cl1 \<Longrightarrow> partner_adds cl (notify b x cl1)"
  by (erule partner_adds_trans) (simp add: partner_adds_same notify_def)

lemma partner_adds_packet: "partner_adds cl (handle_packet env cl)"
  unfolding handle_packet_def Let_def using partner_adds_push
  by (auto intro!: partner_adds_notify intro: partner_adds_same)

lemma partner_adds_pass:
  "listen_pass parse cl segs = Next cl1 r \<Longrightarrow> partner_adds cl cl1" "listen_pass parse cl segs = Stop cl1 \<Longrightarrow> partner_adds cl cl1"
  by (auto simp: listen_pass_def Let_def partner_adds_packet connection_lost_def notify_def partner_adds_same
      split: received.splits if_splits option.splits)

lemma partner_adds_ListenerLoop: "partner_adds cl (fst (ListenerLoop parse cl segs))"
proof (induction parse cl segs rule: ListenerLoop.induct)
  case (1 parse cl segs)
  then show ?case
    using partner_adds_pass [of parse cl segs]
    by (subst ListenerLoop.simps) (auto split: pass.split intro: partner_adds_trans partner_adds_same)
qed

lemma partner_adds_request:
  "SendRequestAndWait ser parse sent inc env expected cl = (r, cl1, rest, packet) \<Longrightarrow> partner_adds cl cl1"
  using partner_adds_ListenerLoop [of "cl\<lparr>cl_has_response := False\<rparr>" parse inc]
  by (auto simp: SendRequestAndWait_def Let_def partner_adds_same split: prod.splits if_splits
      intro: partner_adds_trans [OF partner_adds_same [of "cl\<lparr>cl_has_response := False\<rparr>" cl]])

lemma SendP2PMessage_failed: "SendP2PMessage n f txt cl = (Inl err, cl1, rest, packet) \<Longrightarrow> partner_adds cl cl1"
  by (auto simp: SendP2PMessage_def perform_request_def Let_def split: prod.splits option.splits if_splits
      dest: partner_adds_request)

text \<open>
  When a message cannot be sent, the text is gone without a word: the draft is
  cleared, no error is shown, and the conversation has at most grown by messages of the partner.
\<close>

lemma failed_send_silent:
  assumes "draft (chat ui) \<noteq> []" and "f = current_chat_friend_id (home ui)"
    and "SendP2PMessage n f (draft (chat ui)) (manager ui) = (Inl err, cl1, rest, packet)"
  shows "btn_send n ui = ui\<lparr>manager := cl1, chat := (chat ui)\<lparr>draft := []\<rparr>\<rparr> \<and>
    show_error (btn_send n ui) = show_error ui \<and> error_msg (btn_send n ui) = error_msg ui \<and>
    (\<exists>new. fst (GetP2PHistory f (manager (btn_send n ui))) = fst (GetP2PHistory f (manager ui)) @ new \<and>
       (\<forall>m\<in>set new. sender_id m = f))"
proof -
  have b: "btn_send n ui = ui\<lparr>manager := cl1, chat := (chat ui)\<lparr>draft := []\<rparr>\<rparr>"
    using assms by (simp add: btn_send_def on_send_def)
  have "\<exists>new. history cl1 f = history (manager ui) f @ new \<and> (\<forall>m\<in>set new. sender_id m = f)"
    using SendP2PMessage_failed [OF assms(3)] unfolding partner_adds_def by blast
  with b show ?thesis by simp
qed

lemma failed_send_silent_witness:
  "draft (chat (btn_send ex_net_down ex_ui)) = [] \<and> show_error (btn_send ex_net_down ex_ui) = show_error ex_ui"
proof -
  have "draft (chat ex_ui) \<noteq> []" "22 = current_chat_friend_id (home ex_ui)"
    "SendP2PMessage ex_net_down 22 (draft (chat ex_ui)) (manager ex_ui) =
       (Inl ''Request timeout or network error'', ex_client\<lparr>cl_has_response := False\<rparr>, [], Some (frame ''q''))"
    by (simp_all add: ex_ui_def ex_net_down_def ex_client_def SendP2PMessage_def perform_request_def
        SendRequestAndWait_def SendEnvelope_def Let_def ChatState_new_def)
  from failed_send_silent [OF this] show ?thesis by simp
qed

section \<open>Answering friend requests\<close>

text \<open>The texts of a view, from top to bottom.\<close>

fun element_texts :: "Element \<Rightarrow> string list" where
  "element_texts (Text s) = [s]"
| "element_texts (HBox es) = concat (map element_texts es)"
| "element_texts (VBox es) = concat (map element_texts es)"
| "element_texts (Border e) = element_texts e"
| "element_texts (Center e) = element_texts e"
| "element_texts (HCenter e) = element_texts e"
| "element_texts (Flex e) = element_texts e"
| "element_texts (Bold e) = element_texts e"
| "element_texts (Dim e) = element_texts e"
| "element_texts (Inverted e) = element_texts e"
| "element_texts (ColorGreen e) = element_texts e"
| "element_texts (ColorYellow e) = element_texts e"
| "element_texts (ColorRed e) = element_texts e"
| "element_texts (Sized d c n e) = element_texts e"
| "element_texts (Window title e) = element_texts title @ element_texts e"
| "element_texts (ClearUnder e) = element_texts e"
| "element_texts (DBox es) = concat (map element_texts es)"
| "element_texts (YFrame e) = element_texts e"
| "element_texts (VScroll e) = element_texts e"
| "element_texts _ = []"

lemma handle_friend_texts:
  "cl_pending cl = req # reqs \<Longrightarrow> element_texts (handle_friend_view h cl) =
     [''Handle Friend Request'', ''From: '' @ fp_sender_name req @ '' (ID: '' @ to_string (unat (fp_sender_id req)) @ '')'',
      ''Msg: '' @ fp_verify_msg req, ''Total Pending: '' @ to_string (Suc (length reqs)), handle_hint h]"
  by (simp add: handle_friend_view_def request_info_def GetPendingFriendRequests_def)

text \<open>The two ends of a click on a button of the panel, for the request at the head of the list and
  the result \<open>r\<close> of answering it.\<close>

definition answered ::
  "string + unit \<Rightarrow> string \<Rightarrow> FriendReqPush \<Rightarrow> FriendReqPush list \<Rightarrow> HomePageState \<Rightarrow> HomePageState \<times> client \<Rightarrow> bool" where
  "answered r done req reqs h = (\<lambda>(h', cl'). \<exists>new.
     case r of
       Inl err \<Rightarrow> h' = h\<lparr>handle_hint := err\<rparr> \<and> cl_pending cl' = req # reqs @ new
     | Inr _ \<Rightarrow> handle_hint h' = done \<and> cl_pending cl' = filter (\<lambda>q. fp_req_id q \<noteq> fp_req_id req) reqs @ new)"

lemma refresh_friends_keeps:
  assumes "refresh_friends n (h, cl) = (h', cl')"
  shows "handle_hint h' = handle_hint h" "prefix (cl_pending cl) (cl_pending cl')"
proof -
  obtain r cl1 rest packet where q: "Client_GetFriendList n cl = (r, cl1, rest, packet)" by (metis prod.exhaust)
  with query_grows(3) [OF q] assms show "handle_hint h' = handle_hint h" "prefix (cl_pending cl) (cl_pending cl')"
    by (auto simp: refresh_friends_def Let_def set_friends_def grows_def split: sum.splits if_splits)
qed

lemma handled:
  assumes "HandleFriendRequest n (fp_req_id req) s a cl = (r, cl1, rest, packet)" and "cl_pending cl = req # reqs"
  obtains new where "cl_pending cl1 = req # reqs @ new"
    "cl_pending (RemovePendingRequest (fp_req_id req) cl1) =
       filter (\<lambda>q. fp_req_id q \<noteq> fp_req_id req) reqs @ filter (\<lambda>q. fp_req_id q \<noteq> fp_req_id req) new"
  using query_grows(2) [OF assms(1)] assms(2) by (auto simp: grows_def prefix_def RemovePendingRequest_def)

text \<open>
  Property C26. The panel shows the oldest friend request, and both of its buttons answer that one. When the server has
  taken the answer, exactly that request leaves the list and the panel says so; otherwise the
  panel shows the error and the list is as before, so that the next click answers the same request
  again. Requests that arrive meanwhile are kept behind the others. (A request that the server
  always refuses therefore stays in front of all later ones.)
\<close>

theorem request_buttons:
  assumes "GetPendingFriendRequests cl = req # reqs"
  shows "element_texts (handle_friend_view h cl) =
     [''Handle Friend Request'', ''From: '' @ fp_sender_name req @ '' (ID: '' @ to_string (unat (fp_sender_id req)) @ '')'',
      ''Msg: '' @ fp_verify_msg req, ''Total Pending: '' @ to_string (Suc (length reqs)), handle_hint h] \<and>
    answered (fst (HandleFriendRequest n1 (fp_req_id req) (fp_sender_id req) ACTION_ACCEPT cl))
      ''Request accepted successfully.'' req reqs h (btn_accept_request n1 n2 (h, cl)) \<and>
    answered (fst (HandleFriendRequest n (fp_req_id req) (fp_sender_id req) ACTION_REJECT cl))
      ''Request rejected successfully.'' req reqs h (btn_reject_request n (h, cl))"
proof (intro conjI)
  have p: "cl_pending cl = req # reqs" using assms by (simp add: GetPendingFriendRequests_def)
  show "element_texts (handle_friend_view h cl) =
     [''Handle Friend Request'', ''From: '' @ fp_sender_name req @ '' (ID: '' @ to_string (unat (fp_sender_id req)) @ '')'',
      ''Msg: '' @ fp_verify_msg req, ''Total Pending: '' @ to_string (Suc (length reqs)), handle_hint h]"
    by (rule handle_friend_texts [OF p])
next
  have p: "cl_pending cl = req # reqs" using assms by (simp add: GetPendingFriendRequests_def)
  obtain r cl1 rest packet where q: "HandleFriendRequest n1 (fp_req_id req) (fp_sender_id req) ACTION_ACCEPT cl =
    (r, cl1, rest, packet)" by (metis prod.exhaust)
  obtain new where n: "cl_pending cl1 = req # reqs @ new" "cl_pending (RemovePendingRequest (fp_req_id req) cl1) =
       filter (\<lambda>q. fp_req_id q \<noteq> fp_req_id req) reqs @ filter (\<lambda>q. fp_req_id q \<noteq> fp_req_id req) new"
    using handled [OF q p] .
  let ?h = "h\<lparr>handle_hint := ''Request accepted successfully.''\<rparr>"
  obtain h' cl' where f: "refresh_friends n2 (?h, RemovePendingRequest (fp_req_id req) cl1) = (h', cl')"
    by (metis prod.exhaust)
  note k = refresh_friends_keeps [OF f]
  show "answered (fst (HandleFriendRequest n1 (fp_req_id req) (fp_sender_id req) ACTION_ACCEPT cl))
      ''Request accepted successfully.'' req reqs h (btn_accept_request n1 n2 (h, cl))"
    using k n q f by (cases r) (auto simp: answered_def btn_accept_request_def on_accept_def assms prefix_def)
next
  have p: "cl_pending cl = req # reqs" using assms by (simp add: GetPendingFriendRequests_def)
  obtain r cl1 rest packet where q: "HandleFriendRequest n (fp_req_id req) (fp_sender_id req) ACTION_REJECT cl =
    (r, cl1, rest, packet)" by (metis prod.exhaust)
  obtain new where n: "cl_pending cl1 = req # reqs @ new" "cl_pending (RemovePendingRequest (fp_req_id req) cl1) =
       filter (\<lambda>q. fp_req_id q \<noteq> fp_req_id req) reqs @ filter (\<lambda>q. fp_req_id q \<noteq> fp_req_id req) new"
    using handled [OF q p] .
  show "answered (fst (HandleFriendRequest n (fp_req_id req) (fp_sender_id req) ACTION_REJECT cl))
      ''Request rejected successfully.'' req reqs h (btn_reject_request n (h, cl))"
    using n q by (cases r) (auto simp: answered_def btn_reject_request_def on_reject_def assms)
qed

definition ex_friend_req :: FriendReqPush where
  "ex_friend_req = \<lparr>fp_req_id = 5, fp_sender_id = 22, fp_sender_name = ''bob'', fp_verify_msg = [], fp_timestamp = 1\<rparr>"

theorem request_buttons_witness:
  "answered (Inl ''Request timeout or network error'') ''Request accepted successfully.'' ex_friend_req [] HomePageState_new
     (btn_accept_request ex_net_down ex_net_down (HomePageState_new, ex_client\<lparr>cl_pending := [ex_friend_req]\<rparr>))"
proof -
  let ?cl = "ex_client\<lparr>cl_pending := [ex_friend_req]\<rparr>"
  have "GetPendingFriendRequests ?cl = [ex_friend_req]" by (simp add: GetPendingFriendRequests_def)
  moreover have "fst (HandleFriendRequest ex_net_down q s a ?cl) = Inl ''Request timeout or network error''" for q s a
    by (simp add: HandleFriendRequest_def ex_net_down_def ex_client_def perform_request_def SendRequestAndWait_def
        SendEnvelope_def Let_def)
  ultimately show ?thesis
    using request_buttons [of ?cl ex_friend_req "[]" HomePageState_new ex_net_down ex_net_down] by simp
qed

end
