(* ===== verification/Client_Views.thy ===== *)
theory Client_Views
  imports Client_Ui
begin

text \<open>
  The whole screen of the client: the pages for starting, registering and logging in
  (\<open>client/ui/auth\<close>), the home page with its panels (\<open>client/ui/home_page.cpp\<close>) and the error
  window over them (\<open>client/ui/ui_common.cpp\<close>), as \<open>client/main.cpp\<close> composes them.

  Model. The views of the panels are those of \<open>Client_Ui\<close>. A tab container draws the child with
  the selected index; an index that no child has is \<open>None\<close>.
\<close>

section \<open>Pages\<close>

definition MakePasswordOption :: bool where
  "MakePasswordOption = True"

definition auth_view :: Element where
  "auth_view = Center (VBox
     [HCenter (Bold (Text ''IM Client'')),
      Separator,
      Center (Border (Sized ''WIDTH'' ''EQUAL'' 30 (VBox
        [Widget ''Register'', Separator, Widget ''Login'', Separator, Widget ''Quit''])))])"

definition register_view :: "string \<Rightarrow> string \<Rightarrow> Element" where
  "register_view username password = Center (VBox
     [HCenter (Bold (Text ''Register'')),
      Separator,
      Center (Border (Sized ''WIDTH'' ''GREATER_THAN'' 40 (VBox
        [HBox [Text ''Username: '', InputBox username ''Username'' False],
         HBox [Text ''Password: '', InputBox password ''Password'' MakePasswordOption],
         Separator,
         HBox [Flex (Widget ''Submit''), Flex (Widget ''Back'')]])))])"

definition login_view :: "string \<Rightarrow> string \<Rightarrow> Element" where
  "login_view username password = Center (VBox
     [HCenter (Bold (Text ''Login'')),
      Separator,
      Center (Border (Sized ''WIDTH'' ''GREATER_THAN'' 40 (VBox
        [HBox [Text ''Username: '', InputBox username ''Username'' False],
         HBox [Text ''Password: '', InputBox password ''Password'' MakePasswordOption],
         Separator,
         HBox [Flex (Widget ''Login''), Flex (Widget ''Back'')]])))])"

section \<open>Home page\<close>

text \<open>\<open>Container::Tab\<close>.\<close>

definition tab_view :: "int \<Rightarrow> Element list \<Rightarrow> Element option" where
  "tab_view i views = (if 0 \<le> i \<and> i < int (length views) then Some (views ! nat i) else None)"

definition left_view :: "HomePageState \<Rightarrow> Element" where
  "left_view h = Sized ''HEIGHT'' ''GREATER_THAN'' 10 (Sized ''WIDTH'' ''EQUAL'' 26 (Border (VBox
     [Center (Bold (Text ''Contacts'')),
      Separator,
      YFrame (Flex (VBox (map Text (friend_names h)))),
      Separator,
      VBox [Widget ''Add Friend'', Widget ''Friend Requests'']])))"

definition empty_view :: Element where
  "empty_view = Flex (Border (VBox [Center (Dim (Text ''Select an action on the left.''))]))"

definition right_panel :: "(nat \<Rightarrow> bool) \<Rightarrow> HomePageState \<Rightarrow> ChatState \<Rightarrow> client \<Rightarrow> Element option" where
  "right_panel focused h ch cl = tab_view (current_panel h)
     [empty_view, add_friend_view h, handle_friend_view h cl,
      chat_view (current_chat_friend_id h) (current_chat_friend_name h) focused ch cl]"

definition home_view :: "(nat \<Rightarrow> bool) \<Rightarrow> HomePageState \<Rightarrow> ChatState \<Rightarrow> client \<Rightarrow> Element option" where
  "home_view focused h ch cl =
     do { panel \<leftarrow> right_panel focused h ch cl;
          Some (VBox
            [Border (HBox [Bold (Text (''User ID: '' @ to_string (unat (GetUserId cl)))), Filler, Widget ''Logout'']),
             Flex (HBox [left_view h, Flex (Flex panel)])]) }"

section \<open>Screen\<close>

definition ErrorModal_view :: "string \<Rightarrow> Element" where
  "ErrorModal_view msg = Sized ''WIDTH'' ''GREATER_THAN'' 40 (Window (Bold (ColorRed (Text ''Error'')))
     (VBox [Center (Text msg), Separator, Center (Widget ''Close'')]))"

definition Modal_view :: "Element \<Rightarrow> Element \<Rightarrow> bool \<Rightarrow> Element" where
  "Modal_view main modal show_modal = (if show_modal then DBox [main, Center (ClearUnder modal)] else main)"

definition page_view :: "(nat \<Rightarrow> bool) \<Rightarrow> IMClient \<Rightarrow> Element option" where
  "page_view focused ui =
     do { home_page \<leftarrow> home_view focused (home ui) (chat ui) (manager ui);
          tab_view (current_page ui)
            [auth_view, register_view (reg_username ui) (reg_password ui),
             login_view (login_username ui) (login_password ui), home_page] }"

definition screen :: "(nat \<Rightarrow> bool) \<Rightarrow> IMClient \<Rightarrow> Element option" where
  "screen focused ui =
     do { page \<leftarrow> page_view focused ui;
          Some (Modal_view page (ErrorModal_view (error_msg ui)) (show_error ui)) }"

section \<open>What is drawn\<close>

lemma panel_cases: "i \<in> range panel_index \<Longrightarrow> i \<in> {0, 1, 2, 3}"
  by (auto simp: panel_index.simps elim: RightPanel.exhaust) (metis RightPanel.exhaust panel_index.simps)

lemma page_cases: "i \<in> range page_index \<Longrightarrow> i \<in> {0, 1, 2, 3}"
  by (auto simp: page_index.simps) (metis Page.exhaust page_index.simps)

lemma home_drawn: "home_ok h \<Longrightarrow> \<exists>v. home_view focused h ch cl = Some v \<and>
    set (friend_names h) \<subseteq> set (element_texts v) \<and> ''User ID: '' @ to_string (unat (cl_user_id cl)) \<in> set (element_texts v)"
proof -
  assume "home_ok h"
  then have "current_panel h \<in> {0, 1, 2, 3}" using panel_cases by (simp add: home_ok_def)
  then obtain v where "right_panel focused h ch cl = Some v" by (auto simp: right_panel_def tab_view_def)
  then show ?thesis by (auto simp: home_view_def left_view_def GetUserId_def)
qed

lemma screen_drawn:
  assumes "ui_ok ui"
  shows "\<exists>v. screen focused ui = Some v \<and> (show_error ui \<longrightarrow> error_msg ui \<in> set (element_texts v)) \<and>
    (current_page ui = page_index MAIN \<longrightarrow> set (friend_names (home ui)) \<subseteq> set (element_texts v) \<and>
       ''User ID: '' @ to_string (unat (cl_user_id (manager ui))) \<in> set (element_texts v))"
proof -
  obtain h where h: "home_view focused (home ui) (chat ui) (manager ui) = Some h"
    "set (friend_names (home ui)) \<subseteq> set (element_texts h)"
    "''User ID: '' @ to_string (unat (cl_user_id (manager ui))) \<in> set (element_texts h)"
    using home_drawn [of "home ui" focused "chat ui" "manager ui"] assms by (auto simp: ui_ok_def)
  have "current_page ui \<in> {0, 1, 2, 3}" using assms page_cases by (simp add: ui_ok_def)
  then obtain p where p: "page_view focused ui = Some p" "current_page ui = page_index MAIN \<longrightarrow> p = h"
    using h(1) by (auto simp: page_view_def tab_view_def page_index.simps)
  then show ?thesis using h(2,3) by (auto simp: screen_def Modal_view_def ErrorModal_view_def)
qed

text \<open>
  Property C20. Whatever the user does and the network delivers, the state of the user interface stays
  well formed: the page and the panel are among those that exist, and the menu shows exactly the
  names of the friends, so that a selected line stands for the friend that a chat is opened with.
  It can always be drawn: the screen shows the error that is to be shown, and on the home page all
  friends and the user's id.
  Every event has a handler that returns, but for one case: a registration or a login that connects
  again after the server has ended a connection ends the program.
\<close>

theorem ui_wellformed:
  assumes "run_events ui_step es (InitUI n NetworkManager_new) = Some ui"
  shows "current_page ui \<in> range page_index \<and> current_panel (home ui) \<in> range panel_index \<and>
    friend_names (home ui) = map usr_username (friend_list (home ui)) \<and>
    (\<exists>v. screen focused ui = Some v \<and> (show_error ui \<longrightarrow> error_msg ui \<in> set (element_texts v)) \<and>
       (current_page ui = page_index MAIN \<longrightarrow> set (friend_names (home ui)) \<subseteq> set (element_texts v) \<and>
          ''User ID: '' @ to_string (unat (cl_user_id (manager ui))) \<in> set (element_texts v))) \<and>
    (ui_step ev ui = None \<longleftrightarrow>
       (case ev of SubmitRegister d _ \<Rightarrow> dial_ok d | SubmitLogin d _ _ _ \<Rightarrow> dial_ok d | _ \<Rightarrow> False) \<and>
       \<not> cl_connected (manager ui) \<and> cl_listener (manager ui))"
  using im.run_ok [OF assms InitUI_ok] im.run_progress [OF assms InitUI_ok, of ev]
    screen_drawn [OF im.run_ok [OF assms InitUI_ok], of focused]
  by (simp add: ui_ok_def home_ok_def reconnects_def)

theorem ui_wellformed_witness:
  "\<exists>ui. run_events ui_step [ClickRegister, SubmitRegister (4, 1, 0) ex_net_down, Receive ex_codec [[]]]
       (InitUI ex_net_down NetworkManager_new) = Some ui \<and>
     current_page ui \<in> range page_index \<and> friend_names (home ui) = map usr_username (friend_list (home ui)) \<and>
     ui_step (SubmitLogin (4, 1, 0) ex_net_down ex_net_down ex_net_down) ui = None"
proof -
  let ?es = "[ClickRegister, SubmitRegister (4, 1, 0) ex_net_down, Receive ex_codec [[]]]"
  obtain ui where r: "run_events ui_step ?es (InitUI ex_net_down NetworkManager_new) = Some ui"
    and d: "\<not> cl_connected (manager ui)" "cl_listener (manager ui)"
    by (auto simp: InitUI_def refresh_friends_def Client_GetFriendList_def perform_request_def SendRequestAndWait_def
        SendEnvelope_def NetworkManager_new_def Let_def go_def on_reg_submit_def connected_then_def Connect_def
        Register_def ex_net_down_def show_message_def ListenerLoop.simps [of ex_codec _ "[[]]"] listen_pass_def
        connection_lost_def notify_def callback_setters)
  from ui_wellformed [OF r, where focused = "\<lambda>_. False" and ev = "SubmitLogin (4, 1, 0) ex_net_down ex_net_down ex_net_down"] r d show ?thesis
    by (auto simp: dial_ok_def)
qed

end
