(* ===== verification/Message_Path.thy ===== *)
theory Message_Path
  imports Server_Setup Client_Views
begin

text \<open>
  The way of a message from the sender's connection through the server to the receiver's screen, in
  parts: the read task on the sender's connection, the write tasks on both connections, the
  listeners of both clients and the drawing of their chat panels.
\<close>

section \<open>Through the server\<close>

text \<open>A chat connection with nothing to read, to answer or to send.\<close>

definition idle_chat :: "nat \<Rightarrow> tcp_conn \<Rightarrow> ('db, 'sc) world \<Rightarrow> bool" where
  "idle_chat p c w \<longleftrightarrow> chat_conn p c w \<and> c_determined c \<and> contents (c_read_buff c) = [] \<and>
     contents (c_write_buff c) = [] \<and> c_outgoing c = []"

abbreviation push_events :: "bool \<Rightarrow> u32" where
  "push_events is_et \<equiv> EPOLLIN OR EPOLLOUT OR EPOLLRDHUP OR EPOLLONESHOT OR (if is_et then EPOLLET else 0)"

text \<open>The state after a message has been queued for the store and for the connection \<open>q\<close>.\<close>

definition delivered ::
  "bool \<Rightarrow> nat \<Rightarrow> tcp_conn \<Rightarrow> bytes \<Rightarrow> P2PMessage \<Rightarrow> ('db, 'sc) world \<Rightarrow> ('db, 'sc) world" where
  "delivered is_et q d s req w =
     put_conn q (d\<lparr>c_outgoing := c_outgoing d @ [frame s], c_events := push_events is_et\<rparr>)
       (w\<lparr>w_writer := writer_Enqueue req (w_writer w), w_interest := (w_interest w)(c_fd d \<mapsto> push_events is_et)\<rparr>)"

definition p2p_ack :: "('db, 'sc) server_env \<Rightarrow> Envelope \<Rightarrow> P2PMessage \<Rightarrow> Envelope" where
  "p2p_ack e request req = (new_response e request)\<lparr>env_cmd := CMD_MSG_ACK,
     env_payload := msg_ack \<lparr>ack_msg_id = msg_id req, ack_ref_seq = 0, ack_success = True, ack_error_msg = []\<rparr>\<rparr>"

lemma p2p_ack_fields: "env_cmd (p2p_ack e request req) = CMD_MSG_ACK"
  "env_payload (p2p_ack e request req) =
     msg_ack \<lparr>ack_msg_id = msg_id req, ack_ref_seq = 0, ack_success = True, ack_error_msg = []\<rparr>"
  by (simp_all add: p2p_ack_def)

lemma send_p2p_delivers:
  assumes d: "chat_conn q d w" "c_events d \<noteq> push_events (e_is_et e)" "w_online w (receiver_id req) = Some q"
    and u: "u \<noteq> 0" "receiver_id req \<noteq> 0" "timestamp req \<noteq> 0"
    and s: "e_serialize e (p2p_envelope (e_time e) (req\<lparr>sender_id := u\<rparr>)) = Some s"
  shows "send_p2p_message e u req w = Some (\<lparr>ack_msg_id = msg_id req, ack_ref_seq = 0, ack_success = True, ack_error_msg = []\<rparr>,
     delivered (e_is_et e) q d s req w)"
  using assms
  by (auto simp: send_p2p_message_def Let_def message_defaults push_p2p_message_def send_envelope_def send_found_def find_client_def enqueue_message_def
      notify_writable_def modFd_def chat_conn_def deref_def put_conn_def delivered_def)

lemma ProtobufHandler_p2p:
  assumes c: "chat_conn p c w" "is_logged_in c" and r: "decode_bytes (e_parse e) (contents (c_read_buff c)) = (Some request, rest)"
    and req: "env_cmd request = CMD_P2P_MSG_REQ" "env_payload request = p2p_msg_req req"
      "receiver_id req \<noteq> 0" "timestamp req \<noteq> 0"
    and d: "chat_conn q d w" "c_events d \<noteq> push_events (e_is_et e)" "w_online w (receiver_id req) = Some q" "q \<noteq> p"
    and s: "e_serialize e (p2p_envelope (e_time e) (req\<lparr>sender_id := c_user_id c\<rparr>)) = Some s"
  obtains rb wb where "ProtobufHandler_Process e p w =
      Some (True, put_conn p (c\<lparr>c_read_buff := rb, c_write_buff := wb\<rparr>) (delivered (e_is_et e) q d s req w))"
    and "buf_ok rb" and "contents rb = rest" and "buf_ok wb"
    and "contents wb = contents (c_write_buff c) @ response_bytes e (p2p_ack e request req)"
proof -
  have ok: "buf_ok (c_read_buff c)" "buf_ok (c_write_buff c)" "deref p w = Some c" using c by (simp_all add: chat_conn_def)
  obtain rb where rb: "TryDecodeMessage (e_parse e) (c_read_buff c) = Some (Some request, rb)" "buf_ok rb" "contents rb = rest"
    by (rule TryDecode_refines [OF ok(1), of "e_parse e"]) (simp add: r)
  obtain wb where wb: "EncodeMessage (e_serialize e) (p2p_ack e request req) (c_write_buff c) = Some wb" "buf_ok wb"
      "contents wb = contents (c_write_buff c) @ response_bytes e (p2p_ack e request req)"
    using EncodeMessage_Some [OF ok(2), of "e_serialize e" "p2p_ack e request req"] unfolding response_bytes_def by blast
  let ?c = "c\<lparr>c_read_buff := rb\<rparr>"
  let ?w = "put_conn p ?c w"
  have dq: "chat_conn q d ?w" using d(1,4) by (simp add: chat_conn_def) (simp add: put_conn_def)
  have u: "c_user_id c \<noteq> 0" using c(2) by (simp add: is_logged_in_def)
  have "send_p2p_message e (c_user_id c) req ?w = Some (\<lparr>ack_msg_id = msg_id req, ack_ref_seq = 0, ack_success = True,
      ack_error_msg = []\<rparr>, delivered (e_is_et e) q d s req ?w)"
    by (rule send_p2p_delivers [OF dq d(2) _ u req(3,4) s]) (simp add: put_conn_def d(3))
  moreover have dp: "deref p ?w = Some ?c" "is_logged_in ?c" "c_user_id ?c = c_user_id c"
    using c(2) by (simp_all add: is_logged_in_def)
  ultimately have "Dispatch e p request (new_response e request) ?w = Some (p2p_ack e request req, delivered (e_is_et e) q d s req ?w)"
    using req(1,2) by (simp add: Dispatch_def HandleP2PMsg_def auth_simps [OF dp(1)] p2p_ack_def)
  moreover have "deref p (delivered (e_is_et e) q d s req ?w) = Some ?c"
    using d(4) by (simp add: delivered_def deref_def put_conn_def)
  moreover have "put_conn p x (delivered (e_is_et e) q d s req ?w) = put_conn p x (delivered (e_is_et e) q d s req w)" for x
    using d(4) by (auto simp: delivered_def put_conn_def fun_upd_twist)
  ultimately have "ProtobufHandler_Process e p w =
      Some (True, put_conn p (c\<lparr>c_read_buff := rb, c_write_buff := wb\<rparr>) (delivered (e_is_et e) q d s req w))"
    using ok(3) rb(1) wb(1) by (simp add: ProtobufHandler_Process_def Let_def)
  then show thesis by (rule that [OF _ rb(2,3) wb(2,3)])
qed

lemma rearm_exact:
  "chat_conn p c w \<Longrightarrow> rearm p ev w = Some (put_conn p (c\<lparr>c_events := ev\<rparr>) (w\<lparr>w_interest := (w_interest w)(c_fd c \<mapsto> ev)\<rparr>))"
  by (auto simp: rearm_def chat_conn_def modFd_def)

lemma srv_inv_fds:
  "srv_inv w \<Longrightarrow> deref p w = Some c \<Longrightarrow> deref q w = Some d \<Longrightarrow> p \<noteq> q \<Longrightarrow> c_fd c \<noteq> c_fd d"
  unfolding srv_inv_def base_inv_def owned_def by (metis option.inject)

lemma chat_conn_frame:
  "chat_conn q d w \<Longrightarrow> deref q w' = deref q w \<Longrightarrow> w_open w' = w_open w \<Longrightarrow> dom (w_interest w') = dom (w_interest w) \<Longrightarrow>
   chat_conn q d w'"
  by (simp add: chat_conn_def)

text \<open>The read task on the sender's connection: the sender is acknowledged and the receiver's
  connection is armed for writing, with the frame of the message in its queue.\<close>

lemma message_processed:
  assumes inv: "srv_inv w" and c: "idle_chat p c w" "is_logged_in c"
    and up: "concat chunks = frame payload" "[] \<notin> set chunks" "length payload \<le> kMaxMessageSize"
    and req: "e_parse e payload = Some request" "env_cmd request = CMD_P2P_MSG_REQ" "env_payload request = p2p_msg_req req"
      "receiver_id req \<noteq> 0" "timestamp req \<noteq> 0"
    and d: "idle_chat q d w" "c_events d \<noteq> push_events (e_is_et e)" "w_online w (receiver_id req) = Some q" "q \<noteq> p"
    and s: "e_serialize e (p2p_envelope (e_time e) (req\<lparr>sender_id := c_user_id c\<rparr>)) = Some s"
  obtains w1 c1 d1 where "OnRead e ce (arrival (e_is_et e) chunks) p w = Some w1"
    and "chat_conn p c1 w1" and "c_determined c1" and "contents (c_read_buff c1) = []" and "c_outgoing c1 = []"
    and "contents (c_write_buff c1) = response_bytes e (p2p_ack e request req)"
    and "chat_conn q d1 w1" and "c_determined d1" and "contents (c_write_buff d1) = []" and "c_outgoing d1 = [frame s]"
    and "w_interest w1 (c_fd c) = Some (ce OR EPOLLOUT)" and "w_interest w1 (c_fd d) = Some (push_events (e_is_et e))"
    and "wr_queue (w_writer w1) = wr_queue (w_writer w) @ [req]"
proof -
  have cc: "chat_conn p c w" "contents (c_read_buff c) = []" "contents (c_write_buff c) = []" "c_outgoing c = []" "c_determined c"
    and dd: "chat_conn q d w" "contents (c_write_buff d) = []" "c_outgoing d = []" "c_determined d"
    using c(1) d(1) by (simp_all add: idle_chat_def)
  have dp: "deref p w = Some c" "deref q w = Some d" "c_handler c = Some ProtobufH" using cc dd by (simp_all add: chat_conn_def)
  have fd: "c_fd c \<noteq> c_fd d" by (rule srv_inv_fds [OF inv dp(1,2)]) (use d(4) in simp)
  from OnRead_arrival [OF cc(1,2) up(1) frame_nonempty(1) up(2), of e ce] obtain b where
    rd: "OnRead e ce (arrival (e_is_et e) chunks) p w = OnProcess e ce p (put_conn p (c\<lparr>c_read_buff := b\<rparr>) w)"
      "contents b = frame payload" "chat_conn p (c\<lparr>c_read_buff := b\<rparr>) (put_conn p (c\<lparr>c_read_buff := b\<rparr>) w)" .
  let ?c = "c\<lparr>c_read_buff := b\<rparr>"
  let ?w = "put_conn p ?c w"
  have pd: "chat_conn q d ?w" by (rule chat_conn_frame [OF dd(1)]) (use d(4) in \<open>simp, simp_all add: put_conn_def\<close>)
  have dec: "decode_bytes (e_parse e) (contents (c_read_buff ?c)) = (Some request, [])"
    using decode_frame [OF up(3), of "e_parse e" "[]"] rd(2) req(1) by simp
  have li: "is_logged_in ?c" using c(2) by (simp add: is_logged_in_def)
  have on: "w_online ?w (receiver_id req) = Some q" using d(3) by (simp add: put_conn_def)
  have sr: "e_serialize e (p2p_envelope (e_time e) (req\<lparr>sender_id := c_user_id ?c\<rparr>)) = Some s" using s by simp
  obtain rb wb where r: "ProtobufHandler_Process e p ?w =
      Some (True, put_conn p (?c\<lparr>c_read_buff := rb, c_write_buff := wb\<rparr>) (delivered (e_is_et e) q d s req ?w))"
    "buf_ok rb" "contents rb = []" "buf_ok wb"
    "contents wb = contents (c_write_buff ?c) @ response_bytes e (p2p_ack e request req)"
    by (rule ProtobufHandler_p2p [OF rd(3) li dec req(2-5) pd d(2) on d(4) sr])
  let ?c1 = "c\<lparr>c_read_buff := rb, c_write_buff := wb\<rparr>"
  let ?w1 = "put_conn p ?c1 (delivered (e_is_et e) q d s req ?w)"
  let ?w2 = "put_conn p (?c1\<lparr>c_events := ce OR EPOLLOUT\<rparr>) (?w1\<lparr>w_interest := (w_interest ?w1)(c_fd ?c1 \<mapsto> ce OR EPOLLOUT)\<rparr>)"
  have "determine_protocol ?c = (True, ?c)" using cc(5) by (simp add: determine_protocol_def)
  then have "conn_process e p ?w = Some (True, ?w1)"
    using r(1) dp(3) by (simp add: conn_process_def) (simp add: put_conn_def)
  moreover have c1: "chat_conn p ?c1 ?w1"
    using cc(1) dd(1) r(2,4) by (auto simp: chat_conn_def delivered_def put_conn_def deref_def)
  moreover note re = rearm_exact [OF c1, of "ce OR EPOLLOUT"]
  ultimately have run: "OnRead e ce (arrival (e_is_et e) chunks) p w = Some ?w2"
    using rd(1) by (simp add: OnProcess_def)
  show thesis
  proof (rule that [OF run])
    show "chat_conn p (?c1\<lparr>c_events := ce OR EPOLLOUT\<rparr>) ?w2"
      using c1 by (simp add: chat_conn_def) (auto simp: put_conn_def)
    show "chat_conn q (d\<lparr>c_outgoing := [frame s], c_events := push_events (e_is_et e)\<rparr>) ?w2"
      using dd d(4) cc(1) by (auto simp: chat_conn_def delivered_def put_conn_def deref_def)
    show "w_interest ?w2 (c_fd d) = Some (push_events (e_is_et e))"
      using fd by (simp add: put_conn_def delivered_def)
    show "wr_queue (w_writer ?w2) = wr_queue (w_writer w) @ [req]"
      by (simp add: put_conn_def delivered_def writer_Enqueue_def)
  qed (use cc dd r(3,5) in \<open>simp_all add: put_conn_def\<close>)
qed

text \<open>A write task that keeps its connection does not touch another one.\<close>

lemma OnWrite_other:
  assumes "OnWrite e ce rs q w = Some (w', out)" and "deref q w' = Some d'" and "\<not> c_is_close d'" and "chat_conn p c w" and "p \<noteq> q"
  shows "chat_conn p c w'"
proof -
  obtain d ret err d1 where d: "deref q w = Some d" "conn_write (e_is_et e) rs d = Some (ret, err, d1, out)"
    using assms(1) by (auto simp: OnWrite_def bind_eq_Some_conv)
  have "\<exists>ev. rearm q ev (put_conn q d1 w) = Some w'"
  proof (rule ccontr)
    assume "\<not> ?thesis"
    then have "CloseConn q (put_conn q d1 w) = Some w'"
      using assms(1) d by (auto simp: OnWrite_def Let_def bind_eq_Some_conv split: if_splits)
    moreover have "deref q (put_conn q d1 w) = Some d1" by simp
    ultimately have "w_objs w' q = Some (d1\<lparr>c_is_close := True\<rparr>)"
      by (metis CloseConn_effect fun_upd_same option.inject)
    then show False using assms(2,3) by (auto simp: deref_def)
  qed
  then obtain ev where "rearm q ev (put_conn q d1 w) = Some w'" by blast
  then show ?thesis
    using assms(4,5) by (auto simp: rearm_def modFd_def put_conn_def deref_def chat_conn_def split: if_splits)
qed

section \<open>At the clients\<close>

text \<open>A frame that arrives in pieces.\<close>

lemma listener_frame:
  assumes "cl_running cl" and "unpack d = Some env" and "length d \<le> kMaxPacket" and "concat segs = frame d" and "[] \<notin> set segs"
  shows "\<exists>rest. ListenerLoop unpack cl segs = (handle_packet env cl, rest) \<and> concat rest = []"
proof -
  have "concat segs = concat (map frame [d]) @ []" using assms(4) by simp
  from ListenerLoop_frames [OF assms(1) _ this assms(5), of unpack] assms(2,3) obtain r where
    r: "ListenerLoop unpack cl segs = ListenerLoop unpack (handle_packet env cl) r" "concat r = []" "[] \<notin> set r"
    by (auto simp: handle_all_def List.map_filter_simps simp del: concat_eq_Nil_conv)
  have "listen_pass unpack (handle_packet env cl) r = Wait"
    by (rule listen_pass_waits [OF r(3)]) (simp add: r(2) incomplete_def del: concat_eq_Nil_conv)
  with r(1,2) show ?thesis
    by (simp add: ListenerLoop.simps [of unpack "handle_packet env cl" r] del: concat_eq_Nil_conv)
qed

text \<open>A request whose answer arrives while it waits.\<close>

lemma request_returns:
  assumes cl: "cl_connected cl" "cl_running cl" and d: "unpack d = Some response" "length d \<le> kMaxPacket"
    and segs: "concat segs = frame d" "[] \<notin> set segs" and cmd: "env_cmd response = expected"
      "expected \<notin> {CMD_FRIEND_REQ_PUSH, CMD_FRIEND_STATUS_PUSH, CMD_P2P_MSG_PUSH}"
    and sent: "sent = int (length (frame (serialize request)))"
  shows "\<exists>rest. SendRequestAndWait serialize unpack sent segs request expected cl =
     (Some response, cl\<lparr>cl_response := response, cl_has_response := True\<rparr>, rest, Some (frame (serialize request))) \<and>
     concat rest = []"
proof -
  have "cl_running (cl\<lparr>cl_has_response := False\<rparr>)" using cl by simp
  from listener_frame [where unpack = unpack, OF this d segs] obtain rest where
    l: "ListenerLoop unpack (cl\<lparr>cl_has_response := False\<rparr>) segs = (handle_packet response (cl\<lparr>cl_has_response := False\<rparr>), rest)"
      "concat rest = []" by blast
  have "handle_packet response (cl\<lparr>cl_has_response := False\<rparr>) = cl\<lparr>cl_response := response, cl_has_response := True\<rparr>"
    using cmd by (simp add: handle_packet_def)
  with l cl cmd sent show ?thesis
    by (simp add: SendRequestAndWait_def SendEnvelope_def Let_def del: concat_eq_Nil_conv)
qed

definition chat_message :: "u64 \<Rightarrow> u64 \<Rightarrow> bytes \<Rightarrow> int \<Rightarrow> P2PMessage" where
  "chat_message a b txt t = \<lparr>msg_id = 0, sender_id = a, receiver_id = b, content_type = 0, content = txt, timestamp = t\<rparr>"

text \<open>The chat panel for the friend \<open>f\<close> is open, with a connection.\<close>

definition chatting :: "u64 \<Rightarrow> IMClient \<Rightarrow> bool" where
  "chatting f ui \<longleftrightarrow> current_page ui = page_index MAIN \<and> current_panel (home ui) = panel_index CHAT \<and>
     current_chat_friend_id (home ui) = f \<and> cl_connected (manager ui) \<and> cl_running (manager ui)"

text \<open>\<open>m\<close> is the last message of the conversation with \<open>f\<close>, the last line of the panel shows it, and the
  panel is on the screen.\<close>

definition shows_last :: "(nat \<Rightarrow> bool) \<Rightarrow> u64 \<Rightarrow> P2PMessage \<Rightarrow> IMClient \<Rightarrow> bool" where
  "shows_last focused f m ui \<longleftrightarrow> (\<exists>hs v. history (manager ui) f = hs @ [m] \<and>
     chat_lines f focused (chat ui) (manager ui) =
       map (\<lambda>i. bubble (cl_user_id (manager ui)) (focused i) ((hs @ [m]) ! i)) [0..<Suc (length hs)] \<and>
     screen focused ui = Some v \<and> content m \<in> set (element_texts v))"

lemma bubble_text: "content m \<in> set (element_texts (bubble me b m))"
  by (simp add: bubble_def Let_def)

lemma chatting_screen:
  assumes "current_page ui = page_index MAIN" and "current_panel (home ui) = panel_index CHAT"
    and "current_chat_friend_id (home ui) = f"
  shows "\<exists>v. screen focused ui = Some v \<and>
    (\<forall>x\<in>set (chat_lines f focused (chat ui) (manager ui)). set (element_texts x) \<subseteq> set (element_texts v))"
  using assms
  by (auto simp: screen_def page_view_def home_view_def right_panel_def tab_view_def panel_index.simps page_index.simps
      chat_view_def Modal_view_def)

lemma Draw_shows_last:
  assumes "current_page ui = page_index MAIN" "current_panel (home ui) = panel_index CHAT"
      "current_chat_friend_id (home ui) = f" "f \<noteq> 0" and h: "history (manager ui) f = hs @ [m]"
  shows "\<exists>ui'. ui_step Draw ui = Some ui' \<and> shows_last focused f m ui'"
proof -
  obtain ch cl where r: "chat_renderer f (chat ui, manager ui) = (ch, cl)" by fastforce
  note l = chat_renderer_lines [OF r assms(4)]
  let ?ui = "ui\<lparr>chat := ch, manager := cl\<rparr>"
  have hist: "history cl f = hs @ [m]" using l(2) h by simp
  have lines: "chat_lines f focused ch cl =
      map (\<lambda>i. bubble (cl_user_id cl) (focused i) ((hs @ [m]) ! i)) [0..<Suc (length hs)]"
    using chat_lines_history [OF l(1), of focused] hist by simp
  obtain v where v: "screen focused ?ui = Some v"
      "\<forall>x\<in>set (chat_lines f focused ch cl). set (element_texts x) \<subseteq> set (element_texts v)"
    using chatting_screen [of ?ui f focused] assms(1-3) by auto
  have "bubble (cl_user_id cl) (focused (length hs)) m \<in> set (chat_lines f focused ch cl)"
    unfolding lines by auto
  with v(2) bubble_text have "content m \<in> set (element_texts v)" by blast
  with v(1) hist lines r assms(3) show ?thesis by (auto simp: shows_last_def)
qed

text \<open>What the sender hands to the network, what it then has on the screen, and what the receiver has.\<close>

lemma sender_shows:
  assumes ui: "chatting b ui" "b \<noteq> 0" "draft (chat ui) = txt" "txt \<noteq> []"
    and req: "request = request_envelope (n_clock n 1) CMD_P2P_MSG_REQ
      (p2p_msg_req (chat_message (cl_user_id (manager ui)) b txt (n_clock n 0)))"
      "n_sent n = int (length (frame (n_serialize n request)))"
    and ack: "n_parse n d = Some response" "length d \<le> kMaxPacket" "env_cmd response = CMD_MSG_ACK"
      "env_payload response = msg_ack a" "ack_success a" "concat (n_incoming n) = frame d" "[] \<notin> set (n_incoming n)"
  shows "\<exists>ui' cl rest. run_events ui_step [ClickSend n, Draw] ui = Some ui' \<and>
     shows_last focused b (chat_message (cl_user_id (manager ui)) b txt (n_clock n 0)) ui' \<and> draft (chat ui') = [] \<and>
     SendP2PMessage n b txt (manager ui) = (Inr (), cl, rest, Some (frame (n_serialize n request)))"
proof -
  let ?m = "chat_message (cl_user_id (manager ui)) b txt (n_clock n 0)"
  let ?cl = "(manager ui)\<lparr>cl_response := response, cl_has_response := True\<rparr>"
  have c: "cl_connected (manager ui)" "cl_running (manager ui)" using ui(1) by (simp_all add: chatting_def)
  obtain rest where r: "SendRequestAndWait (n_serialize n) (n_parse n) (n_sent n) (n_incoming n) request CMD_MSG_ACK (manager ui) =
      (Some response, ?cl, rest, Some (frame (n_serialize n request)))"
    using request_returns [where unpack = "n_parse n" and expected = CMD_MSG_ACK and serialize = "n_serialize n" and request = request, OF c ack(1,2,6,7,3) _ req(2)] by auto
  have s: "SendP2PMessage n b txt (manager ui) = (Inr (), history_push b ?m ?cl, rest, Some (frame (n_serialize n request)))"
    using r ack(4,5) req(1) by (simp add: SendP2PMessage_def perform_request_def Let_def chat_message_def)
  let ?ui = "ui\<lparr>manager := history_push b ?m ?cl, chat := (chat ui)\<lparr>draft := []\<rparr>\<rparr>"
  have click: "ui_step (ClickSend n) ui = Some ?ui"
    using ui s by (simp add: btn_send_def on_send_def chatting_def)
  have h: "history (manager ?ui) b = history ?cl b @ [?m]" by (simp add: history_push_def)
  have "current_page ?ui = page_index MAIN" "current_panel (home ?ui) = panel_index CHAT"
    "current_chat_friend_id (home ?ui) = b" using ui(1) by (simp_all add: chatting_def)
  from Draw_shows_last [OF this ui(2) h, of focused] obtain ui' where
    d: "ui_step Draw ?ui = Some ui'" "shows_last focused b ?m ui'" by blast
  have "draft (chat ui') = []"
    using d(1) chat_renderer_lines(4) [OF _ ui(2)] ui(1) by (auto simp: chatting_def split: prod.splits)
  with click d s show ?thesis by auto
qed

lemma receiver_shows:
  assumes ui: "chatting a ui" "a \<noteq> 0" and d: "unpack s = Some (p2p_envelope t m)" "length s \<le> kMaxPacket" "sender_id m = a"
    and segs: "concat segs = frame s" "[] \<notin> set segs"
  shows "\<exists>ui'. run_events ui_step [Receive unpack segs, Draw] ui = Some ui' \<and> shows_last focused a m ui'"
proof -
  have "cl_running (manager ui)" using ui(1) by (simp add: chatting_def)
  from listener_frame [where unpack = unpack, OF this d(1,2) segs] obtain rest where
    l: "ListenerLoop unpack (manager ui) segs = (handle_packet (p2p_envelope t m) (manager ui), rest)" by blast
  let ?ui = "ui\<lparr>manager := handle_packet (p2p_envelope t m) (manager ui)\<rparr>"
  have h: "history (manager ?ui) a = history (manager ui) a @ [m]"
    using d(3) by (simp add: handle_packet_def p2p_envelope_def message_of_def Let_def notify_def history_push_def)
  have "current_page ?ui = page_index MAIN" "current_panel (home ?ui) = panel_index CHAT"
    "current_chat_friend_id (home ?ui) = a" using ui(1) by (simp_all add: chatting_def)
  from Draw_shows_last [OF this ui(2) h, of focused] l show ?thesis by auto
qed

end
