(* ===== verification/Server_Main.thy ===== *)
theory Server_Main
  imports Server_Setup
begin

text \<open>
  The server's program (\<open>main.cpp\<close>): the options, the constructor, the loop of \<open>Start\<close> until a
  signal ends it, and the destructor.

  Model. A round is one pass of the loop with everything from outside that happens in it: the clock,
  the connections that wait to be accepted, the events that the kernel reports, the tasks that the
  workers run before the loop tests \<open>is_close_\<close> again, and whether a signal arrives. The list of
  rounds may end while the server runs.
\<close>

section \<open>Rounds\<close>

datatype work = DoRead nat "bytes sysret list" | DoWrite nat "nat sysret list" | DoPush u64 | DoLate nat bytes

record round =
  r_stray :: int
  r_clock :: "nat \<Rightarrow> int"
  r_now :: int
  r_accepts :: "(int \<times> nat \<times> int) list"
  r_reported :: "(int \<times> u32) list option"
  r_work :: "work list"
  r_signal :: bool

text \<open>A worker takes a task from the queue and runs it, or ends a push that it began before.\<close>

fun do_work :: "('db, 'sc) server_env \<Rightarrow> work \<Rightarrow> ('db, 'sc) server \<Rightarrow> ('db, 'sc) server option" where
  "do_work e (DoRead p rs) s =
     (if OnReadTask p \<in> set (w_tasks (s_world s))
      then on_world (\<lambda>w. OnRead e (s_conn_event s) rs p (take_task (OnReadTask p) w)) s else Some s)"
| "do_work e (DoWrite p rs) s =
     (if OnWriteTask p \<in> set (w_tasks (s_world s))
      then on_world (\<lambda>w. map_option fst (OnWrite e (s_conn_event s) rs p (take_task (OnWriteTask p) w))) s else Some s)"
| "do_work e (DoPush u) s =
     (if PushPendingTask u \<in> set (w_tasks (s_world s))
      then on_world (\<lambda>w. pending_task e u (take_task (PushPendingTask u) w)) s else Some s)"
| "do_work e (DoLate p d) s = on_world (push_found e (Some p) d) s"

fun do_works :: "('db, 'sc) server_env \<Rightarrow> work list \<Rightarrow> ('db, 'sc) server \<Rightarrow> ('db, 'sc) server option" where
  "do_works e [] s = Some s"
| "do_works e (wk # wks) s = do { s1 \<leftarrow> do_work e wk s; do_works e wks s1 }"

definition Start_round ::
  "('db, 'sc) server_env \<Rightarrow> round \<Rightarrow> int \<Rightarrow> ('db, 'sc) server_object \<Rightarrow> (int \<times> ('db, 'sc) server_object) option" where
  "Start_round e r time_ms i =
     (let (event_cnt, ep) = Epoller_Wait (r_reported r) (i_epoller i) in
      do { evs \<leftarrow> read_events event_cnt ep;
           (ms, s1) \<leftarrow> Start_pass (r_stray r) (r_clock r) (r_now r) (r_accepts r) evs time_ms (i_server i);
           s2 \<leftarrow> do_works e (r_work r) s1;
           let i1 = i\<lparr>i_server := s2, i_epoller := ep\<rparr> in
           Some (ms, if r_signal r then the (signal_handler (Some i1)) else i1) })"

fun Start_loop ::
  "('db, 'sc) server_env \<Rightarrow> round list \<Rightarrow> int \<Rightarrow> ('db, 'sc) server_object \<Rightarrow> ('db, 'sc) server_object option" where
  "Start_loop e [] time_ms i = Some i"
| "Start_loop e (r # rs) time_ms i =
     (if i_is_close i then Some i else do { (ms, i1) \<leftarrow> Start_round e r time_ms i; Start_loop e rs ms i1 })"

definition Webserver_Start ::
  "('db, 'sc) server_env \<Rightarrow> (nat \<Rightarrow> moment) \<Rightarrow> round list \<Rightarrow> ('db, 'sc) server_object \<Rightarrow> ('db, 'sc) server_object option" where
  "Webserver_Start e at rounds i =
     do { lg \<leftarrow> (if \<not> i_is_close i then log_all at 0 [(1, ''========== Server start =========='')] (i_log i) else Some (i_log i));
          Start_loop e rounds (-1) (i\<lparr>i_log := lg\<rparr>) }"

section \<open>The program\<close>

datatype ('db, 'sc) program = Exit int "('db, 'sc) server_object option" | Running "('db, 'sc) server_object"

text \<open>\<open>order\<close> is the order in which the map of connections is destroyed.\<close>

definition main_program ::
  "('db, 'sc) server_env \<Rightarrow> string \<Rightarrow> boot \<Rightarrow> int set \<Rightarrow> 'db \<Rightarrow> 'sc msg_writer \<Rightarrow> scylla_session \<Rightarrow> round list \<Rightarrow>
   (nat \<Rightarrow> moment) \<Rightarrow> (nat \<Rightarrow> moment) \<Rightarrow> ((int \<Rightarrow> nat option) \<Rightarrow> nat list) \<Rightarrow> ('db, 'sc) program option" where
  "main_program e opts b fds db wr ss rounds at1 at2 order =
     (case parse_options opts True of
        None \<Rightarrow> Some (Exit 1 None)
      | Some open_log \<Rightarrow>
          do { server \<leftarrow> Webserver_new (main_config open_log) b fds db wr ss;
               server1 \<leftarrow> Webserver_Start e at1 rounds server;
               if i_is_close server1
               then do { server2 \<leftarrow> Webserver_delete at2 (order (w_connections (s_world (i_server server1)))) server1;
                         Some (Exit 0 (Some server2)) }
               else Some (Running server1) })"

section \<open>What the loop keeps\<close>

text \<open>
  What a round relies on: the kernel gives new descriptors and addresses to accepted connections,
  reports a descriptor once and no more events than the array holds.
\<close>

abbreviation reported_events :: "round \<Rightarrow> (int \<times> u32) list" where
  "reported_events r \<equiv> (case r_reported r of None \<Rightarrow> [] | Some evs \<Rightarrow> evs)"

definition round_ok :: "round \<Rightarrow> int \<Rightarrow> ('db, 'sc) server_object \<Rightarrow> bool" where
  "round_ok r time_ms i \<longleftrightarrow>
     distinct (map fst (reported_events r)) \<and> length (reported_events r) \<le> length (ep_events (i_epoller i)) \<and>
     (\<forall>ms s. next_wait (r_stray r) (r_clock r) time_ms (i_server i) = Some (ms, s) \<longrightarrow>
        fresh_accepts (r_accepts r) (s_world s))"

fun rounds_ok :: "('db, 'sc) server_env \<Rightarrow> round list \<Rightarrow> int \<Rightarrow> ('db, 'sc) server_object \<Rightarrow> bool" where
  "rounds_ok e [] time_ms i \<longleftrightarrow> True"
| "rounds_ok e (r # rs) time_ms i \<longleftrightarrow> i_is_close i \<or>
     round_ok r time_ms i \<and> (\<forall>ms i1. Start_round e r time_ms i = Some (ms, i1) \<longrightarrow> rounds_ok e rs ms i1)"

lemma on_world_listen: "on_world f s = Some s' \<Longrightarrow> s_listen_fd s' = s_listen_fd s"
  by (auto simp: on_world_def)

lemma AddClient_listen: "AddClient stray now fd p s = Some s' \<Longrightarrow> s_listen_fd s' = s_listen_fd s"
  by (auto simp: AddClient_def bind_eq_Some_conv split: if_splits dest!: on_world_listen)

lemma DealListen_listen: "DealListen stray accepts s = Some s' \<Longrightarrow> s_listen_fd s' = s_listen_fd s"
proof (induction accepts arbitrary: s)
  case (Cons a accepts)
  obtain fd p now where a: "a = (fd, p, now)" by (cases a)
  let ?s = "s\<lparr>s_world := accept_fd fd (s_world s)\<rparr>"
  note run = Cons.prems [unfolded a DealListen.simps Let_def]
  show ?case
  proof (cases "fd \<le> 0 \<or> w_user_count (s_world s) \<ge> MAX_FD")
    case True
    then have "s' = s \<or> on_world (SendError fd) ?s = Some s'" using run by (simp split: if_splits)
    then show ?thesis by (auto dest: on_world_listen)
  next
    case False
    then obtain s1 where s1: "AddClient stray now fd p ?s = Some s1"
      "s' = s1 \<or> DealListen stray accepts s1 = Some s'"
      using run by (cases "AddClient stray now fd p ?s") (simp_all split: if_splits)
    from s1(2) AddClient_listen [OF s1(1)] Cons.IH [of s1] show ?thesis by auto
  qed
qed simp

lemma handle_event_listen: "handle_event stray now accepts ev s = Some s' \<Longrightarrow> s_listen_fd s' = s_listen_fd s"
  by (cases ev) (auto simp: handle_event_def DealRead_def DealWrite_def ExtendTime_def bind_eq_Some_conv
      split: if_splits dest: DealListen_listen dest!: on_world_listen)

lemma CloseConn_less:
  assumes "CloseConn p w = Some w'"
  shows "w_open w' \<subseteq> w_open w" and "deref q w = None \<Longrightarrow> deref q w' = None"
proof -
  obtain c where c: "deref p w = Some c" using assms by (cases "deref p w") (auto simp: CloseConn_def)
  have *: "w_open w' = (if c_is_close c then w_open w else w_open w - {c_fd c}) \<and>
      w_objs w' = (w_objs w)(p \<mapsto> c\<lparr>c_is_close := True\<rparr>)"
    by (rule CloseConn_effect [OF c]) (use assms in simp)
  then show "w_open w' \<subseteq> w_open w" by auto
  show "deref q w = None \<Longrightarrow> deref q w' = None" using * c by (auto simp: deref_def)
qed

text \<open>An event that is not for the listening socket accepts nothing and leaves the waiting
  connections fresh.\<close>

lemma handle_event_conn:
  assumes run: "handle_event stray now accepts ev s = Some s'" and ev: "fst ev \<noteq> s_listen_fd s"
  shows "handle_event stray now accepts' ev s = Some s'"
    and "fresh_accepts accepts (s_world s) \<Longrightarrow> fresh_accepts accepts (s_world s')"
proof -
  show "handle_event stray now accepts' ev s = Some s'" using run ev by (auto simp: handle_event_def split: prod.splits)
  have "(\<exists>p. CloseConn p (s_world s) = Some (s_world s')) \<or>
      w_open (s_world s') = w_open (s_world s) \<and> w_objs (s_world s') = w_objs (s_world s)"
    using run ev
    by (cases ev) (auto simp: handle_event_def on_world_def DealRead_def DealWrite_def ExtendTime_def bind_eq_Some_conv
        split: if_splits)
  then show "fresh_accepts accepts (s_world s')" if "fresh_accepts accepts (s_world s)"
  proof (elim disjE exE conjE)
    fix p assume "CloseConn p (s_world s) = Some (s_world s')"
    from CloseConn_less [OF this] that show ?thesis unfolding fresh_accepts_def by blast
  qed (use that in \<open>simp add: fresh_accepts_def deref_def\<close>)
qed

lemma fold_deliver:
  "static w (fold (\<lambda>ev. deliver (fst ev)) evs w)"
  "fresh_accepts accepts (fold (\<lambda>ev. deliver (fst ev)) evs w) = fresh_accepts accepts w"
  by (induction evs arbitrary: w) (auto simp: fresh_deliver intro: static_trans [OF deliver_static])

lemma read_events_wait:
  "Epoller_Wait (r_reported r) ep = (cnt, ep') \<Longrightarrow> read_events cnt ep' = Some (reported_events r)"
  using read_events_reported [of "r_reported r" ep] by simp

text \<open>The whole loop keeps what its elementary steps keep.\<close>

context served_property
begin

lemma keeps_work:
  assumes I: "keeps (s_world s)" and run: "do_work e wk s = Some s'"
  shows "keeps (s_world s')"
proof (cases wk)
  case (DoRead p rs)
  with run I keeps_read [OF I] show ?thesis by (auto simp: on_world_def split: if_splits)
next
  case (DoWrite p rs)
  with run I keeps_write [OF I] show ?thesis by (auto simp: on_world_def split: if_splits)
next
  case (DoPush u)
  with run I keeps_pending [OF I] show ?thesis by (auto simp: on_world_def split: if_splits)
next
  case (DoLate p d)
  with run keeps_late_push [OF I] show ?thesis by (auto simp: on_world_def)
qed

lemma keeps_works: "keeps (s_world s) \<Longrightarrow> do_works e wks s = Some s' \<Longrightarrow> keeps (s_world s')"
  by (induction e wks s rule: do_works.induct) (auto simp: bind_eq_Some_conv dest: keeps_work)

lemma keeps_conn_events:
  assumes "keeps (s_world s)" and "s_listen_fd s \<notin> set (map fst evs)" and "handle_events stray now accepts evs s = Some s'"
  shows "keeps (s_world s')"
  using assms
proof (induction evs arbitrary: s)
  case (Cons ev evs)
  obtain s1 where s1: "handle_event stray now accepts ev s = Some s1" "handle_events stray now accepts evs s1 = Some s'"
    using Cons.prems(3) by (auto simp: bind_eq_Some_conv)
  have "handle_event stray now [] ev s = Some s1" by (rule handle_event_conn [OF s1(1)]) (use Cons.prems(2) in auto)
  then have "keeps (s_world s1)" by (rule keeps_event [OF Cons.prems(1), rotated]) (simp add: fresh_accepts_def)
  with Cons.IH s1 Cons.prems(2) handle_event_listen [OF s1(1)] show ?case by simp
qed simp

lemma keeps_events:
  assumes "keeps (s_world s)" and "fresh_accepts accepts (s_world s)" and "distinct (map fst evs)"
    and "handle_events stray now accepts evs s = Some s'"
  shows "keeps (s_world s')"
  using assms
proof (induction evs arbitrary: s)
  case (Cons ev evs)
  obtain s1 where s1: "handle_event stray now accepts ev s = Some s1" "handle_events stray now accepts evs s1 = Some s'"
    using Cons.prems(4) by (auto simp: bind_eq_Some_conv)
  have I: "keeps (s_world s1)" by (rule keeps_event [OF Cons.prems(1,2) s1(1)])
  show ?case
  proof (cases "fst ev = s_listen_fd s")
    case True
    with Cons.prems(3) handle_event_listen [OF s1(1)] show ?thesis
      by (intro keeps_conn_events [OF I _ s1(2)]) auto
  next
    case False
    with Cons.IH [OF I handle_event_conn(2) [OF s1(1)]] Cons.prems(2,3) s1(2) show ?thesis by simp
  qed
qed simp

lemma keeps_round:
  assumes I: "keeps (s_world (i_server i))" and ok: "round_ok r t i" and run: "Start_round e r t i = Some (ms, i')"
  shows "keeps (s_world (i_server i'))"
proof -
  obtain cnt ep where w: "Epoller_Wait (r_reported r) (i_epoller i) = (cnt, ep)" by fastforce
  obtain s1 s2 where s: "Start_pass (r_stray r) (r_clock r) (r_now r) (r_accepts r) (reported_events r) t (i_server i) = Some (ms, s1)"
    "do_works e (r_work r) s1 = Some s2" "s_world (i_server i') = s_world s2"
    using run unfolding Start_round_def w Let_def prod.case read_events_wait [OF w]
    by (auto simp: bind_eq_Some_conv signal_handler_def Webserver_Stop_def split: if_splits)
  obtain s0 where s0: "next_wait (r_stray r) (r_clock r) t (i_server i) = Some (ms, s0)"
    "handle_events (r_stray r) (r_now r) (r_accepts r) (reported_events r)
       (s0\<lparr>s_world := fold (\<lambda>ev. deliver (fst ev)) (reported_events r) (s_world s0)\<rparr>) = Some s1"
    using s(1) by (auto simp: Start_pass_def bind_eq_Some_conv)
  have k: "fresh_accepts (r_accepts r) (s_world s0)" "distinct (map fst (reported_events r))"
    using ok s0(1) unfolding round_ok_def by blast+
  have "keeps (s_world s0)" by (rule keeps_wait [OF I s0(1)])
  then have "keeps (fold (\<lambda>ev. deliver (fst ev)) (reported_events r) (s_world s0))"
    by (rule keeps_static [OF fold_deliver(1)])
  then have "keeps (s_world s1)" by (intro keeps_events [OF _ _ k(2) s0(2)]) (use k(1) in \<open>simp_all add: fold_deliver(2)\<close>)
  from keeps_works [OF this s(2)] s(3) show ?thesis by simp
qed

lemma keeps_loop:
  "keeps (s_world (i_server i)) \<Longrightarrow> rounds_ok e rs t i \<Longrightarrow> Start_loop e rs t i = Some i' \<Longrightarrow> keeps (s_world (i_server i'))"
  by (induction e rs t i rule: Start_loop.induct) (auto simp: bind_eq_Some_conv dest: keeps_round split: if_splits)

end

text \<open>The open descriptors that do not belong to a connection.\<close>

definition other_fds :: "('db, 'sc) world \<Rightarrow> int set" where
  "other_fds w = w_open w - open_fds (w_objs w)"

lemma served_fds: "served p w w' \<Longrightarrow> other_fds w' = other_fds w"
proof -
  assume s: "served p w w'"
  have "open_fds (w_objs w') = open_fds (w_objs w)"
    using served_deref [OF s] unfolding open_fds_def deref_def by auto metis+
  with s show ?thesis by (simp add: other_fds_def served_def)
qed

lemma closed_fds:
  assumes I: "base_inv w" and run: "CloseConn p w = Some w'"
  shows "other_fds w' = other_fds w"
proof -
  obtain c where c: "deref p w = Some c" using run by (cases "deref p w") (auto simp: CloseConn_def)
  have w': "w_open w' = (if c_is_close c then w_open w else w_open w - {c_fd c}) \<and>
      w_objs w' = (w_objs w)(p \<mapsto> c\<lparr>c_is_close := True\<rparr>)"
    by (rule CloseConn_effect [OF c]) (use run in simp)
  let ?rest = "open_fds ((w_objs w)(p := None))"
  have "open_fds (w_objs w') = ?rest"
    using open_fds_remove [of "w_objs w'" p "c\<lparr>c_is_close := True\<rparr>"] w' by simp
  moreover have "open_fds (w_objs w) = (if c_is_close c then {} else {c_fd c}) \<union> ?rest"
    by (rule open_fds_remove) (use c in \<open>simp add: deref_def\<close>)
  moreover have "c_fd c \<notin> ?rest"
    using I c unfolding base_inv_def owned_def open_fds_def deref_def by (auto split: if_splits) (metis option.inject)
  ultimately show ?thesis using w' by (auto simp: other_fds_def)
qed

lemma accepted_fds:
  assumes I: "base_inv w" and p: "deref p w = None" and fd: "fd > 0" "fd \<notin> w_open w"
    and run: "insert_conn fd p (accept_fd fd w) = Some w1" "register_conn ce fd p w1 = Some w2"
  shows "other_fds w2 = other_fds w"
proof -
  obtain c where c: "c_fd c = fd" "\<not> c_is_close c"
    and d: "\<forall>q. deref q w2 = (if q = p then Some c else if w_connections w fd = Some q then None else deref q w)"
    and old: "\<forall>q x. w_connections w fd = Some q \<longrightarrow> deref q w = Some x \<longrightarrow> c_is_close x"
    and o: "w_open w2 = insert fd (w_open w)"
    by (rule accept_effect [OF I p fd run]) blast
  have "open_fds (w_objs w2) = insert fd (open_fds (w_objs w))"
  proof (intro set_eqI iffI)
    fix f assume "f \<in> open_fds (w_objs w2)"
    then obtain q x where "deref q w2 = Some x" "\<not> c_is_close x" "f = c_fd x" by (auto simp: open_fds_def deref_def)
    with d c(1) show "f \<in> insert fd (open_fds (w_objs w))"
      by (auto simp: open_fds_def deref_def split: if_splits)
  next
    fix f assume "f \<in> insert fd (open_fds (w_objs w))"
    then consider "f = fd" | q x where "deref q w = Some x" "\<not> c_is_close x" "f = c_fd x"
      by (auto simp: open_fds_def deref_def)
    then show "f \<in> open_fds (w_objs w2)"
    proof cases
      case 1
      from d have "w_objs w2 p = Some c" by (simp add: deref_def)
      with 1 c show ?thesis unfolding open_fds_def by blast
    next
      case 2
      with old p have "q \<noteq> p" "w_connections w fd \<noteq> Some q" by auto
      with 2 d have "deref q w2 = Some x" by simp
      with 2 show ?thesis unfolding open_fds_def deref_def by blast
    qed
  qed
  with o fd(2) show ?thesis by (auto simp: other_fds_def)
qed

interpretation fds: served_property "\<lambda>w. other_fds w = base"
  for base :: "int set"
  by unfold_locales (simp_all add: served_fds closed_fds accepted_fds)

section \<open>The end of the program\<close>

lemma Start_loop_closed [simp]: "i_is_close i \<Longrightarrow> Start_loop e rs t i = Some i"
  by (cases rs) simp_all

text \<open>The loop ends with the round in which a signal arrives; what would come after is not reached.\<close>

lemma Start_loop_signal:
  assumes "r_signal r"
  shows "Start_loop e (rs @ r # rs') t i = Start_loop e (rs @ [r]) t i"
    and "Start_loop e (rs @ [r]) t i = Some i' \<Longrightarrow> i_is_close i'"
proof -
  have stop: "i_is_close i1" if "Start_round e r t i = Some (ms, i1)" for t ms and i i1 :: "('a, 'b) server_object"
    using that assms by (auto simp: Start_round_def Let_def bind_eq_Some_conv signal_handler_def Webserver_Stop_def split: prod.splits)
  show "Start_loop e (rs @ r # rs') t i = Start_loop e (rs @ [r]) t i"
  proof (induction rs arbitrary: t i)
    case Nil
    show ?case by (auto simp: stop split: bind_splits)
  qed (auto split: bind_splits)
  show "Start_loop e (rs @ [r]) t i = Some i' \<Longrightarrow> i_is_close i'"
  proof (induction rs arbitrary: t i)
    case Nil
    then show ?case by (auto simp: bind_eq_Some_conv dest: stop split: if_splits)
  qed (auto simp: bind_eq_Some_conv split: if_splits)
qed

lemma Epoller_Wait_fd: "Epoller_Wait reported ep = (n, ep') \<Longrightarrow> ep_fd ep' = ep_fd ep"
  by (auto simp: Epoller_Wait_def split: option.splits)

lemma Start_round_keeps:
  "Start_round e r t i = Some (ms, i') \<Longrightarrow> i_log i' = i_log i \<and> i_session i' = i_session i \<and> ep_fd (i_epoller i') = ep_fd (i_epoller i)"
  by (auto simp: Start_round_def Let_def bind_eq_Some_conv signal_handler_def Webserver_Stop_def split: prod.splits if_splits dest: Epoller_Wait_fd)

lemma Start_loop_keeps:
  "Start_loop e rs t i = Some i' \<Longrightarrow> i_log i' = i_log i \<and> i_session i' = i_session i \<and> ep_fd (i_epoller i') = ep_fd (i_epoller i)"
  by (induction e rs t i rule: Start_loop.induct) (auto simp: bind_eq_Some_conv dest: Start_round_keeps split: if_splits)

lemma Webserver_new_unlocked:
  assumes "Webserver_new g b fds db wr ss = Some i" and "\<not> ss_initialized ss"
  shows "\<not> ss_locked (i_session i)"
proof -
  obtain ready where "ScyllaSession_Init (b_cluster b) (b_session b) (b_connect b) ss = Some (ready, i_session i)"
    by (rule Webserver_new_parts [OF assms(1)]) blast
  with assms(2) show ?thesis
    by (auto simp: ScyllaSession_Init_def ScyllaSession_Close_def ss_lock_def ss_unlock_def Let_def
        split: if_splits dest!: sym [of _ "i_session i"])
qed

lemma base_inv_finite: "base_inv w \<Longrightarrow> finite (ran (w_connections w))"
proof -
  assume I: "base_inv w"
  then have "ran (w_connections w) = dom (w_objs w)" unfolding base_inv_def owned_def deref_def ran_def by fastforce
  with I show ?thesis by (simp add: base_inv_def)
qed

text \<open>The state in which the constructor leaves the server.\<close>

lemma new_server_world:
  assumes "Webserver_new g b fds db wr ss = Some i" and "b_socket b \<notin> insert (b_epoll b) fds"
  shows "s_world (i_server i) =
    (if i_is_close i then new_world (insert (b_epoll b) fds) db wr
     else (new_world (insert (b_epoll b) fds) db wr)\<lparr>w_open := insert (s_listen_fd (i_server i)) (insert (b_epoll b) fds),
       w_interest := [s_listen_fd (i_server i) \<mapsto> EPOLLIN OR s_listen_event (i_server i)]\<rparr>)"
proof -
  let ?w0 = "new_world (insert (b_epoll b) fds) db wr"
  obtain le ce et fd flags msg w where sock: "InitSocket b (g_port g) le ?w0 = Some (\<not> i_is_close i, fd, flags, msg, w)"
    and i: "i_server i = \<lparr>s_world = w, s_timer = HeapTimer_new, s_timeout_ms = g_timeout_ms g, s_listen_fd = fd,
       s_listen_event = le, s_conn_event = ce\<rparr>"
    by (rule Webserver_new_parts [OF assms(1)]) blast
  show ?thesis
  proof (cases "i_is_close i")
    case True
    have "fd = b_socket b" using sock by (auto simp: InitSocket_def Let_def split: if_splits prod.splits)
    with InitSocket_failed [of b "g_port g" le ?w0 fd flags msg w] sock True assms(2)
    have "w = ?w0" by (simp add: new_world_def)
    with True i show ?thesis by simp
  next
    case False
    with sock have "InitSocket b (g_port g) le ?w0 = Some (True, fd, flags, msg, w)" by simp
    from InitSocket_ok [OF this] False i show ?thesis by (simp add: new_world_def)
  qed
qed

lemma new_server_inv:
  assumes "Webserver_new g b fds db wr ss = Some i" and "b_socket b \<notin> insert (b_epoll b) fds"
  shows "base_inv (s_world (i_server i))"
  unfolding new_server_world [OF assms]
  by (auto simp: base_inv_def owned_def deref_def open_conns_def new_world_def)

lemma new_server_fds:
  assumes "Webserver_new g b fds db wr ss = Some i" and "b_socket b \<notin> insert (b_epoll b) fds" and "b_epoll b \<notin> fds"
  shows "other_fds (s_world (i_server i)) - {s_listen_fd (i_server i), ep_fd (i_epoller i)} = fds"
proof -
  have "s_listen_fd (i_server i) = b_socket b" "ep_fd (i_epoller i) = b_epoll b"
    by (rule Webserver_new_parts [OF assms(1)], auto simp: InitSocket_def Let_def split: if_splits prod.splits)+
  with assms(2,3) show ?thesis
    unfolding other_fds_def new_server_world [OF assms(1,2)] by (auto simp: new_world_def open_fds_def)
qed

lemma do_works_listen: "do_works e wks s = Some s' \<Longrightarrow> s_listen_fd s' = s_listen_fd s"
proof (induction wks arbitrary: s)
  case (Cons wk wks)
  have "s_listen_fd s1 = s_listen_fd s" if "do_work e wk s = Some s1" for s1
    using that by (cases wk) (auto split: if_splits dest: on_world_listen)
  with Cons show ?case by (auto simp: bind_eq_Some_conv)
qed simp

lemma handle_events_listen: "handle_events stray now accepts evs s = Some s' \<Longrightarrow> s_listen_fd s' = s_listen_fd s"
  by (induction evs arbitrary: s) (auto simp: bind_eq_Some_conv dest: handle_event_listen)

lemma Start_round_listen:
  "Start_round e r t i = Some (ms, i') \<Longrightarrow> s_listen_fd (i_server i') = s_listen_fd (i_server i)"
  by (auto simp: Start_round_def Start_pass_def next_wait_def Let_def bind_eq_Some_conv signal_handler_def Webserver_Stop_def
      split: prod.splits if_splits dest!: do_works_listen handle_events_listen)

lemma Start_loop_listen:
  "Start_loop e rs t i = Some i' \<Longrightarrow> s_listen_fd (i_server i') = s_listen_fd (i_server i)"
  by (induction e rs t i rule: Start_loop.induct) (auto simp: bind_eq_Some_conv dest: Start_round_listen split: if_splits)

text \<open>
  Property C25. A signal ends the program. Let the options be good, the constructor return, and every
  round up to the one with the signal be defined (no assertion of the timer fails, no task follows a
  pointer to an object that is gone); let the kernel report descriptors once and accept new ones, the
  log lines of the end be written, and no worker run a task during the destruction. Then \<open>main\<close>
  returns 0 after the round in which the signal arrives (or at once, when there was no listening socket),
  whatever would have come later and whatever the clients have sent, and the server is destroyed: of the
  sockets and the epoll instance exactly those from before the start are open, no connection is left, no
  database connection waits in the pool and the session with Scylla is closed.
\<close>

theorem main_exits:
  assumes opt: "parse_options opts True = Some open_log"
    and new: "Webserver_new (main_config open_log) b fds db wr ss = Some i" "b_socket b \<notin> insert (b_epoll b) fds"
      "b_epoll b \<notin> fds" "\<not> ss_initialized ss"
    and start: "Webserver_Start e at1 (rs @ [r]) i = Some i1" "r_signal r"
    and ok: "\<And>lg. rounds_ok e (rs @ [r]) (-1) (i\<lparr>i_log := lg\<rparr>)"
    and order: "\<And>m. finite (ran m) \<Longrightarrow> distinct (order m) \<and> set (order m) = ran m"
    and logs: "log_all at2 0 [(1, ''========== Server shutting down =========='')] (i_log i1) = Some lg1"
      "log_all at2 1 [(1, ''========== Server stopped =========='')] lg1 = Some lg2" "Log_flush lg2 = Some lg3"
  shows "\<exists>i2. main_program e opts b fds db wr ss (rs @ r # rs') at1 at2 order = Some (Exit 0 (Some i2)) \<and>
     w_open (s_world (i_server i2)) = fds \<and> w_objs (s_world (i_server i2)) = Map.empty \<and>
     conn_queue (i_pool i2) = [] \<and> \<not> ss_session (i_session i2)"
proof -
  have run: "Webserver_Start e at1 (rs @ r # rs') i = Some i1"
    unfolding start(1) [symmetric] unfolding Webserver_Start_def Start_loop_signal(1) [OF start(2), of e rs rs'] ..
  obtain lg where loop: "Start_loop e (rs @ [r]) (-1) (i\<lparr>i_log := lg\<rparr>) = Some i1"
    using start(1) unfolding Webserver_Start_def bind_eq_Some_conv by blast
  have closed: "i_is_close i1" by (rule Start_loop_signal(2) [OF start(2) loop])
  have "fds.keeps (other_fds (s_world (i_server i))) (s_world (i_server i1))"
    by (rule fds.keeps_loop [OF _ ok loop]) (use new_server_inv [OF new(1,2)] in \<open>simp add: fds.keeps_def\<close>)
  then have inv: "base_inv (s_world (i_server i1))" "other_fds (s_world (i_server i1)) = other_fds (s_world (i_server i))"
    by (simp_all add: fds.keeps_def)
  have ps: "distinct (order (w_connections (s_world (i_server i1))))"
    "set (order (w_connections (s_world (i_server i1)))) = ran (w_connections (s_world (i_server i1)))"
    using order [OF base_inv_finite [OF inv(1)]] by simp_all
  have ss: "\<not> ss_locked (i_session i1)"
    using Start_loop_keeps [OF loop] Webserver_new_unlocked [OF new(1,4)] by simp
  obtain w' where w': "Webserver_delete at2 (order (w_connections (s_world (i_server i1)))) i1 =
      Some (i1\<lparr>i_is_close := True, i_server := (i_server i1)\<lparr>s_world := w'\<rparr>, i_pool := ClosePool (i_pool i1),
        i_session := no_session, i_log := lg3\<rparr>)" "w_objs w' = Map.empty"
    "w_open w' = w_open (s_world (i_server i1)) - {s_listen_fd (i_server i1), ep_fd (i_epoller i1)} - open_fds (w_objs (s_world (i_server i1)))"
    by (rule delete_effect [OF inv(1) ps ss logs])
  have "w_open w' = other_fds (s_world (i_server i1)) - {s_listen_fd (i_server i1), ep_fd (i_epoller i1)}"
    using w'(3) by (auto simp: other_fds_def)
  then have "w_open w' = fds" using inv(2) new_server_fds [OF new(1-3)] Start_loop_listen [OF loop] Start_loop_keeps [OF loop] by simp
  with w'(1,2) opt new(1) run closed show ?thesis
    by (simp add: main_program_def ClosePool_def no_session_def)
qed

text \<open>A server without a log that is stopped by a signal while it waits.\<close>

definition ex_round :: round where
  "ex_round = \<lparr>r_stray = 0, r_clock = \<lambda>_. 0, r_now = 0, r_accepts = [], r_reported = None, r_work = [], r_signal = True\<rparr>"

lemma ex_main_new:
  "\<exists>i. Webserver_new (main_config False) ex_boot {0, 1, 2} db wr no_session = Some i \<and> i_log i = Log_new \<and>
     s_timer (i_server i) = HeapTimer_new"
  by (simp add: Webserver_new_def main_config_def ThreadPool_new_def Epoller_new_def init_log_def resource_dir_def ex_boot_def no_session_def
      SqlConnPool_Init_def ScyllaSession_Init_def ss_lock_def ss_unlock_def InitSocket_def addFd_def SetFdNonblock_def
      new_world_def Let_def Log_new_def del: log_all.simps split: prod.split)

lemma ex_round_runs:
  assumes "s_timer (i_server i) = HeapTimer_new"
  shows "\<exists>ms i1. Start_round e ex_round t i = Some (ms, i1) \<and> i_log i1 = i_log i" and "rounds_ok e [ex_round] t i"
proof -
  have "Tick 0 (Some timer_callback) (\<lambda>_. 0) (0, Some (s_world (i_server i)), HeapTimer_new) =
      Some (0, Some (s_world (i_server i)), HeapTimer_new)"
    by (subst Tick.simps) (simp add: HeapTimer_new_def)
  then have n: "\<exists>ms s. next_wait 0 (\<lambda>_. 0) t (i_server i) = Some (ms, s)"
    using assms by (simp add: next_wait_def GetNextTick_def)
  then show "\<exists>ms i1. Start_round e ex_round t i = Some (ms, i1) \<and> i_log i1 = i_log i"
    by (auto simp: Start_round_def ex_round_def Epoller_Wait_def read_events_def Start_pass_def signal_handler_def
        Webserver_Stop_def)
  show "rounds_ok e [ex_round] t i" by (simp add: round_ok_def ex_round_def fresh_accepts_def)
qed

theorem main_exits_witness:
  "\<exists>i2. main_program ex_senv ''l'' ex_boot {0, 1, 2} (w_db ex_world) (w_writer ex_world) no_session [ex_round]
       (\<lambda>_. (1, [], True, [])) (\<lambda>_. (1, [], True, [])) (\<lambda>m. sorted_list_of_set (ran m)) = Some (Exit 0 (Some i2)) \<and>
     w_open (s_world (i_server i2)) = {0, 1, 2}"
proof -
  obtain i :: "(db_view, mem_store) server_object" where
    i: "Webserver_new (main_config False) ex_boot {0, 1, 2} (w_db ex_world) (w_writer ex_world) no_session = Some i"
      "i_log i = Log_new" "s_timer (i_server i) = HeapTimer_new"
    using ex_main_new [of "w_db ex_world" "w_writer ex_world"] by (elim exE conjE)
  have lg: "\<not> lg_is_open Log_new" by (simp add: Log_new_def)
  note q = quiet_log [OF lg]
  have t: "s_timer (i_server (i\<lparr>i_log := l\<rparr>)) = HeapTimer_new" for l using i(3) by simp
  obtain i1 where i1: "Webserver_Start ex_senv (\<lambda>_. (1, [], True, [])) ([] @ [ex_round]) i = Some i1" "i_log i1 = Log_new"
    using ex_round_runs(1) [OF t [of Log_new], of ex_senv "-1"] i(2) q
    by (cases "i_is_close i") (auto simp: Webserver_Start_def simp del: log_all.simps)
  have p: "parse_options ''l'' True = Some False" "b_socket ex_boot \<notin> insert (b_epoll ex_boot) {0, 1, 2}"
    "b_epoll ex_boot \<notin> {0, 1, 2}" "\<not> ss_initialized no_session" "r_signal ex_round"
    by (simp_all add: ex_boot_def no_session_def ex_round_def)
  have f: "Log_flush Log_new = Some Log_new" by (simp add: Log_flush_def Log_new_def)
  have "\<exists>i2. main_program ex_senv ''l'' ex_boot {0, 1, 2} (w_db ex_world) (w_writer ex_world) no_session ([] @ ex_round # [])
       (\<lambda>_. (1, [], True, [])) (\<lambda>_. (1, [], True, [])) (\<lambda>m. sorted_list_of_set (ran m)) = Some (Exit 0 (Some i2)) \<and>
     w_open (s_world (i_server i2)) = {0, 1, 2} \<and> w_objs (s_world (i_server i2)) = Map.empty \<and>
     conn_queue (i_pool i2) = [] \<and> \<not> ss_session (i_session i2)"
    by (rule main_exits [OF p(1) i(1) p(2,3,4) i1(1) p(5) _ _ _ _ f])
      (use ex_round_runs(2) [OF t] q i1(2) in \<open>simp_all del: log_all.simps rounds_ok.simps\<close>)
  then show ?thesis by auto
qed

end
