(* ===== verification/Client_Main.thy ===== *)
theory Client_Main
  imports Client_Views
begin

text \<open>
  The client as a program (\<open>client/main.cpp\<close>): the object of the user interface, its loop, and
  the end of the process.

  Model. \<open>Run\<close> handles events until the user has quit. The user interface is a local variable of
  \<open>main\<close> and the network manager is static, so the first is destroyed before the second; what
  the listener receives in between is an argument. A callback that it makes then goes through a pointer
  to the destroyed object: \<open>None\<close>.
\<close>

section \<open>The program\<close>

fun IMClient_Run :: "ui_event list \<Rightarrow> IMClient \<Rightarrow> IMClient option" where
  "IMClient_Run [] ui = Some ui"
| "IMClient_Run (ev # es) ui =
     (if exited ui then Some ui else do { ui1 \<leftarrow> ui_step ev ui; IMClient_Run es ui1 })"

definition NetworkManager_delete :: "client \<Rightarrow> client" where
  "NetworkManager_delete cl = Disconnect cl"

datatype client_end = Looping IMClient | Returned int client

definition client_main ::
  "net \<Rightarrow> ui_event list \<Rightarrow> (bytes \<Rightarrow> Envelope option) \<Rightarrow> bytes list \<Rightarrow> client_end option" where
  "client_main n es parse late =
     do { ui \<leftarrow> IMClient_Run es (InitUI n NetworkManager_new);
          if \<not> exited ui then Some (Looping ui)
          else let cl = manager ui; cl1 = fst (ListenerLoop parse cl late) in
            if cl_notices cl1 = cl_notices cl then Some (Returned 0 (NetworkManager_delete cl1)) else None }"

section \<open>Its end\<close>

text \<open>The loop is a run of the handlers on a first part of the events, all of them unless the user quit.\<close>

lemma IMClient_Run_events:
  "IMClient_Run es ui = Some ui' \<Longrightarrow>
   \<exists>ds. prefix ds es \<and> run_events ui_step ds ui = Some ui' \<and> (exited ui' \<or> ds = es)"
proof (induction es arbitrary: ui)
  case Nil
  then show ?case by simp
next
  case (Cons ev es)
  show ?case
  proof (cases "exited ui")
    case True
    with Cons.prems show ?thesis by (intro exI [of _ "[]"]) simp
  next
    case False
    with Cons.prems obtain ui1 where s: "ui_step ev ui = Some ui1" "IMClient_Run es ui1 = Some ui'"
      by (auto split: Option.bind_splits)
    from Cons.IH [OF s(2)] obtain ds where "prefix ds es" "run_events ui_step ds ui1 = Some ui'" "exited ui' \<or> ds = es"
      by blast
    with s(1) show ?thesis by (intro exI [of _ "ev # ds"]) auto
  qed
qed

lemma IMClient_Run_ok: "IMClient_Run es (InitUI n NetworkManager_new) = Some ui \<Longrightarrow> ui_ok ui"
  using IMClient_Run_events im.run_ok [OF _ InitUI_ok] by blast

text \<open>A program that returns has closed its socket and joined both threads.\<close>

lemma client_main_closes:
  assumes "client_main n es parse late = Some (Returned r cl)"
  shows "r = 0" and "cl_sock cl = -1" and "\<not> cl_connected cl" and "\<not> cl_running cl"
    and "\<not> cl_listener cl" and "\<not> cl_heartbeat cl"
  using assms by (auto simp: client_main_def Let_def NetworkManager_delete_def Disconnect_def
      split: Option.bind_splits if_splits)

text \<open>It returns when the connection was closed before the user quit, whatever still arrives.\<close>

lemma client_main_returns:
  assumes run: "IMClient_Run es (InitUI n NetworkManager_new) = Some ui" "exited ui"
    and off: "\<not> cl_connected (manager ui)"
  shows "client_main n es parse late = Some (Returned 0 (NetworkManager_delete (manager ui)))"
proof -
  have "\<not> cl_running (manager ui)" using IMClient_Run_ok [OF run(1)] off by (simp add: ui_ok_def link_ok_def)
  then have "ListenerLoop parse (manager ui) late = (manager ui, late)"
    by (simp add: ListenerLoop.simps)
  then show ?thesis using run by (simp add: client_main_def)
qed

text \<open>It is undefined when the user quits over an open connection (from the first page, after a login
  that was refused) and the server closes it at that moment: the listener reports the loss to a user
  interface that is gone.\<close>

lemma client_main_dangling:
  assumes run: "IMClient_Run es (InitUI n NetworkManager_new) = Some ui" "exited ui"
    and on: "cl_connected (manager ui)"
  shows "client_main n es parse [[]] = None"
proof -
  have l: "link_ok (manager ui)" using IMClient_Run_ok [OF run(1)] by (simp add: ui_ok_def)
  then have "cl_running (manager ui)" "cl_on_error (manager ui)" using on by (simp_all add: link_ok_def)
  then have "cl_notices (fst (ListenerLoop parse (manager ui) [[]])) =
      cl_notices (manager ui) @ [ErrorNotice ''Connection lost'']"
    by (simp add: ListenerLoop.simps listen_pass_def connection_lost_def notify_def)
  then show ?thesis using run by (simp add: client_main_def Let_def)
qed

text \<open>Such a run: a registration that the server does not answer leaves the connection open.\<close>

lemma client_main_dangling_run:
  "\<exists>ui. IMClient_Run [ClickRegister, SubmitRegister (4, 1, 0) ex_net_down, RegisterBack, ClickQuit]
     (InitUI ex_net_down NetworkManager_new) = Some ui \<and> exited ui \<and> cl_connected (manager ui)"
  by (simp add: InitUI_def refresh_friends_def Client_GetFriendList_def perform_request_def SendRequestAndWait_def
      SendEnvelope_def NetworkManager_new_def Let_def go_def on_reg_submit_def connected_then_def Connect_def
      Register_def ex_net_down_def show_message_def notify_def callback_setters)

end
