(* ===== verification/Token_Util.thy ===== *)
theory Token_Util
  imports Prelude
begin

text \<open>
  Tokens (\<open>utils/token_util.h\<close>): what a login puts into its token and how a token is checked.

  Model. The library jwt-cpp is the argument \<open>J\<close>: signing, decoding (\<open>None\<close> when it throws)
  and verifying with a secret, an issuer and the time in seconds. What the code relies on is
  \<open>jwt_ok\<close> for the claims of a token: decoding a signed token gives its claims, and it is
  accepted with the same secret exactly when its issuer is the expected one and the time is not
  before it was issued and not after it expires.
\<close>

section \<open>Operations\<close>

record claims =
  tok_issuer :: string
  tok_type :: string
  tok_payload :: "(string \<times> string) list"
  tok_issued_at :: int
  tok_expires_at :: int

record jwt =
  jwt_sign :: "string \<Rightarrow> claims \<Rightarrow> string"
  jwt_decode :: "string \<Rightarrow> claims option"
  jwt_verify :: "string \<Rightarrow> string \<Rightarrow> int \<Rightarrow> string \<Rightarrow> bool"

definition kSecretKey :: string where
  "kSecretKey = ''yzyxjj20021225''"

definition token_claims :: "int \<Rightarrow> u64 \<Rightarrow> string \<Rightarrow> claims" where
  "token_claims now user_id username =
     \<lparr>tok_issuer = ''termchat'', tok_type = ''JWS'',
      tok_payload = [(''user_id'', to_string (unat user_id)), (''username'', username)],
      tok_issued_at = now, tok_expires_at = now + 24 * 3600\<rparr>"

definition create_token :: "jwt \<Rightarrow> int \<Rightarrow> u64 \<Rightarrow> string \<Rightarrow> string" where
  "create_token J now user_id username = jwt_sign J kSecretKey (token_claims now user_id username)"

text \<open>\<open>Some u\<close> is the result \<open>true\<close> with \<open>out_user_id = u\<close>; exceptions are caught.\<close>

definition verify_token :: "jwt \<Rightarrow> int \<Rightarrow> string \<Rightarrow> u64 option" where
  "verify_token J now token =
     (case jwt_decode J token of
        None \<Rightarrow> None
      | Some decoded \<Rightarrow>
          if \<not> jwt_verify J kSecretKey ''termchat'' now token then None
          else case map_of (tok_payload decoded) ''user_id'' of
            None \<Rightarrow> None
          | Some s \<Rightarrow> (case stoull s of Inl _ \<Rightarrow> None | Inr u \<Rightarrow> Some u))"

section \<open>A token stands for its user for a day\<close>

definition jwt_ok :: "jwt \<Rightarrow> claims \<Rightarrow> bool" where
  "jwt_ok J c \<longleftrightarrow> jwt_decode J (jwt_sign J kSecretKey c) = Some c \<and>
     (\<forall>issuer t. jwt_verify J kSecretKey issuer t (jwt_sign J kSecretKey c) \<longleftrightarrow>
        tok_issuer c = issuer \<and> tok_issued_at c \<le> t \<and> t \<le> tok_expires_at c)"

text \<open>
  A token that was created for a user is accepted as that user, whatever its name and
  its 64-bit id, for 24 hours, and refused afterwards.
\<close>

lemma token_roundtrip:
  assumes "jwt_ok J (token_claims now user_id username)" and "now \<le> t"
  shows "verify_token J t (create_token J now user_id username) = (if t \<le> now + 86400 then Some user_id else None)"
  using assms stoull_to_string [of "[]" "[]" user_id]
  by (simp add: jwt_ok_def verify_token_def create_token_def token_claims_def)

definition ex_jwt :: jwt where
  "ex_jwt = \<lparr>jwt_sign = \<lambda>_ c. tok_issuer c, jwt_decode = \<lambda>_. Some (token_claims 10 77 ''ann''),
     jwt_verify = \<lambda>_ issuer t token. token = issuer \<and> 10 \<le> t \<and> t \<le> 86410\<rparr>"

lemma token_roundtrip_example:
  "verify_token ex_jwt 11 (create_token ex_jwt 10 77 ''ann'') = Some 77 \<and>
   verify_token ex_jwt 86411 (create_token ex_jwt 10 77 ''ann'') = None"
proof -
  have "jwt_ok ex_jwt (token_claims 10 77 ''ann'')" by (auto simp: jwt_ok_def ex_jwt_def token_claims_def)
  from token_roundtrip [OF this, of 11] token_roundtrip [OF this, of 86411] show ?thesis by simp
qed

end
