(* ===== verification/Spec2Isabelle.thy ===== *)
theory Spec2Isabelle
  imports Message_Path Server_Main Client_Main Token_Util
begin

text \<open>
  TermChat: a terminal chat client and its server.

  \<^bold>\<open>The program.\<close> The server (\<open>src/server/src\<close>) runs one thread around \<open>epoll\<close> and a pool of
  workers. The main thread (\<open>core/webserver.cpp\<close>) accepts connections, closes those whose
  idle timer (\<open>timer/heaptimer.cpp\<close>) expires, and hands readable and writable descriptors to the
  workers as tasks (\<open>pool/threadpool.h\<close>). A connection (\<open>core/tcp_connection.cpp\<close>) reads into
  a buffer (\<open>buffer/buffer.cpp\<close>), decides by the first bytes between HTTP and the chat protocol,
  and lets its handler process one request. The HTTP handler (\<open>http/\<close>,
  \<open>handler/http_handler.cpp\<close>) serves files and checks forms. The chat handler
  (\<open>handler/protobuf_handler.cpp\<close>) decodes a length-prefixed envelope (\<open>proto/\<close>), calls the
  authentication, friend or message service (\<open>service/\<close>) and encodes one response. The services
  use MySQL (\<open>dao/user_dao.cpp\<close>, \<open>dao/friend_dao.cpp\<close>, connections from
  \<open>pool/sqlconnpool.cpp\<close>) and Scylla (\<open>dao/msg_scylla_dao.cpp\<close>, written behind a lock-free
  queue, \<open>core/mpsc_queue.h\<close>, by the thread of \<open>dao/async_msg_writer.cpp\<close>), and push envelopes
  to other users through the registry of online connections (\<open>service/push_service.cpp\<close>).
  The log (\<open>log/\<close>) has a writer thread of its own. The client (\<open>src/client\<close>) sends requests and
  waits for their responses while a listener thread receives (\<open>network_manager.cpp\<close>); its pages
  (\<open>main.cpp\<close>, \<open>ui/\<close>) call these requests from the handlers of their buttons and show what the
  listener collected.

  \<^bold>\<open>The theories\<close>, in the order in which they build on each other:

  \<^item> \<open>Prelude\<close>: bytes, machine words, results of system calls, list lemmas, printing and reading
    of decimal numbers.
  \<^item> \<open>Buffer_Model\<close> (\<open>buffer.h\<close>, \<open>buffer.cpp\<close>): the vector with its two positions. Every
    sequence of operations refines a byte queue; the interface is the locale \<open>byte_queue\<close>.
  \<^item> \<open>Heap_Timer\<close> (\<open>heaptimer.h\<close>, \<open>heaptimer.cpp\<close>): heap and index vector. Additions and
    adjustments refine a map from descriptor to expiry (locale \<open>expiry_map\<close>); a sweep fires
    exactly the due timers and keeps the heap order; what removal does to the index vector. The
    value that \<open>SiftUp_\<close> reads beside the heap is an argument about which nothing is assumed.
  \<^item> \<open>Mpsc_Queue\<close> (\<open>mpsc_queue.h\<close>): the linked list at the level of its atomic steps. Values come
    out in the order in which they were linked in, under every interleaving; with several
    producers a freed node can be read. The destructor frees every node.
  \<^item> \<open>Id_Generator\<close> (\<open>id_generator.h\<close>), \<open>Protocol\<close> (the messages of \<open>proto/\<close>),
    \<open>Wire_Codec\<close> (the framing in \<open>protobuf_handler.cpp\<close>): keys of conversations, round trip of
    the framing, oversized frames.
  \<^item> \<open>Sql_Dao\<close> (\<open>base_dao.h\<close>, \<open>user_dao.cpp\<close>, \<open>friend_dao.cpp\<close>): statements, transactions and
    exceptions over a database that is an argument. Answering a friend request is atomic, and
    what is open after a commit that threw.
  \<^item> \<open>Msg_Store\<close> (\<open>msg_scylla_dao.cpp\<close>, \<open>async_msg_writer.cpp\<close>, \<open>scylla_session.cpp\<close>): batches,
    retries, the drain on shutdown, and the session with its mutex. A message can be overwritten by
    one that shares its key, and is stored otherwise.
  \<^item> \<open>Http_Request\<close>, \<open>Http_Response\<close> (\<open>http/\<close>, \<open>http_handler.cpp\<close>): the parser as a state
    machine over lines, the form decoder, responses with their lengths.
  \<^item> \<open>Tcp_Connection\<close> (\<open>tcp_connection.cpp\<close>): a connection by itself; writing conserves bytes.
  \<^item> \<open>Push_Service\<close> (\<open>push_service.cpp\<close>, \<open>epoller.cpp\<close>, the rest of \<open>tcp_connection.cpp\<close>): the
    shared state (objects by address, registry, descriptors, tasks, stores). A push is a lookup and
    a use of what it found. Locale \<open>safe_step\<close>: what a push may touch.
  \<^item> \<open>Chat_Services\<close> (\<open>service/\<close>, \<open>protobuf_handler.cpp\<close>): services, handlers, dispatch. One
    response per request, authentication, login, delivery of messages.
  \<^item> \<open>Webserver\<close> (\<open>webserver.cpp\<close>): the event loop and the tasks. \<open>server_run\<close> are the states of
    all runs over the relation \<open>server_step\<close>, with \<open>base_inv\<close> as their invariant; \<open>orderly_run\<close>
    leaves out second logins, failed account lookups and logins on closed connections, and keeps the
    registry as well (\<open>srv_inv\<close>). Locales \<open>world_property\<close> and \<open>served_property\<close>: what the
    elementary changes of the shared state keep, every step keeps.
  \<^item> \<open>Server_Behaviour\<close>: a request from its bytes to the bytes of its answer, and the places where
    timer, registry, pushes, re-arming and buffers do not fit together.
  \<^item> \<open>Client_Network\<close> (\<open>client/network_manager.cpp\<close>): the listener on a segmented stream, waiting
    requests, the chat history.
  \<^item> \<open>Block_Deque\<close> (\<open>blockdeque.h\<close>, \<open>threadpool.h\<close>), \<open>Logger\<close> (\<open>log.h\<close>, \<open>log.cpp\<close>),
    \<open>Sql_Pool\<close> (\<open>sqlconnpool.cpp\<close>, the guard of \<open>base_dao.h\<close>): the queues between threads (locale
    \<open>fifo_queue\<close>), the lines of the log and its shutdown, the pool under every interleaving of
    guards that are made, moved and destroyed.
  \<^item> \<open>Server_Setup\<close> (\<open>webserver.cpp\<close>, \<open>main.cpp\<close>, \<open>epoller.cpp\<close>): the constructor with every
    error path of the listening socket, the events that the loop reads, the destructor and the exit of
    the program. The constructor makes a state from which \<open>server_run\<close> starts; the destructor
    releases what any state of a run holds; queued messages are lost at the exit. The descriptors are
    the epoll instance, the listening socket and those of the connections.
  \<^item> \<open>Server_Main\<close> (\<open>main.cpp\<close>, \<open>Webserver::Start\<close>): the program as a whole, constructor,
    rounds of the loop with the work of other threads between them until a signal, destructor.
    The loop keeps every \<open>served_property\<close>; its instance here is the set of the descriptors that
    are not those of connections. The program ends and leaks none.
  \<^item> \<open>Client_Ui\<close> (\<open>client/main.cpp\<close>, \<open>client/ui\<close>): pages, panels, handlers and callbacks over the
    network manager, as a function on events. Locale \<open>event_loop\<close>: a well-formed state has a
    next one on every event but where the program ends. Sending, answering requests, logging out.
  \<^item> \<open>Client_Views\<close> (\<open>client/ui\<close>): the screen as a term over the elements of FTXUI; in every
    reachable state it can be drawn and shows what it has to.
  \<^item> \<open>Client_Main\<close> (\<open>client/main.cpp\<close>): the loop of the client and its end, with the order in which
    the user interface and the network manager are destroyed.
  \<^item> \<open>Token_Util\<close> (\<open>token_util.h\<close>): a token is accepted as its user for a day.
  \<^item> \<open>Message_Path\<close>: the way of a message between two users, from the draft of one through the
    server and its push to the screen of the other, a lemma for each stage.
  \<^item> this theory: a request of the client through the server and back, and a message that both
    users have on their screens.

  \<^bold>\<open>How the model reads.\<close> Classes are records, enumerations and the oneof of an envelope are
  datatypes. An operation is a function from state to state; \<open>None\<close> is a failed assertion, an
  access out of range or through a dangling pointer, an exception nobody catches, or
  \<open>std::terminate\<close>. Results of system calls, clock readings, random values, addresses of new
  objects and what uninitialised or stray memory holds are arguments, and the theorems hold for all
  of them or say where they matter. Assertions are taken as active: in a release build, where they
  are compiled out, the code goes on from such a point with an access out of range, about which
  nothing is claimed. Pointers to connections are addresses in an explicit map of live objects, because
  the registry of online users and the map of connections alias them. Integers have their width
  where it matters: lengths on the wire, ids, event masks and the wait of the timer are words. Loops
  are recursive functions with termination proofs, and the drain of the lock-free queue is a partial
  function that is proved to end; no definition needs fuel. Where threads share
  state without a lock around the whole operation (the lock-free queue, the connection pool, the
  logger's shutdown) there is a step relation over the program points; elsewhere a critical section
  or a task is one step, except that the use of a pointer by a push is a step of its own.

  \<^bold>\<open>Parameters.\<close> The generated protobuf serializer (hypothesis \<open>codec_roundtrip\<close>: what was
  serialized parses back), MySQL behind sqlpp11 (\<open>mysql_ok\<close>: statements that return act as SQL,
  statements that throw have one of the effects of \<open>failed_effect\<close>), the Cassandra driver, the file
  system, jwt-cpp (\<open>jwt_ok\<close>) and what FTXUI makes of the user's input are arguments of the
  definitions that use them.

  \<^bold>\<open>Not modelled.\<close> The text of log messages outside the server's set-up; the style of buttons and
  what FTXUI does by itself (drawing, focus, the routing of keys to widgets, so that an event of the
  user may come at any time); accessors and declarations without behaviour; \<open>SIGPIPE\<close> at the client; the reuse of the address of
  a deleted queue node; the descriptors of the log file and of the database drivers; workers that
  still run while the server object is destroyed. Memory is sequentially consistent. Tasks of
  different workers on one connection do not overlap (\<open>EPOLLONESHOT\<close>), but a push, or the second half
  of one, may come between any two of them.
\<close>

section \<open>Client and server together\<close>

text \<open>
  Property C4. A request of the client comes back answered, when client and server use the same
  serializer: the packet that the client sends, in whatever pieces it reaches an idle connection of
  the server, is decoded to the request and processed. Its response, when it can be serialized
  within the client's limit, is the first thing that the server then sends; and that frame, in
  whatever pieces it reaches the client, ends the wait of the request with that response.
\<close>

theorem chat_roundtrip:
  assumes codec: "codec_roundtrip (e_serialize e) (e_parse e)" "\<And>env d. e_serialize e env = Some d \<Longrightarrow> serialize env = d"
    and server: "live w" "chat_conn p c w" "contents (c_read_buff c) = []" "contents (c_write_buff c) = []" "c_outgoing c = []"
    and client: "cl_connected cl" "cl_running cl"
    and req: "e_serialize e request = Some payload" "length payload \<le> kMaxMessageSize"
    and up: "concat chunks = frame payload" "[] \<notin> set chunks"
  shows "\<exists>w1 response. OnRead e ce (arrival (e_is_et e) chunks) p w = Some w1 \<and> answers request response \<and>
     (\<forall>d. e_serialize e response = Some d \<and> length d \<le> kMaxPacket \<longrightarrow>
       (\<exists>w2 q. OnWrite e ce [Ok (length (frame d @ concat q))] p w1 = Some (w2, frame d @ concat q)) \<and>
       (\<forall>segs. concat segs = frame d \<and> [] \<notin> set segs \<longrightarrow>
         (\<exists>cl' rest. SendRequestAndWait serialize (e_parse e) (int (length (frame payload))) segs request
            (response_cmd (env_cmd request)) cl = (Some response, cl', rest, Some (frame payload)) \<and> concat rest = [])))"
proof -
  have parse: "e_parse e d = Some env" if "e_serialize e env = Some d" for env d
    using codec(1) that by (simp add: codec_roundtrip_def)
  have "concat chunks = frame payload @ []" using up(1) by simp
  from request_processed [OF server this up(2) req(2) parse [OF req(1)], of ce] obtain w1 c1 response where
    s: "OnRead e ce (arrival (e_is_et e) chunks) p w = Some w1" "chat_conn p c1 w1" "c_determined c1"
      "answers request response" "contents (c_write_buff c1) = response_bytes e response" .
  have kind: "env_cmd response = response_cmd (env_cmd request)"
    "env_cmd response \<notin> {CMD_FRIEND_REQ_PUSH, CMD_FRIEND_STATUS_PUSH, CMD_P2P_MSG_PUSH}"
    using s(4) by (simp add: answers_def, cases "env_cmd request") (simp_all add: answers_def response_cmd_def)
  have down: "\<exists>cl' rest. SendRequestAndWait serialize (e_parse e) (int (length (frame payload))) segs request
      (response_cmd (env_cmd request)) cl = (Some response, cl', rest, Some (frame payload)) \<and> concat rest = []"
    if d: "e_serialize e response = Some d" "length d \<le> kMaxPacket" and segs: "concat segs = frame d" "[] \<notin> set segs" for d segs
    using request_returns [where unpack = "e_parse e" and serialize = serialize and request = request,
        OF client parse [OF d(1)] d(2) segs refl kind(2) refl] kind(1) codec(2) [OF req(1)] by auto
  have "\<exists>w2 q. OnWrite e ce [Ok (length (frame d @ concat q))] p w1 = Some (w2, frame d @ concat q)"
    if "e_serialize e response = Some d" for d
  proof -
    have "frame d @ concat (c_outgoing c1) = contents (c_write_buff c1) @ concat (c_outgoing c1)"
      using s(5) that by (simp add: response_bytes_def)
    then obtain w2 c2 where "OnWrite e ce [Ok (length (frame d @ concat (c_outgoing c1)))] p w1 =
        Some (w2, frame d @ concat (c_outgoing c1))"
      by (rule OnWrite_chat [OF s(2,3), of _ e ce]) simp_all
    then show ?thesis by blast
  qed
  with s(1,4) down show ?thesis by blast
qed

lemma push_events_out: "push_events is_et AND EPOLLOUT \<noteq> 0"
  by (cases is_et) (simp_all add: epoll_masks)

text \<open>
  Property C5. A message goes from screen to screen. The sender has the chat with the receiver open
  and clicks on the button; both are logged in and their connections are idle; client and server
  use the same serializer. In whatever pieces the packets arrive, the read task queues the message
  for the store and arms the receiver's connection for writing; the two write tasks then send one
  frame to each client; the receiver's panel shows the text as the last line of the conversation
  with the sender, and so does the sender's panel of the conversation with the receiver, whose
  draft is empty again.
\<close>

theorem message_on_both_screens:
  assumes codec: "codec_roundtrip (e_serialize e) (e_parse e)"
    and server: "srv_inv w" "conn_mask_ok ce"
    and sender: "idle_chat p c w" "c_user_id c = a" "a \<noteq> 0"
    and receiver: "idle_chat q d w" "w_online w b = Some q" "q \<noteq> p" "b \<noteq> 0" "c_events d = ce OR EPOLLIN"
    and clients: "chatting b ui_a" "draft (chat ui_a) = txt" "txt \<noteq> []" "chatting a ui_b"
    and message: "m = chat_message (cl_user_id (manager ui_a)) b txt (n_clock n 0)" "n_clock n 0 \<noteq> 0"
    and request: "request = request_envelope (n_clock n 1) CMD_P2P_MSG_REQ (p2p_msg_req m)" "n_parse n = e_parse e"
      "e_serialize e request = Some (n_serialize n request)" "length (n_serialize n request) \<le> kMaxMessageSize"
      "n_sent n = int (length (frame (n_serialize n request)))"
    and push: "e_serialize e (p2p_envelope (e_time e) (m\<lparr>sender_id := a\<rparr>)) = Some s" "length s \<le> kMaxPacket"
    and ack: "e_serialize e (p2p_ack e request m) = Some k" "length k \<le> kMaxPacket"
    and wire: "concat chunks = frame (n_serialize n request)" "[] \<notin> set chunks" "concat segs = frame s" "[] \<notin> set segs"
      "concat (n_incoming n) = frame k" "[] \<notin> set (n_incoming n)"
  shows "\<exists>w1 w2 w3 ev ui_a' ui_b'. OnRead e ce (arrival (e_is_et e) chunks) p w = Some w1 \<and>
     wr_queue (w_writer w1) = wr_queue (w_writer w) @ [m] \<and> w_interest w1 (c_fd d) = Some ev \<and> ev AND EPOLLOUT \<noteq> 0 \<and>
     OnWrite e ce [Ok (length (frame s))] q w1 = Some (w2, frame s) \<and>
     OnWrite e ce [Ok (length (frame k))] p w2 = Some (w3, frame k) \<and>
     run_events ui_step [Receive (e_parse e) segs, Draw] ui_b = Some ui_b' \<and> shows_last focused a (m\<lparr>sender_id := a\<rparr>) ui_b' \<and>
     snd (snd (snd (SendP2PMessage n b txt (manager ui_a)))) = Some (concat chunks) \<and>
     run_events ui_step [ClickSend n, Draw] ui_a = Some ui_a' \<and> shows_last focused b m ui_a' \<and> draft (chat ui_a') = []"
proof -
  have parse: "e_parse e x = Some env" if "e_serialize e env = Some x" for env x
    using codec that by (simp add: codec_roundtrip_def)
  have li: "is_logged_in c" using sender(2,3) by (simp add: is_logged_in_def)
  have m: "receiver_id m = b" "timestamp m = n_clock n 0" using message(1) by (simp_all add: chat_message_def)
  have rq: "env_cmd request = CMD_P2P_MSG_REQ" "env_payload request = p2p_msg_req m"
    using request(1) by (simp_all add: request_envelope_def)
  have ev: "c_events d \<noteq> push_events (e_is_et e)"
    using in_mask [OF server(2)] push_events_out [of "e_is_et e"] receiver(5) by metis
  obtain w1 c1 d1 where r: "OnRead e ce (arrival (e_is_et e) chunks) p w = Some w1"
    "chat_conn p c1 w1" "c_determined c1" "contents (c_read_buff c1) = []" "c_outgoing c1 = []"
    "contents (c_write_buff c1) = response_bytes e (p2p_ack e request m)"
    "chat_conn q d1 w1" "c_determined d1" "contents (c_write_buff d1) = []" "c_outgoing d1 = [frame s]"
    "w_interest w1 (c_fd c) = Some (ce OR EPOLLOUT)" "w_interest w1 (c_fd d) = Some (push_events (e_is_et e))"
    "wr_queue (w_writer w1) = wr_queue (w_writer w) @ [m]"
    by (rule message_processed [OF server(1) sender(1) li wire(1,2) request(4) parse [OF request(3)] rq _ _ receiver(1) ev _
          receiver(3), of s])
      (use m message(2) receiver(2,4) push(1) sender(2) in simp_all)
  obtain w2 d2 where w2: "OnWrite e ce [Ok (length (frame s))] q w1 = Some (w2, frame s)" "chat_conn q d2 w2"
    by (rule OnWrite_chat [OF r(7,8), of "frame s" e ce]) (use r(9,10) in simp_all)
  have "deref q w2 = Some d2" "\<not> c_is_close d2" using w2(2) by (simp_all add: chat_conn_def)
  from OnWrite_other [OF w2(1) this r(2)] receiver(3) have p2: "chat_conn p c1 w2" by simp
  obtain w3 c3 where w3: "OnWrite e ce [Ok (length (frame k))] p w2 = Some (w3, frame k)" "chat_conn p c3 w3"
    by (rule OnWrite_chat [OF p2 r(3), of "frame k" e ce]) (use r(5,6) ack(1) in \<open>simp_all add: response_bytes_def\<close>)
  have shows_b: "\<exists>ui'. run_events ui_step [Receive (e_parse e) segs, Draw] ui_b = Some ui' \<and>
      shows_last focused a (m\<lparr>sender_id := a\<rparr>) ui'"
    by (rule receiver_shows [where unpack = "e_parse e", OF clients(4) sender(3) parse [OF push(1)] push(2) _ wire(3,4)]) simp
  have shows_a: "\<exists>ui' cl rest. run_events ui_step [ClickSend n, Draw] ui_a = Some ui' \<and> shows_last focused b m ui' \<and> draft (chat ui') = [] \<and>
      SendP2PMessage n b txt (manager ui_a) = (Inr (), cl, rest, Some (frame (n_serialize n request)))"
    unfolding message(1)
    by (rule sender_shows [OF clients(1) receiver(4) clients(2,3) request(1) [unfolded message(1)] request(5) _ ack(2)
          p2p_ack_fields _ wire(5,6)])
      (use request(2) message(1) parse [OF ack(1)] in simp_all)
  then have packet: "snd (snd (snd (SendP2PMessage n b txt (manager ui_a)))) = Some (concat chunks)" using wire(1) by auto
  from r(1,12,13) w2(1) w3(1) shows_a shows_b packet push_events_out show ?thesis by blast
qed

definition ex_party :: "int \<Rightarrow> u64 \<Rightarrow> tcp_conn" where
  "ex_party fd user = TcpConnection_new\<lparr>c_fd := fd, c_is_close := False, c_user_id := user, c_determined := True,
     c_handler := Some ProtobufH, c_type := PROTOBUF, c_events := EPOLLONESHOT OR EPOLLIN\<rparr>"

definition ex_pair :: "(db_view, mem_store) world" where
  "ex_pair = ex_world\<lparr>w_objs := [0 \<mapsto> ex_party 5 11, 1 \<mapsto> ex_party 6 22], w_online := [11 \<mapsto> 0, 22 \<mapsto> 1]\<rparr>"

lemma ex_pair_ok: "srv_inv ex_pair" "idle_chat 0 (ex_party 5 11) ex_pair" "idle_chat 1 (ex_party 6 22) ex_pair"
proof -
  have o: "open_conns ex_pair = {0, 1}"
    by (auto simp: open_conns_def ex_pair_def ex_party_def deref_def TcpConnection_new_def split: if_splits)
  show "srv_inv ex_pair"
    unfolding srv_inv_def base_inv_def o
    by (auto simp: live_def owned_def ex_pair_def ex_world_def ex_party_def deref_def TcpConnection_new_def split: if_splits)
  show "idle_chat 0 (ex_party 5 11) ex_pair" "idle_chat 1 (ex_party 6 22) ex_pair"
    by (auto simp: idle_chat_def chat_conn_def ex_pair_def ex_world_def ex_party_def deref_def TcpConnection_new_def)
qed

definition ex_m :: P2PMessage where
  "ex_m = chat_message 11 22 ''hi'' 7"

definition ex_req :: Envelope where
  "ex_req = request_envelope 7 CMD_P2P_MSG_REQ (p2p_msg_req ex_m)"

definition ex_chat_env :: "(db_view, mem_store) server_env" where
  "ex_chat_env = ex_senv\<lparr>
     e_serialize := \<lambda>env. if env = ex_req then Some ''q'' else if env = p2p_envelope 9 ex_m then Some ''s''
       else if env = p2p_ack ex_senv ex_req ex_m then Some ''k'' else None,
     e_parse := \<lambda>bs. if bs = ''q'' then Some ex_req else if bs = ''s'' then Some (p2p_envelope 9 ex_m)
       else if bs = ''k'' then Some (p2p_ack ex_senv ex_req ex_m) else None\<rparr>"

definition ex_chat_net :: net where
  "ex_chat_net = \<lparr>n_serialize = \<lambda>_. ''q'', n_parse = e_parse ex_chat_env, n_clock = \<lambda>_. 7, n_sent = 5,
     n_incoming = [frame ''k'']\<rparr>"

definition ex_chatting :: "u64 \<Rightarrow> u64 \<Rightarrow> bytes \<Rightarrow> IMClient" where
  "ex_chatting me f txt = (InitUI ex_net_down NetworkManager_new)\<lparr>manager := ex_client\<lparr>cl_user_id := me\<rparr>,
     current_page := page_index MAIN, chat := ChatState_new\<lparr>draft := txt\<rparr>,
     home := HomePageState_new\<lparr>current_chat_friend_id := f, current_panel := panel_index CHAT\<rparr>\<rparr>"

lemma ex_chatting_ok: "chatting f (ex_chatting me f txt)" "draft (chat (ex_chatting me f txt)) = txt"
  "cl_user_id (manager (ex_chatting me f txt)) = me"
  by (simp_all add: chatting_def ex_chatting_def ex_client_def)

lemma ex_chat_env_ok: "codec_roundtrip (e_serialize ex_chat_env) (e_parse ex_chat_env)"
  "e_serialize ex_chat_env ex_req = Some ''q''" "e_serialize ex_chat_env (p2p_envelope 9 ex_m) = Some ''s''"
  "e_serialize ex_chat_env (p2p_ack ex_chat_env ex_req ex_m) = Some ''k''" "e_time ex_chat_env = 9" "e_is_et ex_chat_env"
proof -
  have "env_cmd ex_req = CMD_P2P_MSG_REQ" "env_cmd (p2p_envelope 9 ex_m) = CMD_P2P_MSG_PUSH"
    "env_cmd (p2p_ack ex_senv ex_req ex_m) = CMD_MSG_ACK"
    by (simp_all add: ex_req_def request_envelope_def p2p_envelope_def p2p_ack_fields)
  then have ne: "ex_req \<noteq> p2p_envelope 9 ex_m" "ex_req \<noteq> p2p_ack ex_senv ex_req ex_m"
    "p2p_envelope 9 ex_m \<noteq> p2p_ack ex_senv ex_req ex_m" by (metis CommandType.distinct)+
  show "codec_roundtrip (e_serialize ex_chat_env) (e_parse ex_chat_env)"
    by (auto simp: codec_roundtrip_def ex_chat_env_def split: if_splits)
  have "p2p_ack ex_chat_env ex_req ex_m = p2p_ack ex_senv ex_req ex_m"
    by (simp add: p2p_ack_def new_response_def ex_chat_env_def)
  with ne show "e_serialize ex_chat_env (p2p_ack ex_chat_env ex_req ex_m) = Some ''k''"
    by (simp add: ex_chat_env_def)
  show "e_serialize ex_chat_env ex_req = Some ''q''" "e_serialize ex_chat_env (p2p_envelope 9 ex_m) = Some ''s''"
    using ne by (simp_all add: ex_chat_env_def)
qed (simp_all add: ex_chat_env_def ex_senv_def)

theorem message_on_both_screens_witness:
  "\<exists>w1 w2 ui_a' ui_b'. OnRead ex_chat_env EPOLLONESHOT (arrival True [frame ''q'']) 0 ex_pair = Some w1 \<and>
     OnWrite ex_chat_env EPOLLONESHOT [Ok 5] 1 w1 = Some (w2, frame ''s'') \<and>
     run_events ui_step [Receive (e_parse ex_chat_env) [frame ''s''], Draw] (ex_chatting 22 11 []) = Some ui_b' \<and>
     shows_last (\<lambda>_. False) 11 ex_m ui_b' \<and>
     run_events ui_step [ClickSend ex_chat_net, Draw] (ex_chatting 11 22 ''hi'') = Some ui_a' \<and>
     shows_last (\<lambda>_. False) 22 ex_m ui_a'"
proof -
  have mask: "conn_mask_ok EPOLLONESHOT" by (simp add: conn_mask_ok_def epoll_masks)
  have m: "ex_m\<lparr>sender_id := 11\<rparr> = ex_m" by (simp add: ex_m_def chat_message_def)
  have n: "n_parse ex_chat_net = e_parse ex_chat_env" "n_clock ex_chat_net i = 7" "n_serialize ex_chat_net x = ''q''"
    "n_sent ex_chat_net = 5" "n_incoming ex_chat_net = [frame ''k'']" for i x by (simp_all add: ex_chat_net_def)
  have on: "w_online ex_pair 22 = Some 1" "c_events (ex_party 6 22) = EPOLLONESHOT OR EPOLLIN" "c_user_id (ex_party 5 11) = 11"
    by (simp_all add: ex_pair_def ex_party_def)
  have "\<exists>w1 w2 w3 ev ui_a' ui_b'. OnRead ex_chat_env EPOLLONESHOT (arrival (e_is_et ex_chat_env) [frame ''q'']) 0 ex_pair = Some w1 \<and>
     wr_queue (w_writer w1) = wr_queue (w_writer ex_pair) @ [ex_m] \<and> w_interest w1 (c_fd (ex_party 6 22)) = Some ev \<and>
     ev AND EPOLLOUT \<noteq> 0 \<and> OnWrite ex_chat_env EPOLLONESHOT [Ok (length (frame ''s''))] 1 w1 = Some (w2, frame ''s'') \<and>
     OnWrite ex_chat_env EPOLLONESHOT [Ok (length (frame ''k''))] 0 w2 = Some (w3, frame ''k'') \<and>
     run_events ui_step [Receive (e_parse ex_chat_env) [frame ''s''], Draw] (ex_chatting 22 11 []) = Some ui_b' \<and>
     shows_last (\<lambda>_. False) 11 (ex_m\<lparr>sender_id := 11\<rparr>) ui_b' \<and>
     snd (snd (snd (SendP2PMessage ex_chat_net 22 ''hi'' (manager (ex_chatting 11 22 ''hi''))))) = Some (concat [frame ''q'']) \<and>
     run_events ui_step [ClickSend ex_chat_net, Draw] (ex_chatting 11 22 ''hi'') = Some ui_a' \<and>
     shows_last (\<lambda>_. False) 22 ex_m ui_a' \<and> draft (chat ui_a') = []"
    by (rule message_on_both_screens [where request = ex_req, OF ex_chat_env_ok(1) ex_pair_ok(1) mask ex_pair_ok(2) on(3) _ ex_pair_ok(3) on(1) _ _
          on(2) ex_chatting_ok(1,2) _ ex_chatting_ok(1)])
      (simp_all add: n m ex_chat_env_ok ex_chatting_ok(3) length_frame kMaxMessageSize_def kMaxPacket_def,
       simp_all add: ex_m_def ex_req_def)
  moreover have "e_is_et ex_chat_env = True" "length (frame ''s'') = 5" by (simp_all add: ex_chat_env_ok(6) length_frame)
  ultimately show ?thesis unfolding m by (elim exE conjE) (intro exI conjI; simp only:)
qed

definition ex_beat :: Envelope where
  "ex_beat = Envelope_default\<lparr>env_cmd := CMD_HEARTBEAT\<rparr>"

definition ex_answer :: Envelope where
  "ex_answer = Envelope_default\<lparr>env_timestamp := 9\<rparr>"

definition ex_codec_env :: "(db_view, mem_store) server_env" where
  "ex_codec_env = ex_senv\<lparr>e_serialize := \<lambda>env. if env = ex_beat then Some ''hb'' else if env = ex_answer then Some ''hr'' else None,
     e_parse := \<lambda>bs. if bs = ''hb'' then Some ex_beat else if bs = ''hr'' then Some ex_answer else None\<rparr>"

lemma ex_codec_env_ok: "codec_roundtrip (e_serialize ex_codec_env) (e_parse ex_codec_env)"
  "e_serialize ex_codec_env env = Some d \<Longrightarrow> (if env = ex_beat then ''hb'' else ''hr'') = d"
  "e_serialize ex_codec_env ex_beat = Some ''hb''" "e_is_et ex_codec_env"
  by (auto simp: codec_roundtrip_def ex_codec_env_def ex_senv_def ex_beat_def ex_answer_def split: if_splits)

theorem chat_roundtrip_witness:
  "\<exists>w1 response. OnRead ex_codec_env EPOLLONESHOT (arrival True [frame ''hb'']) 0 ex_idle = Some w1 \<and> answers ex_beat response"
proof -
  have cl: "cl_connected ex_client" "cl_running ex_client" by (simp_all add: ex_client_def)
  have n: "length ''hb'' \<le> kMaxMessageSize" "concat [frame ''hb''] = frame ''hb''" "[] \<notin> set [frame ''hb'']"
    by (simp_all add: kMaxMessageSize_def)
  from chat_roundtrip [where ce = EPOLLONESHOT and serialize = "\<lambda>env. if env = ex_beat then ''hb'' else ''hr''", OF ex_codec_env_ok(1,2) ex_idle_ok cl ex_codec_env_ok(3) n]
  show ?thesis unfolding eqTrueI [OF ex_codec_env_ok(4)] by blast
qed

end
